(* ===== verification/Prelude.thy ===== *)
theory Prelude
  imports Main "HOL-Library.AList" "HOL-Library.List_Lexorder"
    "HOL-Library.Product_Lexorder" "HOL-Library.Multiset" "HOL-Library.Word"
begin

text \<open>
  The shared ground of the development: Python's text and dictionaries, fallible results, and
  the generic facts about lists and sorting that the component theories rest on.

  A Python \<open>str\<close> is a sequence of code points (lone surrogates included), so \<open>pystr\<close> is a
  list of naturals and \<open>lit\<close> reads an ASCII literal into it.  A \<open>dict\<close> is an association
  list in insertion order with distinct keys; \<open>AList.update\<close> is exactly \<open>d[k] = v\<close> (it
  replaces in place or appends).  A function that may raise returns a sum, \<open>Inl\<close> the error.
\<close>

section \<open>Text\<close>

type_synonym pystr = "nat list"

definition lit :: "string \<Rightarrow> pystr" where
  "lit s = map of_char s"

lemma inj_of_char_nat: "inj (of_char :: char \<Rightarrow> nat)"
  by (rule injI) simp

lemma lit_eq_iff [simp]: "lit s = lit t \<longleftrightarrow> s = t"
  by (simp add: lit_def inj_map_eq_map [OF inj_of_char_nat])

lemma lit_Nil_iff [simp]: "lit s = [] \<longleftrightarrow> s = []" "[] = lit s \<longleftrightarrow> s = []"
  by (auto simp: lit_def)

section \<open>Fallible results\<close>

text \<open>Sequencing of calls that may raise: the first error stops the rest.\<close>

definition rbind :: "'e + 'a \<Rightarrow> ('a \<Rightarrow> 'e + 'b) \<Rightarrow> 'e + 'b" where
  "rbind r k = (case r of Inl e \<Rightarrow> Inl e | Inr x \<Rightarrow> k x)"

lemma rbind_simps [simp]: "rbind (Inl e) k = Inl e" "rbind (Inr x) k = k x"
  by (simp_all add: rbind_def)

lemma rbind_cong [fundef_cong]:
  "r = r' \<Longrightarrow> (\<And>x. r' = Inr x \<Longrightarrow> k x = k' x) \<Longrightarrow> rbind r k = rbind r' k'"
  by (cases r') auto

lemma rbind_Inr_iff: "rbind r k = Inr y \<longleftrightarrow> (\<exists>x. r = Inr x \<and> k x = Inr y)"
  by (cases r) auto

lemma rbind_Inl_iff: "rbind r k = Inl e \<longleftrightarrow> r = Inl e \<or> (\<exists>x. r = Inr x \<and> k x = Inl e)"
  by (cases r) auto

lemma rbind_split:
  "P (rbind r k) \<longleftrightarrow> (\<forall>e. r = Inl e \<longrightarrow> P (Inl e)) \<and> (\<forall>x. r = Inr x \<longrightarrow> P (k x))"
  by (cases r) auto

text \<open>A loop over a list whose body may raise, collecting the results.\<close>

fun rmap :: "('a \<Rightarrow> 'e + 'b) \<Rightarrow> 'a list \<Rightarrow> 'e + 'b list" where
  "rmap f [] = Inr []"
| "rmap f (x # xs) = rbind (f x) (\<lambda>y. rbind (rmap f xs) (\<lambda>ys. Inr (y # ys)))"

lemma rmap_cong [fundef_cong]:
  "xs = ys \<Longrightarrow> (\<And>x. x \<in> set ys \<Longrightarrow> f x = g x) \<Longrightarrow> rmap f xs = rmap g ys"
  by (induction xs arbitrary: ys) (auto intro!: rbind_cong)

lemma rmap_Inr_iff:
  "rmap f xs = Inr ys \<longleftrightarrow> list_all2 (\<lambda>x y. f x = Inr y) xs ys"
  by (induction xs arbitrary: ys) (auto simp: rbind_Inr_iff list_all2_Cons1)

lemma rmap_Inr_length: "rmap f xs = Inr ys \<Longrightarrow> length ys = length xs"
  by (auto simp: rmap_Inr_iff dest: list_all2_lengthD)

lemma rmap_InlD: "rmap f xs = Inl e \<Longrightarrow> \<exists>x \<in> set xs. f x = Inl e"
  by (induction xs) (auto simp: rbind_Inl_iff)

lemma rmap_total: "(\<And>x. x \<in> set xs \<Longrightarrow> f x = Inr (g x)) \<Longrightarrow> rmap f xs = Inr (map g xs)"
  by (induction xs) auto

lemma rmap_map: "rmap f (map g xs) = rmap (\<lambda>x. f (g x)) xs"
  by (induction xs) simp_all

text \<open>A loop threading an accumulator through a body that may raise.\<close>

fun rfold :: "('a \<Rightarrow> 's \<Rightarrow> 'e + 's) \<Rightarrow> 'a list \<Rightarrow> 's \<Rightarrow> 'e + 's" where
  "rfold f [] s = Inr s"
| "rfold f (x # xs) s = rbind (f x s) (rfold f xs)"

lemma rfold_append: "rfold f (xs @ ys) s = rbind (rfold f xs s) (rfold f ys)"
  by (induction xs arbitrary: s) (auto simp: rbind_def split: sum.splits)

text \<open>An invariant of the body is an invariant of the loop.\<close>

lemma rfold_invariant:
  assumes "rfold f xs s = Inr s'" "P s"
    and "\<And>x s s'. x \<in> set xs \<Longrightarrow> P s \<Longrightarrow> f x s = Inr s' \<Longrightarrow> P s'"
  shows "P s'"
  using assms by (induction xs arbitrary: s) (auto simp: rbind_Inr_iff)

text \<open>A separator that occurs in neither left part splits an append uniquely.\<close>

lemma append_sep_inj: "a @ x # b = a' @ x # b' \<Longrightarrow> x \<notin> set a \<Longrightarrow> x \<notin> set a' \<Longrightarrow> a = a' \<and> b = b'"
proof (induction a arbitrary: a')
  case Nil
  then show ?case by (cases a') auto
next
  case (Cons y a)
  then show ?case by (cases a') auto
qed

lemma foldl_invariant:
  "P s \<Longrightarrow> (\<And>s x. x \<in> set xs \<Longrightarrow> P s \<Longrightarrow> P (f s x)) \<Longrightarrow> P (foldl f s xs)"
  by (induction xs arbitrary: s) simp_all

section \<open>Dictionaries\<close>

type_synonym ('k, 'v) dict = "('k \<times> 'v) list"

abbreviation dget :: "('k, 'v) dict \<Rightarrow> 'k \<Rightarrow> 'v option" where
  "dget d k \<equiv> map_of d k"

abbreviation dset :: "'k \<Rightarrow> 'v \<Rightarrow> ('k, 'v) dict \<Rightarrow> ('k, 'v) dict" where
  "dset k v d \<equiv> AList.update k v d"

abbreviation dkeys :: "('k, 'v) dict \<Rightarrow> 'k list" where
  "dkeys d \<equiv> map fst d"

definition dict_ok :: "('k, 'v) dict \<Rightarrow> bool" where
  "dict_ok d \<longleftrightarrow> distinct (map fst d)"

text \<open>\<open>d.update(e)\<close>: the entries of \<open>e\<close> in order, each as \<open>d[k] = v\<close>.\<close>

definition dupdate :: "('k, 'v) dict \<Rightarrow> ('k, 'v) dict \<Rightarrow> ('k, 'v) dict" where
  "dupdate d e = fold (\<lambda>(k, v). AList.update k v) e d"

lemma dget_dset [simp]: "dget (dset k v d) = (dget d)(k \<mapsto> v)"
  by (simp add: update_conv' fun_eq_iff)

lemma dict_ok_dset [intro]: "dict_ok d \<Longrightarrow> dict_ok (dset k v d)"
  by (simp add: dict_ok_def distinct_update)

lemma dict_ok_Nil [simp]: "dict_ok []"
  by (simp add: dict_ok_def)

lemma dict_ok_dupdate [intro]: "dict_ok d \<Longrightarrow> dict_ok (dupdate d e)"
  unfolding dupdate_def
  by (induction e arbitrary: d) auto

lemma dupdate_Nil [simp]: "dupdate d [] = d"
  by (simp add: dupdate_def)

lemma dupdate_Cons: "dupdate d ((k, v) # e) = dupdate (dset k v d) e"
  by (simp add: dupdate_def)

lemma keys_dset [simp]: "fst ` set (dset k v d) = insert k (fst ` set d)"
  by (simp add: AList.dom_update)

lemma keys_dupdate [simp]: "fst ` set (dupdate d e) = fst ` set d \<union> fst ` set e"
proof (induction e arbitrary: d)
  case (Cons kv e)
  then show ?case by (cases kv) (simp add: dupdate_Cons)
qed simp

lemma dget_dupdate: "dict_ok e \<Longrightarrow> dget (dupdate d e) = dget d ++ dget e"
proof (induction e arbitrary: d)
  case Nil
  then show ?case by simp
next
  case (Cons kv e)
  obtain k v where kv: "kv = (k, v)" by force
  from Cons.prems kv have e: "dict_ok e" "k \<notin> fst ` set e"
    by (auto simp: dict_ok_def)
  then have "dget e k = None" by (simp add: map_of_eq_None_iff)
  then show ?case
    using Cons.IH [OF e(1)] kv by (auto simp: dupdate_Cons fun_eq_iff map_add_def split: option.splits)
qed

section \<open>Sorting\<close>

lemma sort_key_id: "sorted (map k xs) \<Longrightarrow> sort_key k xs = xs"
  by (induction xs) (auto simp: insort_is_Cons)

lemma insort_key_map: "map f (insort_key (\<lambda>x. k (f x)) a xs) = insort_key k (f a) (map f xs)"
  by (induction xs) auto

lemma sort_key_map: "map f (sort_key (\<lambda>x. k (f x)) xs) = sort_key k (map f xs)"
  by (induction xs) (simp_all add: insort_key_map)

text \<open>
  \<open>sorted(xs, key=f)\<close> is \<open>sort_key f xs\<close>: stable, like Python's.  Two lists with the same
  elements and distinct keys sort to the same list.
\<close>

lemma sort_key_mset_cong:
  assumes "mset xs = mset ys" "inj_on f (set xs)"
  shows "sort_key f xs = sort_key f ys"
proof -
  have "inj_on f (set ys)" using assms mset_eq_setD by metis
  then show ?thesis
    using assms by (intro sort_key_inj_key_eq) auto
qed

end
