(* ===== verification/Json.thy ===== *)
theory Json
  imports Prelude "HOL-Library.Monad_Syntax" "HOL-Library.Sublist"
begin

text \<open>
  Python's dynamic values and the parts of the standard library the codec uses:
  \<open>str.encode\<close>/\<open>bytes.decode\<close> for UTF-8 and UTF-16, \<open>str(int)\<close>, \<open>json.dumps\<close> of a string with
  \<open>ensure_ascii=False\<close>, and \<open>json.loads\<close>.  A \<open>bytes\<close> value is a list of naturals below 256.

  \<open>json_loads\<close> follows CPython's scanner (strict strings, surrogate pairs joined, a repeated key
  keeps the last value).  It takes the platform's conversion of a float literal as an argument.
  Its fuel is spent once per value, member and element; \<open>2 * length + 1\<close> is always enough
  because each of these consumes at least one character (\<open>parse_value_fuel\<close>).
  A \<open>RecursionError\<close> of the interpreter is not modelled: the only caller turns it into the
  same \<open>SchemaViolation\<close> that re-encoding a document nested past 64 levels gives.
\<close>

section \<open>Values\<close>

type_synonym bytes = "nat list"

datatype pyval =
    PNone
  | PBool bool
  | PInt int
  | PFloat "64 word"
  | PStr pystr
  | PList "pyval list"
  | PDict "(pyval \<times> pyval) list"
  | POther

text \<open>Python's truth value (\<open>if x:\<close>); both float zeros are false.\<close>

fun truthy :: "pyval \<Rightarrow> bool" where
  "truthy PNone = False"
| "truthy (PBool b) = b"
| "truthy (PInt i) = (i \<noteq> 0)"
| "truthy (PFloat w) = (w \<noteq> 0 \<and> w \<noteq> 0x8000000000000000)"
| "truthy (PStr s) = (s \<noteq> [])"
| "truthy (PList xs) = (xs \<noteq> [])"
| "truthy (PDict kvs) = (kvs \<noteq> [])"
| "truthy POther = True"

text \<open>Every \<open>dict\<close> inside a value has distinct keys, as Python's have.\<close>

fun pyval_ok :: "pyval \<Rightarrow> bool" where
  "pyval_ok (PList xs) = (\<forall>x \<in> set xs. pyval_ok x)"
| "pyval_ok (PDict kvs) = (dict_ok kvs \<and> (\<forall>kv \<in> set kvs. pyval_ok (snd kv)))"
| "pyval_ok _ = True"

section \<open>Encodings\<close>

definition is_surrogate :: "nat \<Rightarrow> bool" where
  "is_surrogate c \<longleftrightarrow> 0xD800 \<le> c \<and> c < 0xE000"

definition is_scalar :: "nat \<Rightarrow> bool" where
  "is_scalar c \<longleftrightarrow> c < 0x110000 \<and> \<not> is_surrogate c"

definition utf8_char :: "nat \<Rightarrow> bytes" where
  "utf8_char c =
     (if c < 0x80 then [c]
      else if c < 0x800 then [192 + c div 64, 128 + c mod 64]
      else if c < 0x10000 then [224 + c div 4096, 128 + c div 64 mod 64, 128 + c mod 64]
      else [240 + c div 262144, 128 + c div 4096 mod 64, 128 + c div 64 mod 64, 128 + c mod 64])"

text \<open>\<open>s.encode("utf-8")\<close>; \<open>None\<close> is UnicodeEncodeError.\<close>

definition utf8_encode :: "pystr \<Rightarrow> bytes option" where
  "utf8_encode s = (if list_all is_scalar s then Some (concat (map utf8_char s)) else None)"

definition is_cont :: "nat \<Rightarrow> bool" where
  "is_cont b \<longleftrightarrow> 128 \<le> b \<and> b < 192"

text \<open>\<open>b.decode("utf-8")\<close>, strict: no overlong form, no surrogate, nothing above U+10FFFF.\<close>

fun utf8_decode :: "bytes \<Rightarrow> pystr option" where
  "utf8_decode [] = Some []"
| "utf8_decode (a # r) =
     (if a < 128 then map_option ((#) a) (utf8_decode r)
      else if 194 \<le> a \<and> a < 224 then
        (case r of
           b # r1 \<Rightarrow>
             if is_cont b then map_option ((#) ((a - 192) * 64 + (b - 128))) (utf8_decode r1)
             else None
         | _ \<Rightarrow> None)
      else if 224 \<le> a \<and> a < 240 then
        (case r of
           b # c # r2 \<Rightarrow>
             if is_cont b \<and> is_cont c \<and> (a = 224 \<longrightarrow> 160 \<le> b) \<and> (a = 237 \<longrightarrow> b < 160)
             then map_option ((#) ((a - 224) * 4096 + (b - 128) * 64 + (c - 128))) (utf8_decode r2)
             else None
         | _ \<Rightarrow> None)
      else if 240 \<le> a \<and> a < 245 then
        (case r of
           b # c # d # r3 \<Rightarrow>
             if is_cont b \<and> is_cont c \<and> is_cont d \<and> (a = 240 \<longrightarrow> 144 \<le> b) \<and> (a = 244 \<longrightarrow> b < 144)
             then map_option ((#) ((a - 240) * 262144 + (b - 128) * 4096 + (c - 128) * 64 + (d - 128)))
                    (utf8_decode r3)
             else None
         | _ \<Rightarrow> None)
      else None)"

declare utf8_decode.simps(2) [simp del]

lemma utf8_decode_char:
  assumes "is_scalar c"
  shows "utf8_decode (utf8_char c @ r) = map_option ((#) c) (utf8_decode r)"
proof -
  consider (one) "c < 0x80" | (two) "0x80 \<le> c" "c < 0x800"
    | (three) "0x800 \<le> c" "c < 0x10000" | (four) "0x10000 \<le> c"
    by linarith
  then show ?thesis
  proof cases
    case one
    then show ?thesis by (simp add: utf8_char_def utf8_decode.simps)
  next
    case two
    define q m where "q = c div 64" and "m = c mod 64"
    have u: "utf8_char c = [192 + q, 128 + m]" using two by (simp add: utf8_char_def q_def m_def)
    have c: "q * 64 + m = c" "m < 64" by (simp_all add: q_def m_def)
    with two have "2 \<le> q" "q < 32" by linarith+
    with c show ?thesis by (simp add: u utf8_decode.simps is_cont_def)
  next
    case three
    define x m where "x = c div 64" and "m = c mod 64"
    define y n where "y = x div 64" and "n = x mod 64"
    have "c div 4096 = y" by (simp add: y_def x_def div_mult2_eq [symmetric])
    with three have u: "utf8_char c = [224 + y, 128 + n, 128 + m]"
      by (simp add: utf8_char_def n_def m_def x_def)
    have c: "x * 64 + m = c" "m < 64" and x: "y * 64 + n = x" "n < 64"
      by (simp_all add: m_def x_def y_def n_def)
    have eq: "y * 4096 + n * 64 + m = c" using c x by linarith
    have "y < 16" using eq three by linarith
    moreover have "y = 0 \<longrightarrow> 32 \<le> n" using eq c three by linarith
    moreover have "y = 13 \<longrightarrow> n < 32"
    proof (intro impI)
      assume "y = 13"
      then have "c < 57344" using eq c x by linarith
      then have "c < 55296" using assms unfolding is_scalar_def is_surrogate_def by linarith
      with \<open>y = 13\<close> eq show "n < 32" by linarith
    qed
    ultimately show ?thesis using c x eq by (simp add: u utf8_decode.simps is_cont_def)
  next
    case four
    define x m where "x = c div 64" and "m = c mod 64"
    define y n where "y = x div 64" and "n = x mod 64"
    define z k where "z = y div 64" and "k = y mod 64"
    have "c div 4096 = y" "c div 262144 = z"
      by (simp_all add: z_def y_def x_def div_mult2_eq [symmetric])
    with four have u: "utf8_char c = [240 + z, 128 + k, 128 + n, 128 + m]"
      by (simp add: utf8_char_def k_def n_def m_def x_def)
    have c: "x * 64 + m = c" "m < 64" and x: "y * 64 + n = x" "n < 64"
      and y: "z * 64 + k = y" "k < 64"
      by (simp_all add: m_def x_def y_def n_def z_def k_def)
    have eq: "z * 262144 + k * 4096 + n * 64 + m = c" using c x y by linarith
    have "c < 0x110000" using assms by (simp add: is_scalar_def)
    then have "z < 5" "z = 4 \<longrightarrow> k < 16" using eq by linarith+
    moreover have "z = 0 \<longrightarrow> 16 \<le> k" using eq c x four by linarith
    ultimately show ?thesis using c x y eq by (simp add: u utf8_decode.simps is_cont_def)
  qed
qed

lemma utf8_decode_encode: "utf8_encode s = Some b \<Longrightarrow> utf8_decode b = Some s"
proof (induction s arbitrary: b)
  case Nil
  then show ?case by (simp add: utf8_encode_def)
next
  case (Cons c s)
  then show ?case
    by (auto simp: utf8_encode_def utf8_decode_char split: if_splits)
qed

text \<open>\<open>key.encode("utf-16-be")\<close> of surrogate-free text: big-endian code units.\<close>

definition utf16_units :: "nat \<Rightarrow> nat list" where
  "utf16_units c =
     (if c < 0x10000 then [c]
      else [0xD800 + (c - 0x10000) div 1024, 0xDC00 + (c - 0x10000) mod 1024])"

definition be16 :: "nat \<Rightarrow> bytes" where
  "be16 u = [u div 256, u mod 256]"

definition utf16_be :: "pystr \<Rightarrow> bytes" where
  "utf16_be s = concat (map be16 (concat (map utf16_units s)))"

lemma be16_inj: "be16 a = be16 b \<Longrightarrow> a = b"
  unfolding be16_def by (metis div_mult_mod_eq list.inject)

lemma be16_concat_inj: "concat (map be16 us) = concat (map be16 vs) \<Longrightarrow> us = vs"
proof (induction us arbitrary: vs)
  case Nil
  then show ?case by (cases vs) (auto simp: be16_def)
next
  case (Cons u us)
  then obtain v vs' where vs: "vs = v # vs'" by (cases vs) (auto simp: be16_def)
  have "length (be16 u) = length (be16 v)" by (simp add: be16_def)
  with Cons.prems vs have "be16 u = be16 v" "concat (map be16 us) = concat (map be16 vs')"
    by (auto simp: append_eq_append_conv)
  with Cons.IH vs show ?case by (auto dest: be16_inj)
qed

lemma utf16_units_surrogate:
  assumes "is_scalar c" "\<not> c < 0x10000"
  shows "is_surrogate (hd (utf16_units c))"
proof -
  have "c - 0x10000 < 1024 * 1024" using assms unfolding is_scalar_def by linarith
  then have "(c - 0x10000) div 1024 < 1024" by (rule less_mult_imp_div_less)
  with assms(2) show ?thesis by (simp add: utf16_units_def is_surrogate_def)
qed

lemma utf16_units_prefix_free:
  assumes "is_scalar c" "is_scalar d" "utf16_units c @ r = utf16_units d @ r'"
  shows "c = d \<and> r = r'"
proof (cases "c < 0x10000 \<longleftrightarrow> d < 0x10000")
  case False
  with assms have "is_surrogate c \<or> is_surrogate d"
    using utf16_units_surrogate [of c] utf16_units_surrogate [of d]
    by (auto simp: utf16_units_def split: if_splits)
  with assms show ?thesis by (simp add: is_scalar_def)
next
  case True
  then show ?thesis
  proof (cases "c < 0x10000")
    case True
    with \<open>c < 0x10000 \<longleftrightarrow> d < 0x10000\<close> assms(3) show ?thesis by (simp add: utf16_units_def)
  next
    case False
    define x y where "x = c - 0x10000" and "y = d - 0x10000"
    from False \<open>c < 0x10000 \<longleftrightarrow> d < 0x10000\<close> have cd: "c = x + 0x10000" "d = y + 0x10000"
      by (simp_all add: x_def y_def)
    from cd assms(3) have "x div 1024 = y div 1024" "x mod 1024 = y mod 1024" "r = r'"
      by (simp_all add: utf16_units_def)
    then have "x = y" by (metis div_mult_mod_eq)
    with cd \<open>r = r'\<close> show ?thesis by simp
  qed
qed

lemma utf16_units_not_Nil [simp]: "utf16_units c \<noteq> []"
  by (simp add: utf16_units_def)

lemma utf16_units_inj:
  "list_all is_scalar s \<Longrightarrow> list_all is_scalar t \<Longrightarrow>
   concat (map utf16_units s) = concat (map utf16_units t) \<Longrightarrow> s = t"
proof (induction s arbitrary: t)
  case Nil
  then show ?case by (cases t) auto
next
  case (Cons c s)
  from Cons.prems(3) obtain d t' where t: "t = d # t'" by (cases t) auto
  have eq: "utf16_units c @ concat (map utf16_units s) = utf16_units d @ concat (map utf16_units t')"
    using Cons.prems(3) unfolding t by (simp only: list.map concat.simps)
  have "is_scalar c" "is_scalar d" "list_all is_scalar s" "list_all is_scalar t'"
    using Cons.prems(1,2) unfolding t by simp_all
  with utf16_units_prefix_free [OF _ _ eq] Cons.IH [of t'] show ?case unfolding t by blast
qed

lemma utf16_be_inj:
  "list_all is_scalar s \<Longrightarrow> list_all is_scalar t \<Longrightarrow> utf16_be s = utf16_be t \<Longrightarrow> s = t"
  unfolding utf16_be_def by (blast dest: be16_concat_inj intro: utf16_units_inj)

section \<open>Numbers\<close>

text \<open>\<open>str(n)\<close> of a Python int.\<close>

fun dec_nat :: "nat \<Rightarrow> pystr" where
  "dec_nat n = (if n < 10 then [48 + n] else dec_nat (n div 10) @ [48 + n mod 10])"

declare dec_nat.simps [simp del]

definition int_str :: "int \<Rightarrow> pystr" where
  "int_str i = (if i < 0 then 45 # dec_nat (nat (- i)) else dec_nat (nat i))"

definition is_digit :: "nat \<Rightarrow> bool" where
  "is_digit c \<longleftrightarrow> 48 \<le> c \<and> c < 58"

definition digits_value :: "pystr \<Rightarrow> nat" where
  "digits_value ds = foldl (\<lambda>a c. a * 10 + (c - 48)) 0 ds"

lemma digits_value_snoc: "digits_value (ds @ [c]) = digits_value ds * 10 + (c - 48)"
  by (simp add: digits_value_def)

lemma dec_nat_digits: "list_all is_digit (dec_nat n)"
proof (induction n rule: dec_nat.induct)
  case (1 n)
  have "n mod 10 < 10" by simp
  then have d: "is_digit (48 + n mod 10)" by (simp add: is_digit_def)
  show ?case
  proof (cases "n < 10")
    case True
    then show ?thesis by (subst dec_nat.simps) (simp add: is_digit_def)
  next
    case False
    with 1 d show ?thesis by (subst dec_nat.simps) simp
  qed
qed

lemma dec_nat_not_Nil [simp]: "dec_nat n \<noteq> []"
  by (subst dec_nat.simps) simp

lemma digits_value_dec_nat [simp]: "digits_value (dec_nat n) = n"
proof (induction n rule: dec_nat.induct)
  case (1 n)
  then show ?case
    by (subst dec_nat.simps) (simp add: digits_value_snoc, simp add: digits_value_def)
qed

lemma dec_nat_chars: "c \<in> set (dec_nat n) \<Longrightarrow> 48 \<le> c \<and> c < 58"
  using dec_nat_digits by (auto simp: list_all_iff is_digit_def)

lemma int_str_chars: "c \<in> set (int_str i) \<Longrightarrow> c = 45 \<or> 48 \<le> c \<and> c < 58"
  by (auto simp: int_str_def dest: dec_nat_chars split: if_splits)

lemma dec_nat_inj: "dec_nat m = dec_nat n \<Longrightarrow> m = n"
  by (metis digits_value_dec_nat)

lemma int_str_inj: "int_str i = int_str j \<Longrightarrow> i = j"
proof -
  have neg: "dec_nat n \<noteq> 45 # t" for n t
  proof
    assume "dec_nat n = 45 # t"
    then have "45 \<in> set (dec_nat n)" by simp
    then show False using dec_nat_chars by fastforce
  qed
  assume "int_str i = int_str j"
  then have "(i < 0 \<longleftrightarrow> j < 0) \<and> nat \<bar>i\<bar> = nat \<bar>j\<bar>"
    using neg neg [symmetric] dec_nat_inj by (auto simp: int_str_def split: if_splits)
  then show ?thesis by linarith
qed

lemma hd_dec_nat: "hd (dec_nat n) = 48 \<longleftrightarrow> n = 0"
proof (induction n rule: dec_nat.induct)
  case (1 n)
  then show ?case by (subst dec_nat.simps) (auto simp: hd_append)
qed

lemma dec_nat_0 [simp]: "dec_nat 0 = [48]"
  by (subst dec_nat.simps) simp

lemma length_dec_nat: "n < 10 ^ k \<Longrightarrow> 0 < k \<Longrightarrow> length (dec_nat n) \<le> k"
proof (induction n arbitrary: k rule: dec_nat.induct)
  case (1 n)
  show ?case
  proof (cases "n < 10")
    case True
    with 1 show ?thesis by (subst dec_nat.simps) simp
  next
    case False
    obtain j where k: "k = Suc j" using "1.prems" by (cases k) auto
    with False "1.prems" have "0 < j" by (intro gr0I) simp
    note j = k this
    with "1.prems" have "n div 10 < 10 ^ j" by (simp add: less_mult_imp_div_less mult.commute)
    with "1.IH" False j have "length (dec_nat (n div 10)) \<le> j" by simp
    with False j show ?thesis by (subst dec_nat.simps) simp
  qed
qed

section \<open>Strings: json.dumps and the scanner\<close>

definition hex_char :: "nat \<Rightarrow> nat" where
  "hex_char d = (if d < 10 then 48 + d else 87 + d)"

text \<open>\<open>json.dumps(s, ensure_ascii=False)\<close>: the two mandatory escapes, the five short control
  escapes, \<open>\u00xx\<close> for the other controls, everything else as it is.\<close>

definition json_escape :: "nat \<Rightarrow> pystr" where
  "json_escape c =
     (if c = 34 then [92, 34] else if c = 92 then [92, 92]
      else if c = 10 then [92, 110] else if c = 13 then [92, 114]
      else if c = 9 then [92, 116] else if c = 12 then [92, 102]
      else if c = 8 then [92, 98]
      else if c < 32 then [92, 117, 48, 48, hex_char (c div 16), hex_char (c mod 16)]
      else [c])"

definition json_string :: "pystr \<Rightarrow> pystr" where
  "json_string s = 34 # concat (map json_escape s) @ [34]"

definition hex_value :: "nat \<Rightarrow> nat option" where
  "hex_value c =
     (if 48 \<le> c \<and> c < 58 then Some (c - 48)
      else if 97 \<le> c \<and> c < 103 then Some (c - 87)
      else if 65 \<le> c \<and> c < 71 then Some (c - 55)
      else None)"

fun hex4 :: "pystr \<Rightarrow> nat option" where
  "hex4 (a # b # c # d # _) =
     do { w \<leftarrow> hex_value a; x \<leftarrow> hex_value b; y \<leftarrow> hex_value c; z \<leftarrow> hex_value d;
          Some (w * 4096 + x * 256 + y * 16 + z) }"
| "hex4 _ = None"

definition is_high :: "nat \<Rightarrow> bool" where
  "is_high c \<longleftrightarrow> 0xD800 \<le> c \<and> c < 0xDC00"

definition is_low :: "nat \<Rightarrow> bool" where
  "is_low c \<longleftrightarrow> 0xDC00 \<le> c \<and> c < 0xE000"

text \<open>\<open>scanstring\<close> in strict mode, after the opening quote: the text and what follows the
  closing quote.  A \<open>\u\<close> escape of a high surrogate takes a following low one with it.\<close>

definition short_escape :: "nat \<Rightarrow> nat option" where
  "short_escape e =
     (if e = 34 then Some 34 else if e = 92 then Some 92 else if e = 47 then Some 47
      else if e = 98 then Some 8 else if e = 102 then Some 12 else if e = 110 then Some 10
      else if e = 114 then Some 13 else if e = 116 then Some 9 else None)"

function scan_string :: "pystr \<Rightarrow> (pystr \<times> pystr) option" where
  "scan_string t =
     (case t of
        [] \<Rightarrow> None
      | c # r \<Rightarrow>
          if c = 34 then Some ([], r)
          else if c = 92 then
            (case r of
               [] \<Rightarrow> None
             | e # r1 \<Rightarrow>
                 if e = 117 then
                   (case hex4 r1 of
                      None \<Rightarrow> None
                    | Some u \<Rightarrow>
                        if is_high u \<and> take 2 (drop 4 r1) = [92, 117] then
                          (case hex4 (drop 6 r1) of
                             None \<Rightarrow> None
                           | Some v \<Rightarrow>
                               if is_low v then
                                 map_option (map_prod ((#) (0x10000 + (u - 0xD800) * 1024 + (v - 0xDC00))) id)
                                   (scan_string (drop 10 r1))
                               else map_option (map_prod ((#) u) id) (scan_string (drop 4 r1)))
                        else map_option (map_prod ((#) u) id) (scan_string (drop 4 r1)))
                 else
                   (case short_escape e of
                      None \<Rightarrow> None
                    | Some x \<Rightarrow> map_option (map_prod ((#) x) id) (scan_string r1)))
          else if c < 32 then None
          else map_option (map_prod ((#) c) id) (scan_string r))"
  by pat_completeness auto
termination
  by (relation "measure length") auto

declare scan_string.simps [simp del]

lemma hex_value_hex_char [simp]: "d < 16 \<Longrightarrow> hex_value (hex_char d) = Some d"
  by (auto simp: hex_value_def hex_char_def)

lemma scan_string_escape:
  "scan_string (json_escape c @ r) = map_option (map_prod ((#) c) id) (scan_string r)"
proof (cases "c < 32 \<and> c \<notin> {8, 9, 10, 12, 13}")
  case True
  then have c: "c div 16 * 16 + c mod 16 = c" "c div 16 < 16" "c mod 16 < 16" "\<not> is_high c"
    by (auto simp: is_high_def)
  with True have e: "json_escape c @ r = 92 # 117 # 48 # 48 # hex_char (c div 16) # hex_char (c mod 16) # r"
    by (auto simp: json_escape_def)
  have "hex4 (48 # 48 # hex_char (c div 16) # hex_char (c mod 16) # r) = Some c"
    using c by (simp add: hex_value_def [of 48])
  with e c show ?thesis by (subst scan_string.simps) simp
next
  case False
  then show ?thesis
    by (subst scan_string.simps) (auto simp: json_escape_def short_escape_def)
qed

lemma scan_string_escapes:
  "scan_string (concat (map json_escape s) @ 34 # r) = Some (s, r)"
proof (induction s)
  case Nil
  show ?case by (subst scan_string.simps) simp
next
  case (Cons c s)
  then show ?case by (simp add: scan_string_escape)
qed

section \<open>json.loads\<close>

definition is_ws :: "nat \<Rightarrow> bool" where
  "is_ws c \<longleftrightarrow> c = 32 \<or> c = 9 \<or> c = 10 \<or> c = 13"

definition skip_ws :: "pystr \<Rightarrow> pystr" where
  "skip_ws t = dropWhile is_ws t"

definition frac_part :: "pystr \<Rightarrow> pystr" where
  "frac_part t =
     (case t of
        [] \<Rightarrow> []
      | c # r \<Rightarrow> if c = 46 \<and> takeWhile is_digit r \<noteq> [] then 46 # takeWhile is_digit r else [])"

definition exp_part :: "pystr \<Rightarrow> pystr" where
  "exp_part t =
     (case t of
        [] \<Rightarrow> []
      | e # r \<Rightarrow>
          if e = 101 \<or> e = 69 then
            let sg = (if r \<noteq> [] \<and> (hd r = 43 \<or> hd r = 45) then [hd r] else []);
                ds = takeWhile is_digit (drop (length sg) r)
            in if ds = [] then [] else e # sg @ ds
          else [])"

definition int_part :: "pystr \<Rightarrow> pystr" where
  "int_part t = (if t \<noteq> [] \<and> hd t = 48 then [48] else takeWhile is_digit t)"

text \<open>A number literal: an integer unless a fraction or an exponent follows.  An integer of more
  than 4300 digits is a ValueError.\<close>

definition parse_number :: "(pystr \<Rightarrow> 64 word) \<Rightarrow> pystr \<Rightarrow> (pyval \<times> pystr) option" where
  "parse_number fl t =
     (let sg = (if t \<noteq> [] \<and> hd t = 45 then [45] else []);
          t1 = drop (length sg) t;
          ip = int_part t1;
          r = drop (length ip) t1;
          f = frac_part r;
          e = exp_part (drop (length f) r)
      in if ip = [] then None
         else if f = [] \<and> e = [] then
           (if 4300 < length ip then None
            else Some (PInt (if sg = [] then int (digits_value ip) else - int (digits_value ip)), r))
         else Some (PFloat (fl (sg @ ip @ f @ e)), drop (length f + length e) r))"

text \<open>The members of an object in text order; a repeated key keeps its last value.\<close>

definition dict_of_pairs :: "(pystr \<times> pyval) list \<Rightarrow> (pyval \<times> pyval) list" where
  "dict_of_pairs kvs = fold (\<lambda>(k, v). AList.update (PStr k) v) kvs []"

fun parse_value :: "(pystr \<Rightarrow> 64 word) \<Rightarrow> nat \<Rightarrow> pystr \<Rightarrow> (pyval \<times> pystr) option"
  and parse_members :: "(pystr \<Rightarrow> 64 word) \<Rightarrow> nat \<Rightarrow> pystr \<Rightarrow> ((pystr \<times> pyval) list \<times> pystr) option"
  and parse_elements :: "(pystr \<Rightarrow> 64 word) \<Rightarrow> nat \<Rightarrow> pystr \<Rightarrow> (pyval list \<times> pystr) option"
where
  "parse_value fl 0 t = None"
| "parse_value fl (Suc n) t =
     (case t of
        [] \<Rightarrow> None
      | c # r \<Rightarrow>
          if c = 34 then map_option (map_prod PStr id) (scan_string r)
          else if c = 123 then
            (if skip_ws r \<noteq> [] \<and> hd (skip_ws r) = 125 then Some (PDict [], tl (skip_ws r))
             else map_option (map_prod (PDict \<circ> dict_of_pairs) id) (parse_members fl n (skip_ws r)))
          else if c = 91 then
            (if skip_ws r \<noteq> [] \<and> hd (skip_ws r) = 93 then Some (PList [], tl (skip_ws r))
             else map_option (map_prod PList id) (parse_elements fl n (skip_ws r)))
          else if take 4 t = lit ''null'' then Some (PNone, drop 4 t)
          else if take 4 t = lit ''true'' then Some (PBool True, drop 4 t)
          else if take 5 t = lit ''false'' then Some (PBool False, drop 5 t)
          else if take 3 t = lit ''NaN'' then Some (PFloat 0x7FF8000000000000, drop 3 t)
          else if take 8 t = lit ''Infinity'' then Some (PFloat 0x7FF0000000000000, drop 8 t)
          else if take 9 t = lit ''-Infinity'' then Some (PFloat 0xFFF0000000000000, drop 9 t)
          else parse_number fl t)"
| "parse_members fl 0 t = None"
| "parse_members fl (Suc n) t =
     (case t of
        [] \<Rightarrow> None
      | q # r \<Rightarrow>
          if q \<noteq> 34 then None
          else (case scan_string r of
             None \<Rightarrow> None
           | Some (k, r1) \<Rightarrow>
               (case skip_ws r1 of
                  [] \<Rightarrow> None
                | c # r2 \<Rightarrow>
                    if c \<noteq> 58 then None
                    else (case parse_value fl n (skip_ws r2) of
                       None \<Rightarrow> None
                     | Some (v, r3) \<Rightarrow>
                         (case skip_ws r3 of
                            [] \<Rightarrow> None
                          | d # r4 \<Rightarrow>
                              if d = 125 then Some ([(k, v)], r4)
                              else if d = 44 then
                                map_option (map_prod ((#) (k, v)) id) (parse_members fl n (skip_ws r4))
                              else None)))))"
| "parse_elements fl 0 t = None"
| "parse_elements fl (Suc n) t =
     (case parse_value fl n t of
        None \<Rightarrow> None
      | Some (v, r) \<Rightarrow>
          (case skip_ws r of
             [] \<Rightarrow> None
           | d # r1 \<Rightarrow>
               if d = 93 then Some ([v], r1)
               else if d = 44 then map_option (map_prod ((#) v) id) (parse_elements fl n (skip_ws r1))
               else None))"

definition json_loads :: "(pystr \<Rightarrow> 64 word) \<Rightarrow> pystr \<Rightarrow> pyval option" where
  "json_loads fl t =
     (if t \<noteq> [] \<and> hd t = 0xFEFF then None
      else (case parse_value fl (2 * length t + 1) (skip_ws t) of
              None \<Rightarrow> None
            | Some (v, r) \<Rightarrow> if skip_ws r = [] then Some v else None))"

subsection \<open>The scanner consumes its input, so the fuel is enough\<close>

lemma skip_ws_length: "length (skip_ws t) \<le> length t"
  by (simp add: skip_ws_def length_dropWhile_le)

lemma scan_string_length: "scan_string t = Some (s, r) \<Longrightarrow> length r < length t"
proof (induction t arbitrary: s r rule: scan_string.induct)
  case (1 t)
  show ?case
  proof (cases t)
    case Nil
    with "1.prems" show ?thesis by (simp add: scan_string.simps [of "[]"])
  next
    case (Cons c u)
    note t = Cons
    have step: "length r < length t"
      if "scan_string u' = Some (s', r)" "length u' < length t"
        "\<And>s r. scan_string u' = Some (s, r) \<Longrightarrow> length r < length u'" for u' s'
      using that by (meson less_trans)
    show ?thesis
      using "1.prems" t
      by (subst (asm) scan_string.simps)
        (auto split: list.splits option.splits if_splits intro!: step dest: "1.IH")
  qed
qed

lemma parse_number_length: "parse_number fl t = Some (v, r) \<Longrightarrow> length r < length t"
  unfolding parse_number_def Let_def int_part_def
  by (cases t) (auto split: if_splits)

lemma length_tl_skip_ws: "length (tl (skip_ws u)) \<le> length u"
  using skip_ws_length [of u] by simp

lemma parse_length:
  "parse_value fl n t = Some (v, r) \<Longrightarrow> length r < length t"
  "parse_members fl n t = Some (kvs, r) \<Longrightarrow> length r < length t"
  "parse_elements fl n t = Some (vs, r) \<Longrightarrow> length r < length t"
proof (induction fl n t and fl n t and fl n t arbitrary: v r and kvs r and vs r
    rule: parse_value_parse_members_parse_elements.induct)
  case (2 fl n t)
  show ?case
  proof (cases t)
    case Nil
    with "2.prems" show ?thesis by simp
  next
    case (Cons c u)
    have ws: "length (skip_ws u) \<le> length u" "length (tl (skip_ws u)) \<le> length u"
      by (rule skip_ws_length length_tl_skip_ws)+
    have drp: "length (drop k t) < length t" if "0 < k" for k
      using that Cons by (simp add: less_Suc_eq_le le_diff_conv)
    show ?thesis
      using "2.prems" Cons ws "2.IH" drp
      by (fastforce split: if_splits dest: scan_string_length parse_number_length)
  qed
next
  case (4 fl n t)
  from "4.prems" obtain u k r1 c r2 where t: "t = 34 # u" and k: "scan_string u = Some (k, r1)"
    and r1: "skip_ws r1 = c # r2"
    by (auto split: list.splits option.splits if_splits)
  from "4.prems" t k r1 obtain w r3 d r4 where c: "c = 58"
    and w: "parse_value fl n (skip_ws r2) = Some (w, r3)" and r3: "skip_ws r3 = d # r4"
    by (auto split: list.splits option.splits if_splits)
  have "length r1 < length u" using k by (rule scan_string_length)
  moreover have "Suc (length r2) \<le> length r1" using skip_ws_length [of r1] r1 by simp
  moreover have "length r3 < length (skip_ws r2)" using "4.IH" t k r1 c w by fastforce
  moreover have "length (skip_ws r2) \<le> length r2" by (rule skip_ws_length)
  moreover have "Suc (length r4) \<le> length r3" using skip_ws_length [of r3] r3 by simp
  ultimately have len: "length r4 < length t" using t by simp
  show ?case
  proof (cases "d = 125")
    case True
    with "4.prems" t k r1 c w r3 len show ?thesis by simp
  next
    case False
    with "4.prems" t k r1 c w r3 obtain kvs' where "d = 44"
      and "parse_members fl n (skip_ws r4) = Some (kvs', r)"
      by (auto split: if_splits)
    then have "length r < length (skip_ws r4)" using "4.IH" t k r1 c w r3 False by fastforce
    with len skip_ws_length [of r4] show ?thesis by linarith
  qed
next
  case (6 fl n t)
  from "6.prems" obtain w r1 d r2 where w: "parse_value fl n t = Some (w, r1)"
    and r1: "skip_ws r1 = d # r2"
    by (auto split: list.splits option.splits if_splits)
  have "length r1 < length t" using "6.IH" w by blast
  moreover have "Suc (length r2) \<le> length r1" using skip_ws_length [of r1] r1 by simp
  ultimately have len: "length r2 < length t" by simp
  show ?case
  proof (cases "d = 93")
    case True
    with "6.prems" w r1 len show ?thesis by simp
  next
    case False
    with "6.prems" w r1 obtain vs' where "d = 44"
      and "parse_elements fl n (skip_ws r2) = Some (vs', r)"
      by (auto split: if_splits)
    then have "length r < length (skip_ws r2)" using "6.IH" w r1 False by fastforce
    with len skip_ws_length [of r2] show ?thesis by linarith
  qed
qed simp_all

text \<open>Past the bound, more fuel never changes a result.\<close>

lemma parse_fuel_step:
  "(\<forall>t. 2 * length t + 1 \<le> n \<longrightarrow> parse_value fl (Suc n) t = parse_value fl n t) \<and>
   (\<forall>t. 2 * length t + 1 \<le> n \<longrightarrow> parse_members fl (Suc n) t = parse_members fl n t) \<and>
   (\<forall>t. 2 * length t + 2 \<le> n \<longrightarrow> parse_elements fl (Suc n) t = parse_elements fl n t)"
proof (induction n)
  case 0
  then show ?case by simp
next
  case (Suc n)
  have "parse_value fl (Suc (Suc n)) t = parse_value fl (Suc n) t" if "2 * length t + 1 \<le> Suc n" for t
  proof (cases t)
    case Nil
    then show ?thesis by simp
  next
    case (Cons c u)
    with that skip_ws_length [of u] have "2 * length (skip_ws u) + 2 \<le> n" by simp
    with Suc.IH have "parse_members fl (Suc n) (skip_ws u) = parse_members fl n (skip_ws u)"
      "parse_elements fl (Suc n) (skip_ws u) = parse_elements fl n (skip_ws u)" by simp_all
    with Cons show ?thesis
      by (simp only: parse_value.simps list.case)
  qed
  moreover have "parse_members fl (Suc (Suc n)) t = parse_members fl (Suc n) t"
    if "2 * length t + 1 \<le> Suc n" for t
  proof -
    have v: "parse_value fl (Suc n) (skip_ws r2) = parse_value fl n (skip_ws r2)"
      if "length r2 < length t" for r2
      using Suc.IH \<open>2 * length t + 1 \<le> Suc n\<close> that skip_ws_length [of r2] by simp
    have m: "parse_members fl (Suc n) (skip_ws r2) = parse_members fl n (skip_ws r2)"
      if "length r2 < length t" for r2
      using Suc.IH \<open>2 * length t + 1 \<le> Suc n\<close> that skip_ws_length [of r2] by simp
    show ?thesis
    proof (cases "\<exists>u k r1 r2. t = 34 # u \<and> scan_string u = Some (k, r1) \<and> skip_ws r1 = 58 # r2")
      case False
      then show ?thesis
        by (auto split: list.splits option.splits if_splits simp del: parse_value.simps)
    next
      case True
      then obtain u k r1 r2 where t: "t = 34 # u" "scan_string u = Some (k, r1)" "skip_ws r1 = 58 # r2"
        by blast
      have l2: "Suc (length r2) < length t"
        using scan_string_length [OF t(2)] skip_ws_length [of r1] t by simp
      have l4: "length r4 < length t"
        if "parse_value fl n (skip_ws r2) = Some (w, r3)" "skip_ws r3 = d # r4" for w r3 d r4
        using parse_length(1) [OF that(1)] skip_ws_length [of r2] skip_ws_length [of r3] that(2) l2
        by simp
      show ?thesis
        using t l2 l4 v [of r2] m
        by (simp del: parse_value.simps)
          (auto simp del: parse_value.simps split: option.splits list.splits)
    qed
  qed
  moreover have "parse_elements fl (Suc (Suc n)) t = parse_elements fl (Suc n) t"
    if "2 * length t + 2 \<le> Suc n" for t
  proof -
    have v: "parse_value fl (Suc n) t = parse_value fl n t" using Suc.IH that by simp
    have e: "parse_elements fl (Suc n) (skip_ws r2) = parse_elements fl n (skip_ws r2)"
      if "parse_value fl n t = Some (w, r1)" "skip_ws r1 = d # r2" for w r1 d r2
      using Suc.IH parse_length(1) [OF that(1)] skip_ws_length [of r1] skip_ws_length [of r2] that(2)
        \<open>2 * length t + 2 \<le> Suc n\<close> by simp
    show ?thesis
      using v e
      by (simp del: parse_value.simps)
        (auto simp del: parse_value.simps split: option.splits list.splits)
  qed
  ultimately show ?case by blast
qed

lemma parse_value_fuel:
  assumes "2 * length t + 1 \<le> n"
  shows "parse_value fl n t = parse_value fl (2 * length t + 1) t"
  using assms
proof (induction n rule: dec_induct)
  case base
  then show ?case by simp
next
  case (step n)
  then show ?case using parse_fuel_step [of n fl] by metis
qed

end
