(* ===== verification/Entities.thy ===== *)
theory Entities
  imports Json
begin

text \<open>
  The protocol's entity types (\<open>entities.py\<close>) and reject codes (\<open>errors.py\<close>) as records
  and a datatype.  A field the source types \<open>str\<close> is a \<open>pystr\<close>, an optional field an
  \<open>option\<close>; \<open>op\<close> stays a string because untrusted events carry any string there and the
  validators check it.  The prose of a reject is dropped: \<open>errors.py\<close> makes the code, not the
  message, the wire vocabulary.
\<close>

datatype protocol_error =
    StaleBaseRev
  | PolicyDenied
  | SchemaViolation
  | UnknownCollection

definition error_code :: "protocol_error \<Rightarrow> pystr" where
  "error_code e =
     (case e of
        StaleBaseRev \<Rightarrow> lit ''stale_base_rev''
      | PolicyDenied \<Rightarrow> lit ''policy_denied''
      | SchemaViolation \<Rightarrow> lit ''schema_violation''
      | UnknownCollection \<Rightarrow> lit ''unknown_collection'')"

definition op_patch :: pystr where "op_patch = lit ''patch''"
definition op_append :: pystr where "op_append = lit ''append''"
definition op_tombstone :: pystr where "op_tombstone = lit ''tombstone''"

definition OPS :: "pystr list" where
  "OPS = [op_patch, op_append, op_tombstone]"

lemma op_neq [simp]:
  "op_patch \<noteq> op_append" "op_patch \<noteq> op_tombstone" "op_append \<noteq> op_tombstone"
  "op_append \<noteq> op_patch" "op_tombstone \<noteq> op_patch" "op_tombstone \<noteq> op_append"
  by (simp_all add: op_patch_def op_append_def op_tombstone_def)

type_synonym payload = "(pystr, pyval) dict"

record event =
  event_id :: pystr
  collection :: pystr
  entity_id :: pystr
  actor_id :: pystr
  actor_seq :: int
  op :: pystr
  base_rev :: "int option"
  policy_ref :: "pystr option"
  payload :: payload
  sig :: "pystr option"

record grant =
  grant_id :: pystr
  subject :: pystr
  issuer :: pystr
  resource :: pystr
  verbs :: "pystr list"
  issued_at :: int
  expires_at :: int
  revokes :: "pystr option"
  grant_sig :: "pystr option"

text \<open>The dedup identity of an event (\<open>dedup_key\<close>).\<close>

definition dedup_key :: "('a) event_scheme \<Rightarrow> pystr \<times> int" where
  "dedup_key e = (actor_id e, actor_seq e)"

end
