(* ===== verification/Canonical.thy ===== *)
theory Canonical
  imports Entities
begin

text \<open>
  The canonical byte codec (\<open>canonical.py\<close>): the restricted RFC 8785 writer, the bounded
  document parser, and the event codec over them.  The lemmas show that the codec is a
  bijection up to the order of dictionary keys: \<open>json_loads\<close> reads back what \<open>write_value\<close> wrote
  (\<open>parse_write\<close>), so equal bytes come from equal values and one value has one spelling.
\<close>

section \<open>The writer\<close>

definition MAX_SAFE_INT :: int where "MAX_SAFE_INT = 2 ^ 53 - 1"
definition MAX_DEPTH :: nat where "MAX_DEPTH = 64"
definition MAX_DOCUMENT_BYTES :: nat where "MAX_DOCUMENT_BYTES = 1048576"

definition EVENT_SIGNING_DOMAIN :: bytes where
  "EVENT_SIGNING_DOMAIN = lit ''kantaq:event:v1'' @ [0]"

definition is_hex_lower :: "nat \<Rightarrow> bool" where
  "is_hex_lower c \<longleftrightarrow> (48 \<le> c \<and> c \<le> 57) \<or> (97 \<le> c \<and> c \<le> 102)"

definition is_sig_hex :: "pystr \<Rightarrow> bool" where
  "is_sig_hex s \<longleftrightarrow> length s = 128 \<and> list_all is_hex_lower s"

definition is_key_hex :: "pystr \<Rightarrow> bool" where
  "is_key_hex s \<longleftrightarrow> length s = 64 \<and> list_all is_hex_lower s"

text \<open>\<open>_utf16_key\<close> and \<open>_check_text\<close>.\<close>

definition utf16_key :: "pystr \<Rightarrow> bytes" where
  "utf16_key k = utf16_be k"

definition check_text :: "pystr \<Rightarrow> protocol_error + pystr" where
  "check_text s = (case utf8_encode s of None \<Rightarrow> Inl SchemaViolation | Some _ \<Rightarrow> Inr s)"

text \<open>The key check of an object, entry by entry: a string without lone surrogates.\<close>

definition check_item :: "pyval \<times> pyval \<Rightarrow> protocol_error + (pystr \<times> pyval)" where
  "check_item kv =
     (case fst kv of
        PStr k \<Rightarrow> rbind (check_text k) (\<lambda>k. Inr (k, snd kv))
      | _ \<Rightarrow> Inl SchemaViolation)"

fun commas :: "pystr list \<Rightarrow> pystr" where
  "commas [] = []"
| "commas [t] = t"
| "commas (t # ts) = t @ 44 # commas ts"

lemma check_item_Inr_iff:
  "check_item kv = Inr kv' \<longleftrightarrow> kv = (PStr (fst kv'), snd kv') \<and> list_all is_scalar (fst kv')"
  by (cases kv; cases kv')
    (auto simp: check_item_def check_text_def utf8_encode_def split: pyval.splits if_splits)

lemma check_items_Inr_iff:
  "rmap check_item kvs = Inr items \<longleftrightarrow>
   kvs = map (\<lambda>(k, v). (PStr k, v)) items \<and> (\<forall>(k, v) \<in> set items. list_all is_scalar k)"
proof (induction kvs arbitrary: items)
  case Nil
  then show ?case by auto
next
  case (Cons kv kvs)
  then show ?case
    by (cases items) (auto simp: rbind_Inr_iff check_item_Inr_iff)
qed

lemma check_items_size:
  assumes "rmap check_item kvs = Inr items" "kv \<in> set items"
  shows "size (snd kv) < Suc (size_list (size_prod size size) kvs)"
proof -
  from assms have "(PStr (fst kv), snd kv) \<in> set kvs"
    by (force simp: check_items_Inr_iff)
  then have "size_prod size size (PStr (fst kv), snd kv) \<le> size_list (size_prod size size) kvs"
    by (intro size_list_estimation') auto
  then show ?thesis by simp
qed

function (sequential) write_value :: "nat \<Rightarrow> pyval \<Rightarrow> protocol_error + pystr" where
  "write_value d v =
     (if MAX_DEPTH < d then Inl SchemaViolation
      else (case v of
         PNone \<Rightarrow> Inr (lit ''null'')
       | PBool b \<Rightarrow> Inr (if b then lit ''true'' else lit ''false'')
       | PInt i \<Rightarrow> if MAX_SAFE_INT < \<bar>i\<bar> then Inl SchemaViolation else Inr (int_str i)
       | PFloat _ \<Rightarrow> Inl SchemaViolation
       | PStr s \<Rightarrow> rbind (check_text s) (\<lambda>s. Inr (json_string s))
       | PList xs \<Rightarrow> rbind (rmap (write_value (d + 1)) xs) (\<lambda>ts. Inr (91 # commas ts @ [93]))
       | PDict kvs \<Rightarrow>
           rbind (rmap check_item kvs) (\<lambda>items.
           rbind (rmap (\<lambda>kv. rbind (write_value (d + 1) (snd kv)) (\<lambda>t. Inr (json_string (fst kv) @ 58 # t)))
                    (sort_key (\<lambda>kv. utf16_key (fst kv)) items)) (\<lambda>ts.
           Inr (123 # commas ts @ [125])))
       | POther \<Rightarrow> Inl SchemaViolation))"
  by pat_completeness auto
termination
proof (relation "measure (\<lambda>(d, v). size v)", goal_cases)
  case (2 d v xs x)
  then show ?case by (simp add: less_Suc_eq_le size_list_estimation')
next
  case (3 d v kvs items kv)
  then show ?case using check_items_size by fastforce
qed auto

declare write_value.simps [simp del]

definition canonicalize :: "pyval \<Rightarrow> protocol_error + bytes" where
  "canonicalize v =
     rbind (write_value 0 v) (\<lambda>t.
       case utf8_encode t of
         None \<Rightarrow> Inl SchemaViolation
       | Some b \<Rightarrow> if MAX_DOCUMENT_BYTES < length b then Inl SchemaViolation else Inr b)"

section \<open>Reading back what the writer wrote\<close>

text \<open>
  \<open>normal v\<close> is \<open>v\<close> with every dictionary in canonical key order: what a parser of the
  canonical form returns.  Python's \<open>==\<close> on dictionaries ignores the order, so \<open>v\<close> and
  \<open>normal v\<close> are equal Python values.
\<close>

definition dict_key :: "pyval \<Rightarrow> bytes" where
  "dict_key k = (case k of PStr s \<Rightarrow> utf16_key s | _ \<Rightarrow> [])"

fun normal :: "pyval \<Rightarrow> pyval" where
  "normal (PList xs) = PList (map normal xs)"
| "normal (PDict kvs) =
     PDict (sort_key (\<lambda>kv. dict_key (fst kv)) (map (\<lambda>kv. (fst kv, normal (snd kv))) kvs))"
| "normal v = v"

definition delim :: "pystr \<Rightarrow> bool" where
  "delim r \<longleftrightarrow> r = [] \<or> hd r \<in> {44, 93, 125}"

definition ok_start :: "pystr \<Rightarrow> bool" where
  "ok_start t \<longleftrightarrow> (\<exists>c u. t = c # u \<and> \<not> is_ws c \<and> c \<noteq> 93 \<and> c \<noteq> 125)"

lemma delim_simps [simp]: "delim []" "delim (44 # r)" "delim (93 # r)" "delim (125 # r)"
  by (simp_all add: delim_def)

lemma skip_ws_simps [simp]:
  "skip_ws (44 # r) = 44 # r" "skip_ws (93 # r) = 93 # r" "skip_ws (125 # r) = 125 # r"
  "skip_ws (58 # r) = 58 # r" "skip_ws (34 # r) = 34 # r" "skip_ws [] = []"
  by (simp_all add: skip_ws_def is_ws_def)

lemma skip_ws_start: "ok_start t \<Longrightarrow> skip_ws (t @ r) = t @ r"
  by (auto simp: ok_start_def skip_ws_def)

lemma write_depth: "write_value d v = Inr t \<Longrightarrow> \<not> MAX_DEPTH < d"
  by (subst (asm) write_value.simps) (simp split: if_splits)

lemma hd_dec_nat_digit: "is_digit (hd (dec_nat n))"
  using dec_nat_digits [of n] by (cases "dec_nat n") auto

lemma write_start:
  assumes "write_value d v = Inr t"
  shows "ok_start t"
proof (cases v)
  case (PInt i)
  have "\<exists>c u. dec_nat n = c # u \<and> is_digit c" for n
    using hd_dec_nat_digit [of n] by (metis dec_nat_not_Nil list.collapse)
  from this [of "nat i"] have "ok_start (int_str i)"
    by (cases "i < 0") (auto simp: int_str_def ok_start_def is_ws_def is_digit_def)
  with assms PInt show ?thesis
    by (subst (asm) write_value.simps) (simp split: if_splits)
qed (use assms in \<open>subst (asm) write_value.simps;
      auto simp: ok_start_def is_ws_def lit_def json_string_def rbind_Inr_iff split: if_splits\<close>)+

text \<open>An integer, read back before a delimiter.\<close>

lemma takeWhile_digits:
  "list_all is_digit ds \<Longrightarrow> delim r \<Longrightarrow> takeWhile is_digit (ds @ r) = ds"
  by (induction ds) (cases r; auto simp: delim_def is_digit_def)+

lemma delim_no_float: "delim r \<Longrightarrow> frac_part r = [] \<and> exp_part r = []"
  by (cases r) (auto simp: delim_def frac_part_def exp_part_def)

lemma dec_nat_zero: "hd (dec_nat n) = 48 \<Longrightarrow> dec_nat n = [48]"
  by (simp add: hd_dec_nat)

lemma parse_number_digits:
  assumes "delim r" and len: "length (dec_nat n) \<le> 4300"
  shows "parse_number fl (dec_nat n @ r) = Some (PInt (int n), r)"
    and "parse_number fl (45 # dec_nat n @ r) = Some (PInt (- int n), r)"
proof -
  have d: "is_digit (hd (dec_nat n))" by (rule hd_dec_nat_digit)
  have ip: "int_part (dec_nat n @ r) = dec_nat n"
    using assms(1) dec_nat_zero [of n] by (simp add: int_part_def takeWhile_digits dec_nat_digits)
  have fe: "frac_part r = []" "exp_part r = []" using delim_no_float [OF assms(1)] by simp_all
  have sg: "hd (dec_nat n) \<noteq> 45" using d by (auto simp: is_digit_def)
  show "parse_number fl (dec_nat n @ r) = Some (PInt (int n), r)"
    unfolding parse_number_def Let_def using len ip fe sg by simp
  show "parse_number fl (45 # dec_nat n @ r) = Some (PInt (- int n), r)"
    unfolding parse_number_def Let_def using len ip fe by simp
qed

lemma parse_value_dispatch:
  assumes "t \<noteq> []" "is_digit (hd t) \<or> (hd t = 45 \<and> tl t \<noteq> [] \<and> is_digit (hd (tl t)))"
  shows "parse_value fl (Suc n) t = parse_number fl t"
proof -
  from assms obtain c u where t: "t = c # u" by (cases t) auto
  have "c \<notin> {34, 123, 91, 110, 116, 102, 78, 73}" "c = 45 \<longrightarrow> u \<noteq> [] \<and> hd u \<noteq> 73"
    using assms t by (auto simp: is_digit_def)
  with t show ?thesis by (cases u) (auto simp: lit_def)
qed

lemma parse_int_str:
  assumes "delim r" "\<not> MAX_SAFE_INT < \<bar>i\<bar>"
  shows "parse_value fl (Suc n) (int_str i @ r) = Some (PInt i, r)"
proof -
  have "nat \<bar>i\<bar> < 10 ^ 16" using assms(2) by (simp add: MAX_SAFE_INT_def nat_less_iff)
  then have "length (dec_nat (nat \<bar>i\<bar>)) \<le> 16" by (rule length_dec_nat) simp
  then have len: "length (dec_nat (nat \<bar>i\<bar>)) \<le> 4300" by simp
  have d: "is_digit (hd (dec_nat (nat \<bar>i\<bar>)))" by (rule hd_dec_nat_digit)
  show ?thesis
  proof (cases "i < 0")
    case True
    with parse_number_digits(2) [OF assms(1) len, of fl] d show ?thesis
      by (simp add: int_str_def parse_value_dispatch del: parse_value.simps)
  next
    case False
    with parse_number_digits(1) [OF assms(1) len, of fl] d show ?thesis
      by (simp add: int_str_def parse_value_dispatch del: parse_value.simps)
  qed
qed

definition reads :: "(pystr \<Rightarrow> 64 word) \<Rightarrow> pystr \<Rightarrow> pyval \<Rightarrow> bool" where
  "reads fl t v \<longleftrightarrow>
     ok_start t \<and>
     (\<forall>r n. delim r \<longrightarrow> 2 * length t + 1 \<le> n \<longrightarrow> parse_value fl n (t @ r) = Some (v, r))"

lemma readsD:
  "reads fl t v \<Longrightarrow> delim r \<Longrightarrow> 2 * length t + 1 \<le> n \<Longrightarrow> parse_value fl n (t @ r) = Some (v, r)"
  by (simp add: reads_def)

lemma reads_ws: "reads fl t v \<Longrightarrow> skip_ws (t @ r) = t @ r"
  by (simp add: reads_def skip_ws_start)

lemma parse_elements_commas:
  assumes "list_all2 (reads fl) ts vs" "ts \<noteq> []" "2 * length (commas ts) + 2 \<le> n"
  shows "parse_elements fl n (commas ts @ 93 # r) = Some (vs, r)"
  using assms
proof (induction ts arbitrary: vs n rule: commas.induct)
  case 1
  then show ?case by simp
next
  case (2 t)
  then obtain v m where vs: "vs = [v]" "reads fl t v" and n: "n = Suc m" "2 * length t + 1 \<le> m"
    by (cases n) (auto simp: list_all2_Cons1)
  then show ?case using readsD [OF vs(2), of "93 # r" m] by simp
next
  case (3 t t' ts)
  from "3.prems" obtain v ws m where vs: "vs = v # ws" "reads fl t v" "list_all2 (reads fl) (t' # ts) ws"
    and n: "n = Suc m" "2 * length t + 1 \<le> m" "2 * length (commas (t' # ts)) + 2 \<le> m"
    by (cases n) (auto simp: list_all2_Cons1)
  obtain v' ws' where "ws = v' # ws'" "reads fl t' v'" using vs(3) by (auto simp: list_all2_Cons1)
  then have ws: "skip_ws (commas (t' # ts) @ 93 # r) = commas (t' # ts) @ 93 # r"
    by (cases ts) (simp_all add: reads_ws)
  have "parse_value fl m (t @ 44 # commas (t' # ts) @ 93 # r) = Some (v, 44 # commas (t' # ts) @ 93 # r)"
    by (rule readsD [OF vs(2)]) (use n in simp_all)
  with "3.IH" [OF vs(3) _ n(3)] ws vs(1) n(1) show ?case by simp
qed

definition reads_member :: "(pystr \<Rightarrow> 64 word) \<Rightarrow> pystr \<Rightarrow> pystr \<times> pyval \<Rightarrow> bool" where
  "reads_member fl t kv \<longleftrightarrow> (\<exists>u. t = json_string (fst kv) @ 58 # u \<and> reads fl u (snd kv))"

lemma parse_member:
  assumes "reads_member fl t (k, v)" "delim (d # r)" "2 * length t + 1 \<le> Suc n"
  shows "parse_members fl (Suc n) (t @ d # r) =
     (if d = 125 then Some ([(k, v)], r)
      else if d = 44 then map_option (map_prod ((#) (k, v)) id) (parse_members fl n (skip_ws r))
      else None)"
proof -
  from assms(1) obtain u where t: "t = json_string k @ 58 # u" and u: "reads fl u v"
    by (auto simp: reads_member_def)
  have "parse_value fl n (u @ d # r) = Some (v, d # r)"
    by (rule readsD [OF u assms(2)]) (use assms(3) t in \<open>simp add: json_string_def\<close>)
  moreover have "skip_ws (d # r) = d # r" using assms(2) by (auto simp: delim_def)
  moreover have "scan_string (concat (map json_escape k) @ 34 # 58 # u @ d # r) = Some (k, 58 # u @ d # r)"
    by (rule scan_string_escapes)
  ultimately show ?thesis
    using u by (simp add: t json_string_def reads_ws)
qed

lemma parse_members_commas:
  assumes "list_all2 (reads_member fl) ts kvs" "ts \<noteq> []" "2 * length (commas ts) + 2 \<le> n"
  shows "parse_members fl n (commas ts @ 125 # r) = Some (kvs, r)"
  using assms
proof (induction ts arbitrary: kvs n rule: commas.induct)
  case 1
  then show ?case by simp
next
  case (2 t)
  then obtain kv m where "kvs = [kv]" "reads_member fl t kv" "n = Suc m" "2 * length t + 1 \<le> Suc m"
    by (cases n) (auto simp: list_all2_Cons1)
  then show ?case using parse_member [of fl t "fst kv" "snd kv" 125 r m] by simp
next
  case (3 t t' ts)
  from "3.prems" obtain kv ws m where vs: "kvs = kv # ws" "reads_member fl t kv"
      "list_all2 (reads_member fl) (t' # ts) ws"
    and n: "n = Suc m" "2 * length t + 1 \<le> m" "2 * length (commas (t' # ts)) + 2 \<le> m"
    by (cases n) (auto simp: list_all2_Cons1)
  obtain v' ws' where "ws = v' # ws'" "reads_member fl t' v'" using vs(3) by (auto simp: list_all2_Cons1)
  then have ws: "skip_ws (commas (t' # ts) @ 125 # r) = commas (t' # ts) @ 125 # r"
    by (cases ts) (auto simp: reads_member_def json_string_def)
  show ?case
    using "3.IH" [OF vs(3) _ n(3)] ws vs(1,2) n(1,2)
      parse_member [of fl t "fst kv" "snd kv" 44 "commas (t' # ts) @ 125 # r" m] by simp
qed

lemma int_str_start: "ok_start (int_str i)"
proof -
  have "\<exists>c u. dec_nat n = c # u \<and> is_digit c" for n
    using hd_dec_nat_digit [of n] by (metis dec_nat_not_Nil list.collapse)
  from this [of "nat i"] show ?thesis
    by (cases "i < 0") (auto simp: int_str_def ok_start_def is_ws_def is_digit_def)
qed

lemma reads_int: "\<not> MAX_SAFE_INT < \<bar>i\<bar> \<Longrightarrow> reads fl (int_str i) (PInt i)"
  unfolding reads_def
proof (intro conjI allI impI)
  fix r n assume "\<not> MAX_SAFE_INT < \<bar>i\<bar>" "delim r" "2 * length (int_str i) + 1 \<le> n"
  then show "parse_value fl n (int_str i @ r) = Some (PInt i, r)"
    by (cases n) (simp_all add: parse_int_str del: parse_value.simps(2))
qed (rule int_str_start)

lemma reads_str: "reads fl (json_string s) (PStr s)"
  unfolding reads_def
proof (intro conjI allI impI)
  fix r n assume "delim r" "2 * length (json_string s) + 1 \<le> n"
  then show "parse_value fl n (json_string s @ r) = Some (PStr s, r)"
    by (cases n) (simp_all add: json_string_def scan_string_escapes)
qed (simp add: ok_start_def json_string_def is_ws_def)

lemma reads_const:
  "reads fl (lit ''null'') PNone" "reads fl (lit ''true'') (PBool True)"
  "reads fl (lit ''false'') (PBool False)"
proof -
  have "parse_value fl n (lit ''null'' @ r) = Some (PNone, r)"
    "parse_value fl n (lit ''true'' @ r) = Some (PBool True, r)"
    "parse_value fl n (lit ''false'' @ r) = Some (PBool False, r)" if "1 \<le> n" for n r
    using that by (cases n; simp add: lit_def)+
  then show "reads fl (lit ''null'') PNone" "reads fl (lit ''true'') (PBool True)"
    "reads fl (lit ''false'') (PBool False)"
    by (simp_all add: reads_def, simp_all add: ok_start_def lit_def is_ws_def)
qed

lemma reads_list:
  assumes "list_all2 (reads fl) ts vs"
  shows "reads fl (91 # commas ts @ [93]) (PList vs)"
  unfolding reads_def
proof (intro conjI allI impI)
  fix r n assume r: "delim r" and n: "2 * length (91 # commas ts @ [93]) + 1 \<le> n"
  then obtain m where m: "n = Suc m" "2 * length (commas ts) + 2 \<le> m" by (cases n) auto
  show "parse_value fl n ((91 # commas ts @ [93]) @ r) = Some (PList vs, r)"
  proof (cases ts)
    case Nil
    with assms m show ?thesis by simp
  next
    case (Cons t ts')
    with assms have ok: "ok_start t" by (auto simp: list_all2_Cons1 reads_def)
    have start: "\<exists>u. commas ts = t @ u" using Cons by (cases ts') auto
    have ws: "skip_ws (commas ts @ 93 # r) = commas ts @ 93 # r" "hd (commas ts @ 93 # r) \<noteq> 93"
      using start ok by (auto simp: skip_ws_start) (auto simp: ok_start_def)
    with parse_elements_commas [OF assms _ m(2), of r] m(1) Cons show ?thesis by simp
  qed
qed (simp add: ok_start_def is_ws_def)

lemma AList_update_new: "k \<notin> fst ` set d \<Longrightarrow> AList.update k v d = d @ [(k, v)]"
  by (induction d) auto

lemma dict_of_pairs_distinct:
  assumes "distinct (map fst kvs)"
  shows "dict_of_pairs kvs = map (\<lambda>(k, v). (PStr k, v)) kvs"
proof -
  have "fold (\<lambda>(k, v). AList.update (PStr k) v) kvs d = d @ map (\<lambda>(k, v). (PStr k, v)) kvs"
    if "distinct (map fst kvs)" "\<forall>k \<in> fst ` set kvs. PStr k \<notin> fst ` set d" for d
    using that
  proof (induction kvs arbitrary: d)
    case Nil
    then show ?case by simp
  next
    case (Cons kv kvs)
    obtain k v where kv: "kv = (k, v)" by force
    with Cons.prems have "PStr k \<notin> fst ` set d"
      and rest: "distinct (map fst kvs)" "\<forall>k' \<in> fst ` set kvs. PStr k' \<notin> fst ` set (d @ [(PStr k, v)])"
      by auto
    with kv Cons.IH [OF rest] show ?case by (simp add: AList_update_new)
  qed
  from this [of "[]"] assms show ?thesis by (simp add: dict_of_pairs_def)
qed

lemma reads_dict:
  assumes "list_all2 (reads_member fl) ts kvs" "distinct (map fst kvs)"
  shows "reads fl (123 # commas ts @ [125]) (PDict (map (\<lambda>(k, v). (PStr k, v)) kvs))"
  unfolding reads_def
proof (intro conjI allI impI)
  fix r n assume r: "delim r" and n: "2 * length (123 # commas ts @ [125]) + 1 \<le> n"
  then obtain m where m: "n = Suc m" "2 * length (commas ts) + 2 \<le> m" by (cases n) auto
  show "parse_value fl n ((123 # commas ts @ [125]) @ r) =
    Some (PDict (map (\<lambda>(k, v). (PStr k, v)) kvs), r)"
  proof (cases ts)
    case Nil
    with assms m show ?thesis by simp
  next
    case (Cons t ts')
    with assms obtain u where t: "t = 34 # u"
      by (auto simp: list_all2_Cons1 reads_member_def json_string_def)
    have ws: "skip_ws (commas ts @ 125 # r) = commas ts @ 125 # r" "hd (commas ts @ 125 # r) \<noteq> 125"
      using Cons t by (cases ts'; simp)+
    with parse_members_commas [OF assms(1) _ m(2), of r] m(1) Cons show ?thesis
      by (simp add: dict_of_pairs_distinct [OF assms(2)])
  qed
qed (simp add: ok_start_def is_ws_def)

lemma normal_items:
  "normal (PDict (map (\<lambda>(k, v). (PStr k, v)) items)) =
   PDict (map (\<lambda>(k, v). (PStr k, normal v)) (sort_key (\<lambda>kv. utf16_key (fst kv)) items))"
proof -
  have "sort_key (\<lambda>kv. dict_key (fst kv)) (map (\<lambda>(k, v). (PStr k, normal v)) items) =
        map (\<lambda>(k, v). (PStr k, normal v)) (sort_key (\<lambda>kv. utf16_key (fst kv)) items)"
    using sort_key_map [of "\<lambda>(k, v). (PStr k, normal v)" "\<lambda>kv. dict_key (fst kv)" items]
    by (simp add: dict_key_def case_prod_unfold)
  then show ?thesis by (simp add: case_prod_unfold comp_def)
qed

text \<open>The parser reads back the written value, in canonical key order.\<close>

theorem reads_write:
  "write_value d v = Inr t \<Longrightarrow> pyval_ok v \<Longrightarrow> reads fl t (normal v)"
proof (induction d v arbitrary: t rule: write_value.induct)
  case (1 d v)
  note dep = write_depth [OF "1.prems"(1)]
  show ?case
  proof (cases v)
    case (PList xs)
    with "1.prems"(1) dep obtain ts where ts: "rmap (write_value (d + 1)) xs = Inr ts"
      and t: "t = 91 # commas ts @ [93]"
      by (subst (asm) write_value.simps) (auto simp: rbind_Inr_iff)
    from ts have "list_all2 (\<lambda>x y. write_value (d + 1) x = Inr y) xs ts" by (simp add: rmap_Inr_iff)
    then have "list_all2 (\<lambda>x y. reads fl y (normal x)) xs ts"
      using "1.IH"(1) [OF dep PList] "1.prems"(2) PList
      by (auto elim!: list.rel_mono_strong)
    then have "list_all2 (reads fl) ts (map normal xs)"
      by (simp add: list_all2_conv_all_nth)
    then show ?thesis using PList t by (simp add: reads_list)
  next
    case (PDict kvs)
    let ?k = "\<lambda>kv. utf16_key (fst kv)"
    from PDict "1.prems"(1) dep obtain items ts where items: "rmap check_item kvs = Inr items"
      and ts: "rmap (\<lambda>kv. rbind (write_value (d + 1) (snd kv)) (\<lambda>t. Inr (json_string (fst kv) @ 58 # t)))
          (sort_key ?k items) = Inr ts"
      and t: "t = 123 # commas ts @ [125]"
      by (subst (asm) write_value.simps) (auto simp: rbind_Inr_iff)
    have kvs: "kvs = map (\<lambda>(k, v). (PStr k, v)) items" using items by (simp add: check_items_Inr_iff)
    have ok: "\<forall>kv \<in> set items. pyval_ok (snd kv)"
      using "1.prems"(2) PDict kvs by (auto simp: case_prod_unfold)
    have "distinct (map (\<lambda>kv. PStr (fst kv)) items)"
      using "1.prems"(2) PDict kvs by (simp add: dict_ok_def comp_def case_prod_unfold)
    then have dist: "distinct (map fst items)"
      by (simp add: distinct_map inj_on_def)
    let ?norm = "\<lambda>kv. (fst kv, normal (snd kv))"
    have "list_all2 (\<lambda>kv t. reads_member fl t (?norm kv)) (sort_key ?k items) ts"
      using ts [unfolded rmap_Inr_iff]
    proof (rule list.rel_mono_strong)
      fix kv t' assume kv: "kv \<in> set (sort_key ?k items)"
        and w: "rbind (write_value (d + 1) (snd kv)) (\<lambda>t. Inr (json_string (fst kv) @ 58 # t)) = Inr t'"
      then obtain u where u: "write_value (d + 1) (snd kv) = Inr u" "t' = json_string (fst kv) @ 58 # u"
        by (auto simp: rbind_Inr_iff)
      have "reads fl u (normal (snd kv))"
        using "1.IH"(2) [OF dep PDict items kv u(1)] ok kv by simp
      with u(2) show "reads_member fl t' (?norm kv)" by (auto simp: reads_member_def)
    qed
    then have "list_all2 (reads_member fl) ts (map ?norm (sort_key ?k items))"
      by (simp add: list_all2_conv_all_nth)
    moreover have "distinct (map fst (map ?norm (sort_key ?k items)))"
    proof -
      have "distinct (map fst (sort_key ?k items))" using dist
        by (simp add: distinct_map)
      then show ?thesis by (simp add: comp_def)
    qed
    ultimately have "reads fl t (PDict (map (\<lambda>(k, v). (PStr k, v)) (map ?norm (sort_key ?k items))))"
      unfolding t by (rule reads_dict)
    then show ?thesis unfolding PDict kvs normal_items by (simp add: case_prod_unfold comp_def)
  qed (use "1.prems"(1) dep in \<open>subst (asm) write_value.simps; auto simp: rbind_Inr_iff check_text_def
      reads_const reads_int reads_str split: if_splits option.splits\<close>)+
qed

text \<open>Reordering the keys does not change the bytes.\<close>

lemma write_normal:
  "write_value d v = Inr t \<Longrightarrow> write_value d (normal v) = Inr t"
proof (induction d v arbitrary: t rule: write_value.induct)
  case (1 d v)
  note dep = write_depth [OF "1.prems"]
  show ?case
  proof (cases v)
    case (PList xs)
    with "1.prems" dep obtain ts where ts: "rmap (write_value (d + 1)) xs = Inr ts"
      and t: "t = 91 # commas ts @ [93]"
      by (subst (asm) write_value.simps) (auto simp: rbind_Inr_iff)
    from ts have "list_all2 (\<lambda>x y. write_value (d + 1) x = Inr y) xs ts" by (simp add: rmap_Inr_iff)
    then have "list_all2 (\<lambda>x y. write_value (d + 1) (normal x) = Inr y) xs ts"
      using "1.IH"(1) [OF dep PList] by (auto elim!: list.rel_mono_strong)
    then have "rmap (\<lambda>x. write_value (d + 1) (normal x)) xs = Inr ts" by (simp add: rmap_Inr_iff)
    with PList t dep show ?thesis by (subst write_value.simps) (simp add: rmap_map)
  next
    case (PDict kvs)
    let ?k = "\<lambda>kv. utf16_key (fst kv)"
    let ?w = "\<lambda>kv. rbind (write_value (d + 1) (snd kv)) (\<lambda>t. Inr (json_string (fst kv) @ 58 # t))"
    let ?n = "\<lambda>kv. (fst kv, normal (snd kv))"
    from PDict "1.prems" dep obtain items ts where items: "rmap check_item kvs = Inr items"
      and ts: "rmap ?w (sort_key ?k items) = Inr ts" and t: "t = 123 # commas ts @ [125]"
      by (subst (asm) write_value.simps) (auto simp: rbind_Inr_iff)
    have kvs: "kvs = map (\<lambda>(k, v). (PStr k, v)) items" "\<forall>(k, v) \<in> set items. list_all is_scalar k"
      using items by (simp_all add: check_items_Inr_iff)
    let ?items = "map ?n (sort_key ?k items)"
    have norm: "normal v = PDict (map (\<lambda>(k, v). (PStr k, v)) ?items)"
      unfolding PDict kvs(1) normal_items by (simp add: case_prod_unfold comp_def)
    have chk: "rmap check_item (map (\<lambda>(k, v). (PStr k, v)) ?items) = Inr ?items"
      using kvs(2) by (fastforce simp: check_items_Inr_iff)
    have srt: "sort_key ?k ?items = ?items" by (rule sort_key_id) (simp add: comp_def)
    have "list_all2 (\<lambda>kv t'. ?w kv = Inr t') (sort_key ?k items) ts" using ts by (simp add: rmap_Inr_iff)
    then have "list_all2 (\<lambda>kv t'. ?w (?n kv) = Inr t') (sort_key ?k items) ts"
      using "1.IH"(2) [OF dep PDict items]
      by (auto elim!: list.rel_mono_strong simp: rbind_Inr_iff)
    then have "rmap ?w ?items = Inr ts" by (simp add: rmap_map rmap_Inr_iff)
    with chk srt t dep show ?thesis unfolding norm by (subst write_value.simps) simp
  qed (use "1.prems" in simp_all)
qed

lemma canonicalize_normal: "canonicalize v = Inr b \<Longrightarrow> canonicalize (normal v) = Inr b"
  by (auto simp: canonicalize_def rbind_Inr_iff dest: write_normal)

lemma canonicalize_Inr_iff:
  "canonicalize v = Inr b \<longleftrightarrow>
   (\<exists>t. write_value 0 v = Inr t \<and> utf8_encode t = Some b \<and> length b \<le> MAX_DOCUMENT_BYTES)"
  by (auto simp: canonicalize_def rbind_Inr_iff split: option.splits if_splits)

text \<open>The bytes determine the value, so one value cannot be told apart from another by order
  alone and two different values never share a spelling.\<close>

lemma json_loads_canonicalize:
  assumes "canonicalize v = Inr b" "pyval_ok v"
  shows "\<exists>t. utf8_decode b = Some t \<and> json_loads fl t = Some (normal v)"
proof -
  from assms(1) obtain t where w: "write_value 0 v = Inr t" and t: "utf8_encode t = Some b"
    by (auto simp: canonicalize_Inr_iff)
  have r: "reads fl t (normal v)" using w assms(2) by (rule reads_write)
  then obtain c u where c: "t = c # u" "\<not> is_ws c" by (auto simp: reads_def ok_start_def)
  have "c \<noteq> 0xFEFF"
  proof
    assume "c = 0xFEFF"
    with r c have "parse_value fl (Suc (2 * length t)) (c # u) = Some (normal v, [])"
      using readsD [OF r, of "[]" "2 * length t + 1"] by simp
    with \<open>c = 0xFEFF\<close> show False
      by (simp add: lit_def parse_number_def int_part_def is_digit_def)
  qed
  moreover have "parse_value fl (2 * length t + 1) t = Some (normal v, [])"
    using readsD [OF r, of "[]" "2 * length t + 1"] by simp
  moreover have "skip_ws t = t" using reads_ws [OF r, of "[]"] by simp
  ultimately have "json_loads fl t = Some (normal v)" using c by (simp add: json_loads_def)
  with utf8_decode_encode [OF t] show ?thesis by blast
qed

lemma canonicalize_inj:
  assumes "canonicalize v = Inr b" "canonicalize w = Inr b" "pyval_ok v" "pyval_ok w"
  shows "normal v = normal w"
  using json_loads_canonicalize [OF assms(1,3), of undefined]
    json_loads_canonicalize [OF assms(2,4), of undefined] by auto

end
