(* ===== verification/EventCodec.thy ===== *)
theory EventCodec
  imports Canonical
begin

text \<open>
  The event codec of \<open>canonical.py\<close>: strict validation, the wire mapping, the signing bytes
  and the strict decoder.  Field types the source checks with \<open>isinstance\<close> are checked where
  an untyped value enters (\<open>decode\<close>); inside a typed \<open>event\<close> only the value checks remain.
\<close>

section \<open>Encoding\<close>

definition key :: "string \<Rightarrow> pyval" where
  "key s = PStr (lit s)"

lemma key_eq_iff [simp]: "key s = key t \<longleftrightarrow> s = t"
  by (simp add: key_def)

definition pdict :: "payload \<Rightarrow> pyval" where
  "pdict d = PDict (map (\<lambda>(k, v). (PStr k, v)) d)"

definition validate_event :: "event \<Rightarrow> protocol_error + unit" where
  "validate_event e =
     (if event_id e = [] \<or> collection e = [] \<or> entity_id e = [] \<or> actor_id e = [] then Inl SchemaViolation
      else if op e \<notin> set OPS then Inl SchemaViolation
      else if policy_ref e = Some [] then Inl SchemaViolation
      else if (case sig e of None \<Rightarrow> False | Some s \<Rightarrow> \<not> is_sig_hex s) then Inl SchemaViolation
      else Inr ())"

definition event_mapping :: "event \<Rightarrow> bool \<Rightarrow> protocol_error + (pyval \<times> pyval) list" where
  "event_mapping e include_sig =
     rbind (validate_event e) (\<lambda>_. Inr (
       [(key ''event_id'', PStr (event_id e)),
        (key ''collection'', PStr (collection e)),
        (key ''entity_id'', PStr (entity_id e)),
        (key ''actor_id'', PStr (actor_id e)),
        (key ''actor_seq'', PInt (actor_seq e)),
        (key ''op'', PStr (op e)),
        (key ''payload'', pdict (payload e))]
       @ (case base_rev e of None \<Rightarrow> [] | Some r \<Rightarrow> [(key ''base_rev'', PInt r)])
       @ (case policy_ref e of None \<Rightarrow> [] | Some p \<Rightarrow> [(key ''policy_ref'', PStr p)])
       @ (case sig e of None \<Rightarrow> [] | Some s \<Rightarrow> if include_sig then [(key ''sig'', PStr s)] else [])))"

definition encode_canonical :: "event \<Rightarrow> protocol_error + bytes" where
  "encode_canonical e = rbind (event_mapping e True) (\<lambda>m. canonicalize (PDict m))"

definition signing_bytes :: "event \<Rightarrow> protocol_error + bytes" where
  "signing_bytes e =
     rbind (event_mapping e False) (\<lambda>m. rbind (canonicalize (PDict m)) (\<lambda>b. Inr (EVENT_SIGNING_DOMAIN @ b)))"

section \<open>Decoding\<close>

definition parse_canonical_document ::
    "(pystr \<Rightarrow> 64 word) \<Rightarrow> bytes \<Rightarrow> protocol_error + (pyval \<times> pyval) list" where
  "parse_canonical_document fl data =
     (if MAX_DOCUMENT_BYTES < length data then Inl SchemaViolation
      else (case utf8_decode data of
              None \<Rightarrow> Inl SchemaViolation
            | Some t \<Rightarrow>
                (case json_loads fl t of
                   Some (PDict kvs) \<Rightarrow> Inr kvs
                 | _ \<Rightarrow> Inl SchemaViolation)))"

text \<open>The typed reads of a raw document: a required string, integer or object, and the
  optional \<open>raw.get(name)\<close>, whose \<open>null\<close> is the absent value.\<close>

definition get_str :: "(pyval \<times> pyval) list \<Rightarrow> string \<Rightarrow> protocol_error + pystr" where
  "get_str raw k = (case dget raw (key k) of Some (PStr s) \<Rightarrow> Inr s | _ \<Rightarrow> Inl SchemaViolation)"

definition get_int :: "(pyval \<times> pyval) list \<Rightarrow> string \<Rightarrow> protocol_error + int" where
  "get_int raw k = (case dget raw (key k) of Some (PInt i) \<Rightarrow> Inr i | _ \<Rightarrow> Inl SchemaViolation)"

definition get_dict :: "(pyval \<times> pyval) list \<Rightarrow> string \<Rightarrow> protocol_error + payload" where
  "get_dict raw k =
     (case dget raw (key k) of
        Some (PDict kvs) \<Rightarrow>
          rmap (\<lambda>kv. case fst kv of PStr s \<Rightarrow> Inr (s, snd kv) | _ \<Rightarrow> Inl SchemaViolation) kvs
      | _ \<Rightarrow> Inl SchemaViolation)"

definition opt_str :: "(pyval \<times> pyval) list \<Rightarrow> string \<Rightarrow> protocol_error + pystr option" where
  "opt_str raw k =
     (case dget raw (key k) of
        None \<Rightarrow> Inr None | Some PNone \<Rightarrow> Inr None
      | Some (PStr s) \<Rightarrow> Inr (Some s) | _ \<Rightarrow> Inl SchemaViolation)"

definition opt_int :: "(pyval \<times> pyval) list \<Rightarrow> string \<Rightarrow> protocol_error + int option" where
  "opt_int raw k =
     (case dget raw (key k) of
        None \<Rightarrow> Inr None | Some PNone \<Rightarrow> Inr None
      | Some (PInt i) \<Rightarrow> Inr (Some i) | _ \<Rightarrow> Inl SchemaViolation)"

definition EVENT_FIELDS :: "pyval list" where
  "EVENT_FIELDS = [key ''event_id'', key ''collection'', key ''entity_id'', key ''actor_id'',
     key ''actor_seq'', key ''op'', key ''base_rev'', key ''policy_ref'', key ''payload'', key ''sig'']"

definition decode :: "(pystr \<Rightarrow> 64 word) \<Rightarrow> bytes \<Rightarrow> protocol_error + event" where
  "decode fl data =
     rbind (parse_canonical_document fl data) (\<lambda>raw.
     if \<not> set (dkeys raw) \<subseteq> set EVENT_FIELDS then Inl SchemaViolation else
     rbind (get_str raw ''event_id'') (\<lambda>eid.
     rbind (get_str raw ''collection'') (\<lambda>col.
     rbind (get_str raw ''entity_id'') (\<lambda>ent.
     rbind (get_str raw ''actor_id'') (\<lambda>act.
     rbind (get_int raw ''actor_seq'') (\<lambda>aseq.
     rbind (get_str raw ''op'') (\<lambda>opn.
     rbind (get_dict raw ''payload'') (\<lambda>pl.
     rbind (opt_int raw ''base_rev'') (\<lambda>br.
     rbind (opt_str raw ''policy_ref'') (\<lambda>pr.
     rbind (opt_str raw ''sig'') (\<lambda>sg.
     let e = \<lparr>event_id = eid, collection = col, entity_id = ent, actor_id = act, actor_seq = aseq,
              op = opn, base_rev = br, policy_ref = pr, payload = pl, sig = sg\<rparr>
     in rbind (encode_canonical e) (\<lambda>b.
        if b \<noteq> data then Inl SchemaViolation else Inr e))))))))))))"

section \<open>Round trip\<close>

definition normal_payload :: "payload \<Rightarrow> payload" where
  "normal_payload d =
     map (\<lambda>(k, v). (k, normal v)) (sort_key (\<lambda>kv. utf16_key (fst kv)) d)"

definition payload_ok :: "payload \<Rightarrow> bool" where
  "payload_ok d \<longleftrightarrow> dict_ok d \<and> (\<forall>kv \<in> set d. pyval_ok (snd kv))"

lemma normal_pdict: "normal (pdict d) = pdict (normal_payload d)"
  by (simp only: pdict_def normal_items normal_payload_def) (simp add: case_prod_unfold comp_def)

lemma pyval_ok_pdict: "pyval_ok (pdict d) \<longleftrightarrow> payload_ok d"
proof -
  have "distinct (map (\<lambda>kv. PStr (fst kv)) d) \<longleftrightarrow> distinct (map fst d)"
    by (auto simp: distinct_map inj_on_def)
  then show ?thesis
    by (simp add: pdict_def payload_ok_def dict_ok_def case_prod_unfold comp_def)
qed

lemma map_of_sort_key: "distinct (map fst xs) \<Longrightarrow> map_of (sort_key f xs) = map_of xs"
  by (subst map_of_inject_set) (simp_all add: distinct_map)

lemma map_of_normal:
  assumes "distinct (map fst m)" "normal (PDict m) = PDict raw"
  shows "map_of raw k = map_option normal (map_of m k)"
proof -
  have raw: "raw = sort_key (\<lambda>kv. dict_key (fst kv)) (map (\<lambda>kv. (fst kv, normal (snd kv))) m)"
    using assms(2) by simp
  have "map_of raw = map_of (map (\<lambda>kv. (fst kv, normal (snd kv))) m)"
    unfolding raw by (rule map_of_sort_key) (simp add: assms(1) comp_def)
  moreover have "map_of (map (\<lambda>kv. (fst kv, normal (snd kv))) m) k = map_option normal (map_of m k)"
    by (induction m) auto
  ultimately show ?thesis by simp
qed

text \<open>Normalising some of the values of a dictionary leaves what is written unchanged.\<close>

lemma write_dict_cong:
  assumes "write_value d (PDict kvs) = Inr t"
    and f: "\<And>kv. kv \<in> set kvs \<Longrightarrow> f kv = snd kv \<or> f kv = normal (snd kv)"
  shows "write_value d (PDict (map (\<lambda>kv. (fst kv, f kv)) kvs)) = Inr t"
proof -
  let ?k = "\<lambda>kv. utf16_key (fst kv)"
  let ?w = "\<lambda>kv. rbind (write_value (d + 1) (snd kv)) (\<lambda>t. Inr (json_string (fst kv) @ 58 # t))"
  let ?f = "\<lambda>kv. (fst kv, f (PStr (fst kv), snd kv))"
  note dep = write_depth [OF assms(1)]
  from assms(1) dep obtain items ts where items: "rmap check_item kvs = Inr items"
    and ts: "rmap ?w (sort_key ?k items) = Inr ts" and t: "t = 123 # commas ts @ [125]"
    by (subst (asm) write_value.simps) (auto simp: rbind_Inr_iff)
  have kvs: "kvs = map (\<lambda>(k, v). (PStr k, v)) items" "\<forall>(k, v) \<in> set items. list_all is_scalar k"
    using items by (simp_all add: check_items_Inr_iff)
  have chk: "rmap check_item (map (\<lambda>kv. (fst kv, f kv)) kvs) = Inr (map ?f items)"
    using kvs by (fastforce simp: check_items_Inr_iff)
  have srt: "sort_key ?k (map ?f items) = map ?f (sort_key ?k items)"
    using sort_key_map [of ?f ?k items] by simp
  have "list_all2 (\<lambda>kv t'. ?w kv = Inr t') (sort_key ?k items) ts" using ts by (simp add: rmap_Inr_iff)
  then have "list_all2 (\<lambda>kv t'. ?w (?f kv) = Inr t') (sort_key ?k items) ts"
  proof (rule list.rel_mono_strong)
    fix kv t' assume kv: "kv \<in> set (sort_key ?k items)" and w: "?w kv = Inr t'"
    have "(PStr (fst kv), snd kv) \<in> set kvs" using kv kvs(1) by force
    then show "?w (?f kv) = Inr t'" using f [of "(PStr (fst kv), snd kv)"] w
      by (auto simp: rbind_Inr_iff dest: write_normal)
  qed
  then have "rmap ?w (map ?f (sort_key ?k items)) = Inr ts" by (simp add: rmap_map rmap_Inr_iff)
  with chk srt t dep show ?thesis by (subst write_value.simps) simp
qed

lemma canonicalize_dict_cong:
  assumes "canonicalize (PDict kvs) = Inr b"
    and "\<And>kv. kv \<in> set kvs \<Longrightarrow> f kv = snd kv \<or> f kv = normal (snd kv)"
  shows "canonicalize (PDict (map (\<lambda>kv. (fst kv, f kv)) kvs)) = Inr b"
  using assms write_dict_cong [of 0 kvs _ f] by (fastforce simp: canonicalize_Inr_iff)

lemma get_dict_pdict: "dget raw (key k) = Some (pdict d) \<Longrightarrow> get_dict raw k = Inr d"
  by (simp add: get_dict_def pdict_def rmap_map rmap_Inr_iff list_all2_same case_prod_unfold)

definition normal_event :: "event \<Rightarrow> event" where
  "normal_event e = e\<lparr>payload := normal_payload (payload e)\<rparr>"

text \<open>The mapping of a valid event, written out.\<close>

lemma event_mapping_explicit:
  "event_mapping e sg = Inr m \<Longrightarrow>
     m = [(key ''event_id'', PStr (event_id e)), (key ''collection'', PStr (collection e)),
        (key ''entity_id'', PStr (entity_id e)), (key ''actor_id'', PStr (actor_id e)),
        (key ''actor_seq'', PInt (actor_seq e)), (key ''op'', PStr (op e)),
        (key ''payload'', pdict (payload e))]
       @ (case base_rev e of None \<Rightarrow> [] | Some r \<Rightarrow> [(key ''base_rev'', PInt r)])
       @ (case policy_ref e of None \<Rightarrow> [] | Some p \<Rightarrow> [(key ''policy_ref'', PStr p)])
       @ (case sig e of None \<Rightarrow> [] | Some s \<Rightarrow> if sg then [(key ''sig'', PStr s)] else [])"
  by (auto simp: event_mapping_def rbind_Inr_iff)

lemma pdict_inj: "pdict d = pdict d' \<Longrightarrow> d = d'"
proof (induction d arbitrary: d')
  case Nil
  then show ?case by (simp add: pdict_def)
next
  case (Cons kv d)
  then show ?case by (cases d'; cases kv) (auto simp: pdict_def)
qed

lemma event_mapping_distinct: "event_mapping e sg = Inr m \<Longrightarrow> distinct (map fst m)"
  by (auto simp: event_mapping_def rbind_Inr_iff split: option.splits)

lemma event_mapping_ok:
  "event_mapping e sg = Inr m \<Longrightarrow> payload_ok (payload e) \<Longrightarrow> pyval_ok (PDict m)"
  by (auto simp: event_mapping_def rbind_Inr_iff dict_ok_def pyval_ok_pdict split: option.splits)

lemma event_mapping_normal_event:
  assumes "event_mapping e sg = Inr m"
  shows "event_mapping (normal_event e) sg =
    Inr (map (\<lambda>kv. (fst kv, if fst kv = key ''payload'' then normal (snd kv) else snd kv)) m)"
  using assms
  by (auto simp: event_mapping_def rbind_Inr_iff validate_event_def normal_event_def normal_pdict
      split: option.splits if_splits)

text \<open>The bytes do not depend on the key order of the payload.\<close>

lemma encode_canonical_normal_event:
  assumes "encode_canonical e = Inr b"
  shows "encode_canonical (normal_event e) = Inr b"
proof -
  from assms obtain m where m: "event_mapping e True = Inr m" "canonicalize (PDict m) = Inr b"
    by (auto simp: encode_canonical_def rbind_Inr_iff)
  have "canonicalize (PDict (map (\<lambda>kv. (fst kv, if fst kv = key ''payload'' then normal (snd kv)
          else snd kv)) m)) = Inr b"
    by (rule canonicalize_dict_cong [OF m(2)]) simp
  with event_mapping_normal_event [OF m(1)] show ?thesis by (simp add: encode_canonical_def)
qed

lemma decode_encode_canonical:
  assumes enc: "encode_canonical e = Inr b" and ok: "payload_ok (payload e)"
  shows "decode fl b = Inr (normal_event e)"
proof -
  from enc obtain m where m: "event_mapping e True = Inr m" and b: "canonicalize (PDict m) = Inr b"
    by (auto simp: encode_canonical_def rbind_Inr_iff)
  from b have len: "\<not> MAX_DOCUMENT_BYTES < length b" by (auto simp: canonicalize_Inr_iff)
  obtain raw where raw: "normal (PDict m) = PDict raw" by simp
  obtain t where "utf8_decode b = Some t" "json_loads fl t = Some (PDict raw)"
    using json_loads_canonicalize [OF b event_mapping_ok [OF m ok], of fl] raw by auto
  with len have parse: "parse_canonical_document fl b = Inr raw"
    by (simp add: parse_canonical_document_def)
  have look: "dget raw k = map_option normal (dget m k)" for k
    by (rule map_of_normal [OF event_mapping_distinct [OF m] raw])
  note mdef = event_mapping_explicit [OF m]
  have keys: "set (dkeys raw) \<subseteq> set EVENT_FIELDS"
  proof
    fix k assume "k \<in> set (dkeys raw)"
    then have "dget raw k \<noteq> None" by (simp add: map_of_eq_None_iff)
    then have "k \<in> fst ` set m" by (simp add: look map_of_eq_None_iff)
    then show "k \<in> set EVENT_FIELDS"
      unfolding mdef EVENT_FIELDS_def by (auto split: option.splits)
  qed
  have strs: "get_str raw ''event_id'' = Inr (event_id e)" "get_str raw ''collection'' = Inr (collection e)"
    "get_str raw ''entity_id'' = Inr (entity_id e)" "get_str raw ''actor_id'' = Inr (actor_id e)"
    "get_int raw ''actor_seq'' = Inr (actor_seq e)" "get_str raw ''op'' = Inr (op e)"
    by (simp_all add: get_str_def get_int_def look mdef)
  have pl: "get_dict raw ''payload'' = Inr (normal_payload (payload e))"
    by (rule get_dict_pdict) (simp add: look mdef normal_pdict)
  have opts: "opt_int raw ''base_rev'' = Inr (base_rev e)" "opt_str raw ''policy_ref'' = Inr (policy_ref e)"
    "opt_str raw ''sig'' = Inr (sig e)"
    by (simp_all add: opt_int_def opt_str_def look mdef split: option.splits)
  have ev: "\<lparr>event_id = event_id e, collection = collection e, entity_id = entity_id e,
      actor_id = actor_id e, actor_seq = actor_seq e, op = op e, base_rev = base_rev e,
      policy_ref = policy_ref e, payload = normal_payload (payload e), sig = sig e\<rparr> = normal_event e"
    by (simp add: normal_event_def)
  show ?thesis
    using encode_canonical_normal_event [OF enc] keys
    by (simp add: decode_def parse strs pl opts Let_def ev)
qed

text \<open>Only canonical bytes are accepted, and they determine the event.\<close>

lemma decode_canonical: "decode fl b = Inr e \<Longrightarrow> encode_canonical e = Inr b"
  by (auto simp: decode_def rbind_Inr_iff Let_def split: if_splits)

lemma mapping_normal_inj:
  assumes "event_mapping e sg = Inr m" "event_mapping e' sg = Inr m'"
    and "normal (PDict m) = normal (PDict m')"
  shows "normal_event e\<lparr>sig := None\<rparr> = normal_event e'\<lparr>sig := None\<rparr>"
    and "sg \<Longrightarrow> sig e = sig e'"
proof -
  obtain raw where raw: "normal (PDict m) = PDict raw" "normal (PDict m') = PDict raw"
    using assms(3) by simp
  have look: "map_option normal (dget m k) = map_option normal (dget m' k)" for k
    using map_of_normal [OF event_mapping_distinct [OF assms(1)] raw(1)]
      map_of_normal [OF event_mapping_distinct [OF assms(2)] raw(2)] by simp
  note m = assms(1,2) [THEN event_mapping_explicit]
  have strs: "event_id e = event_id e'" "collection e = collection e'" "entity_id e = entity_id e'"
    "actor_id e = actor_id e'" "actor_seq e = actor_seq e'" "op e = op e'"
    using look [of "key ''event_id''"] look [of "key ''collection''"] look [of "key ''entity_id''"]
      look [of "key ''actor_id''"] look [of "key ''actor_seq''"] look [of "key ''op''"]
    by (simp_all add: m)
  have "pdict (normal_payload (payload e)) = pdict (normal_payload (payload e'))"
    using look [of "key ''payload''"] by (simp add: m normal_pdict)
  then have pl: "normal_payload (payload e) = normal_payload (payload e')"
    by (rule pdict_inj)
  have opts: "base_rev e = base_rev e'" "policy_ref e = policy_ref e'"
    using look [of "key ''base_rev''"] look [of "key ''policy_ref''"]
    by (auto simp: m split: option.splits if_splits)
  show "normal_event e\<lparr>sig := None\<rparr> = normal_event e'\<lparr>sig := None\<rparr>"
    using strs pl opts by (simp add: normal_event_def)
  show "sg \<Longrightarrow> sig e = sig e'"
    using look [of "key ''sig''"] by (auto simp: m split: option.splits)
qed

text \<open>What a signature covers determines everything of an event but the signature itself.\<close>

lemma signing_bytes_Inr:
  "signing_bytes e = Inr b \<longleftrightarrow>
   (\<exists>m c. event_mapping e False = Inr m \<and> canonicalize (PDict m) = Inr c \<and> b = EVENT_SIGNING_DOMAIN @ c)"
  by (auto simp: signing_bytes_def rbind_Inr_iff)

lemma signing_bytes_inj:
  assumes "signing_bytes e = Inr b" "signing_bytes e' = Inr b"
    and "payload_ok (payload e)" "payload_ok (payload e')"
  shows "normal_event e\<lparr>sig := None\<rparr> = normal_event e'\<lparr>sig := None\<rparr>"
proof -
  from assms obtain m m' c where m: "event_mapping e False = Inr m" "event_mapping e' False = Inr m'"
    and c: "canonicalize (PDict m) = Inr c" "canonicalize (PDict m') = Inr c"
    by (auto simp: signing_bytes_Inr)
  have "normal (PDict m) = normal (PDict m')"
    using c event_mapping_ok [OF m(1) assms(3)] event_mapping_ok [OF m(2) assms(4)]
    by (rule canonicalize_inj)
  then show ?thesis by (rule mapping_normal_inj(1) [OF m])
qed

lemma signing_bytes_sig: "signing_bytes e = Inr b \<Longrightarrow> (case s of None \<Rightarrow> True | Some x \<Rightarrow> is_sig_hex x) \<Longrightarrow>
    signing_bytes (e\<lparr>sig := s\<rparr>) = Inr b"
  by (auto simp: signing_bytes_def event_mapping_def validate_event_def rbind_Inr_iff
      split: option.splits if_splits)

end
