(* ===== verification/Signing.thy ===== *)
theory Signing
  imports EventCodec
begin

text \<open>
  Signing and verification of events (\<open>signing.py\<close>).  The Ed25519 implementation is a third
  party's (pyca/cryptography), so its three operations are the fields of a parameter \<open>ed\<close>;
  \<open>ed25519_ok\<close> states what RFC 8032 documents of them: sizes, and that an honest signature
  verifies.  Nothing is assumed about forgery.
\<close>

record ed25519 =
  ed_public :: "bytes \<Rightarrow> bytes"
  ed_sign :: "bytes \<Rightarrow> bytes \<Rightarrow> bytes"
  ed_verify :: "bytes \<Rightarrow> bytes \<Rightarrow> bytes \<Rightarrow> bool"

definition is_bytes :: "nat \<Rightarrow> bytes \<Rightarrow> bool" where
  "is_bytes n b \<longleftrightarrow> length b = n \<and> list_all (\<lambda>x. x < 256) b"

definition ed25519_ok :: "ed25519 \<Rightarrow> bool" where
  "ed25519_ok ed \<longleftrightarrow>
     (\<forall>seed. is_bytes 32 seed \<longrightarrow> is_bytes 32 (ed_public ed seed)) \<and>
     (\<forall>seed m. is_bytes 32 seed \<longrightarrow>
        is_bytes 64 (ed_sign ed seed m) \<and> ed_verify ed (ed_public ed seed) (ed_sign ed seed m) m)"

section \<open>Strict hexadecimal\<close>

text \<open>\<open>bytes.hex()\<close> and \<open>bytes.fromhex\<close> on the strict spelling.\<close>

definition hex_byte :: "nat \<Rightarrow> pystr" where
  "hex_byte b = [hex_char (b div 16), hex_char (b mod 16)]"

definition to_hex :: "bytes \<Rightarrow> pystr" where
  "to_hex bs = concat (map hex_byte bs)"

definition hex_digit :: "nat \<Rightarrow> nat" where
  "hex_digit c = (if c < 58 then c - 48 else c - 87)"

fun from_hex :: "pystr \<Rightarrow> bytes" where
  "from_hex (a # b # r) = (hex_digit a * 16 + hex_digit b) # from_hex r"
| "from_hex _ = []"

lemma hex_char_lower: "d < 16 \<Longrightarrow> is_hex_lower (hex_char d)"
  by (auto simp: hex_char_def is_hex_lower_def)

lemma hex_digit_char: "d < 16 \<Longrightarrow> hex_digit (hex_char d) = d"
  by (auto simp: hex_char_def hex_digit_def)

lemma length_to_hex [simp]: "length (to_hex b) = 2 * length b"
  by (induction b) (simp_all add: to_hex_def hex_byte_def)

lemma to_hex_lower: "list_all (\<lambda>x. x < 256) b \<Longrightarrow> list_all is_hex_lower (to_hex b)"
  by (induction b) (auto simp: to_hex_def hex_byte_def hex_char_lower less_mult_imp_div_less)

lemma from_hex_to_hex: "list_all (\<lambda>x. x < 256) b \<Longrightarrow> from_hex (to_hex b) = b"
  by (induction b) (auto simp: to_hex_def hex_byte_def hex_digit_char less_mult_imp_div_less)

lemma hex_digit_less: "is_hex_lower c \<Longrightarrow> hex_digit c < 16"
  by (auto simp: is_hex_lower_def hex_digit_def)

lemma hex_char_digit: "is_hex_lower c \<Longrightarrow> hex_char (hex_digit c) = c"
  by (auto simp: is_hex_lower_def hex_digit_def hex_char_def)

lemma to_hex_from_hex:
  "list_all is_hex_lower s \<Longrightarrow> even (length s) \<Longrightarrow> to_hex (from_hex s) = s"
  by (induction s rule: from_hex.induct)
    (auto simp: to_hex_def hex_byte_def hex_char_digit hex_digit_less)

lemma length_from_hex: "length (from_hex s) = length s div 2"
  by (induction s rule: from_hex.induct) auto

lemma from_hex_bytes: "list_all is_hex_lower s \<Longrightarrow> list_all (\<lambda>x. x < 256) (from_hex s)"
proof (induction s rule: from_hex.induct)
  case (1 a b r)
  then have "hex_digit a < 16" "hex_digit b < 16" by (simp_all add: hex_digit_less)
  then have "hex_digit a * 16 + hex_digit b < 256" by linarith
  with 1 show ?case by simp
qed auto

lemma is_sig_hex_to_hex: "is_bytes 64 b \<Longrightarrow> is_sig_hex (to_hex b)"
  by (simp add: is_sig_hex_def is_bytes_def to_hex_lower)

lemma is_key_hex_to_hex: "is_bytes 32 b \<Longrightarrow> is_key_hex (to_hex b)"
  by (simp add: is_key_hex_def is_bytes_def to_hex_lower)

lemma is_bytes_from_key: "is_key_hex k \<Longrightarrow> is_bytes 32 (from_hex k)"
  by (simp add: is_key_hex_def is_bytes_def length_from_hex from_hex_bytes)

section \<open>Sign and verify\<close>

definition public_key_of :: "ed25519 \<Rightarrow> pystr \<Rightarrow> protocol_error + pystr" where
  "public_key_of ed k =
     (if \<not> is_key_hex k then Inl SchemaViolation else Inr (to_hex (ed_public ed (from_hex k))))"

definition sign_bytes :: "ed25519 \<Rightarrow> bytes \<Rightarrow> pystr \<Rightarrow> protocol_error + pystr" where
  "sign_bytes ed m k =
     (if \<not> is_key_hex k then Inl SchemaViolation else Inr (to_hex (ed_sign ed (from_hex k) m)))"

definition verify_bytes :: "ed25519 \<Rightarrow> bytes \<Rightarrow> pystr \<Rightarrow> pystr \<Rightarrow> protocol_error + bool" where
  "verify_bytes ed m s pk =
     (if \<not> is_key_hex pk then Inl SchemaViolation
      else if \<not> is_sig_hex s then Inr False
      else Inr (ed_verify ed (from_hex pk) (from_hex s) m))"

definition sign :: "ed25519 \<Rightarrow> event \<Rightarrow> pystr \<Rightarrow> protocol_error + event" where
  "sign ed e k =
     rbind (signing_bytes e) (\<lambda>m. rbind (sign_bytes ed m k) (\<lambda>s. Inr (e\<lparr>sig := Some s\<rparr>)))"

definition verify :: "ed25519 \<Rightarrow> event \<Rightarrow> pystr \<Rightarrow> protocol_error + bool" where
  "verify ed e pk =
     (case sig e of
        None \<Rightarrow> Inr False
      | Some s \<Rightarrow> rbind (signing_bytes e) (\<lambda>m. verify_bytes ed m s pk))"

lemma verify_sign_bytes:
  assumes "ed25519_ok ed" "public_key_of ed k = Inr pk" "sign_bytes ed m k = Inr s"
  shows "is_sig_hex s" "verify_bytes ed m s pk = Inr True"
proof -
  have k: "is_key_hex k" and pk: "pk = to_hex (ed_public ed (from_hex k))"
    and s: "s = to_hex (ed_sign ed (from_hex k) m)"
    using assms(2,3) by (auto simp: public_key_of_def sign_bytes_def split: if_splits)
  have seed: "is_bytes 32 (from_hex k)" using k by (rule is_bytes_from_key)
  have out: "is_bytes 32 (ed_public ed (from_hex k))" "is_bytes 64 (ed_sign ed (from_hex k) m)"
    "ed_verify ed (ed_public ed (from_hex k)) (ed_sign ed (from_hex k) m) m"
    using assms(1) seed by (auto simp: ed25519_ok_def)
  show "is_sig_hex s" using out(2) by (simp add: s is_sig_hex_to_hex)
  then show "verify_bytes ed m s pk = Inr True"
    using out by (simp add: verify_bytes_def pk s is_key_hex_to_hex is_bytes_def from_hex_to_hex)
qed

text \<open>What \<open>sign\<close> returns carries a well-formed signature over the same signing bytes.\<close>

lemma sign_Inr:
  assumes "ed25519_ok ed" "sign ed e k = Inr e'"
  shows "\<exists>m s. signing_bytes e = Inr m \<and> sign_bytes ed m k = Inr s \<and> e' = e\<lparr>sig := Some s\<rparr> \<and>
    is_sig_hex s \<and> signing_bytes e' = Inr m"
proof -
  obtain m s where m: "signing_bytes e = Inr m" and s: "sign_bytes ed m k = Inr s"
    and e': "e' = e\<lparr>sig := Some s\<rparr>"
    using assms(2) by (auto simp: sign_def rbind_Inr_iff)
  from s obtain pk where "public_key_of ed k = Inr pk"
    by (auto simp: sign_bytes_def public_key_of_def split: if_splits)
  then have "is_sig_hex s" using verify_sign_bytes(1) assms(1) s by blast
  with m s e' signing_bytes_sig [OF m, of "Some s"] show ?thesis by auto
qed

lemma verify_sign:
  assumes "ed25519_ok ed" "sign ed e k = Inr e'" "public_key_of ed k = Inr pk"
  shows "verify ed e' pk = Inr True"
  using sign_Inr [OF assms(1,2)] verify_sign_bytes(2) [OF assms(1,3)]
  by (auto simp: verify_def)

end
