(* ===== verification/Grants.thy ===== *)
theory Grants
  imports Signing
begin

text \<open>
  Capability grants (\<open>grants.py\<close>): their codec and the offline verification.  \<open>verify_grant\<close>
  keeps the source's order of checks; \<open>verify_grant_reason\<close> characterises every outcome, so an
  audit reason never undersells what is true (a forged grant reports forged even when it is
  also revoked or expired).
\<close>

section \<open>Codec\<close>

definition GRANT_SIGNING_DOMAIN :: bytes where
  "GRANT_SIGNING_DOMAIN = lit ''kantaq:grant:v1'' @ [0]"

definition GRANT_FIELDS :: "pyval list" where
  "GRANT_FIELDS = [key ''grant_id'', key ''subject'', key ''issuer'', key ''resource'', key ''verbs'',
     key ''issued_at'', key ''expires_at'', key ''revokes'', key ''sig'']"

definition validate_grant :: "grant \<Rightarrow> protocol_error + unit" where
  "validate_grant g =
     (if grant_id g = [] \<or> subject g = [] \<or> issuer g = [] \<or> resource g = [] then Inl SchemaViolation
      else if verbs g = [] then Inl SchemaViolation
      else if [] \<in> set (verbs g) then Inl SchemaViolation
      else if revokes g = Some [] then Inl SchemaViolation
      else if (case grant_sig g of None \<Rightarrow> False | Some s \<Rightarrow> \<not> is_sig_hex s) then Inl SchemaViolation
      else Inr ())"

definition grant_mapping :: "grant \<Rightarrow> bool \<Rightarrow> protocol_error + (pyval \<times> pyval) list" where
  "grant_mapping g include_sig =
     rbind (validate_grant g) (\<lambda>_. Inr (
       [(key ''grant_id'', PStr (grant_id g)),
        (key ''subject'', PStr (subject g)),
        (key ''issuer'', PStr (issuer g)),
        (key ''resource'', PStr (resource g)),
        (key ''verbs'', PList (map PStr (verbs g))),
        (key ''issued_at'', PInt (issued_at g)),
        (key ''expires_at'', PInt (expires_at g))]
       @ (case revokes g of None \<Rightarrow> [] | Some r \<Rightarrow> [(key ''revokes'', PStr r)])
       @ (case grant_sig g of None \<Rightarrow> [] | Some s \<Rightarrow> if include_sig then [(key ''sig'', PStr s)] else [])))"

definition grant_signing_bytes :: "grant \<Rightarrow> protocol_error + bytes" where
  "grant_signing_bytes g =
     rbind (grant_mapping g False) (\<lambda>m. rbind (canonicalize (PDict m)) (\<lambda>b. Inr (GRANT_SIGNING_DOMAIN @ b)))"

definition encode_canonical_grant :: "grant \<Rightarrow> protocol_error + bytes" where
  "encode_canonical_grant g = rbind (grant_mapping g True) (\<lambda>m. canonicalize (PDict m))"

definition get_str_list :: "(pyval \<times> pyval) list \<Rightarrow> string \<Rightarrow> protocol_error + pystr list" where
  "get_str_list raw k =
     (case dget raw (key k) of
        Some (PList xs) \<Rightarrow> rmap (\<lambda>x. case x of PStr s \<Rightarrow> Inr s | _ \<Rightarrow> Inl SchemaViolation) xs
      | _ \<Rightarrow> Inl SchemaViolation)"

definition decode_grant :: "(pystr \<Rightarrow> 64 word) \<Rightarrow> bytes \<Rightarrow> protocol_error + grant" where
  "decode_grant fl data =
     rbind (parse_canonical_document fl data) (\<lambda>raw.
     if \<not> set (dkeys raw) \<subseteq> set GRANT_FIELDS then Inl SchemaViolation else
     rbind (get_str_list raw ''verbs'') (\<lambda>vs.
     rbind (get_str raw ''grant_id'') (\<lambda>gid.
     rbind (get_str raw ''subject'') (\<lambda>sub.
     rbind (get_str raw ''issuer'') (\<lambda>iss.
     rbind (get_str raw ''resource'') (\<lambda>res.
     rbind (get_int raw ''issued_at'') (\<lambda>ia.
     rbind (get_int raw ''expires_at'') (\<lambda>ea.
     rbind (opt_str raw ''revokes'') (\<lambda>rv.
     rbind (opt_str raw ''sig'') (\<lambda>sg.
     let g = \<lparr>grant_id = gid, subject = sub, issuer = iss, resource = res, verbs = vs,
              issued_at = ia, expires_at = ea, revokes = rv, grant_sig = sg\<rparr>
     in rbind (encode_canonical_grant g) (\<lambda>b.
        if b \<noteq> data then Inl SchemaViolation else Inr g)))))))))))"

lemma grant_mapping_explicit:
  "grant_mapping g sg = Inr m \<Longrightarrow>
     m = [(key ''grant_id'', PStr (grant_id g)), (key ''subject'', PStr (subject g)),
        (key ''issuer'', PStr (issuer g)), (key ''resource'', PStr (resource g)),
        (key ''verbs'', PList (map PStr (verbs g))), (key ''issued_at'', PInt (issued_at g)),
        (key ''expires_at'', PInt (expires_at g))]
       @ (case revokes g of None \<Rightarrow> [] | Some r \<Rightarrow> [(key ''revokes'', PStr r)])
       @ (case grant_sig g of None \<Rightarrow> [] | Some s \<Rightarrow> if sg then [(key ''sig'', PStr s)] else [])"
  by (auto simp: grant_mapping_def rbind_Inr_iff)

lemma grant_mapping_ok:
  assumes "grant_mapping g sg = Inr m"
  shows "distinct (map fst m)" "pyval_ok (PDict m)"
  by (auto simp: grant_mapping_explicit [OF assms] dict_ok_def split: option.splits)

lemma normal_strings [simp]: "map (normal \<circ> PStr) xs = map PStr xs"
  by simp

lemma get_str_list_strings:
  "dget raw (key k) = Some (PList (map PStr xs)) \<Longrightarrow> get_str_list raw k = Inr xs"
  by (simp add: get_str_list_def rmap_map rmap_Inr_iff list_all2_same)

lemma decode_encode_canonical_grant:
  assumes enc: "encode_canonical_grant g = Inr b"
  shows "decode_grant fl b = Inr g"
proof -
  from enc obtain m where m: "grant_mapping g True = Inr m" and b: "canonicalize (PDict m) = Inr b"
    by (auto simp: encode_canonical_grant_def rbind_Inr_iff)
  note ok = grant_mapping_ok [OF m] and mdef = grant_mapping_explicit [OF m]
  from b have len: "\<not> MAX_DOCUMENT_BYTES < length b" by (auto simp: canonicalize_Inr_iff)
  obtain raw where raw: "normal (PDict m) = PDict raw" by simp
  obtain t where "utf8_decode b = Some t" "json_loads fl t = Some (PDict raw)"
    using json_loads_canonicalize [OF b ok(2), of fl] raw by auto
  with len have parse: "parse_canonical_document fl b = Inr raw"
    by (simp add: parse_canonical_document_def)
  have look: "dget raw k = map_option normal (dget m k)" for k
    by (rule map_of_normal [OF ok(1) raw])
  have keys: "fst ` set raw \<subseteq> set GRANT_FIELDS"
  proof
    fix k assume "k \<in> fst ` set raw"
    then have "dget raw k \<noteq> None" by (simp add: map_of_eq_None_iff)
    then have "k \<in> fst ` set m" by (simp add: look map_of_eq_None_iff)
    then show "k \<in> set GRANT_FIELDS"
      unfolding mdef GRANT_FIELDS_def by (auto split: option.splits)
  qed
  have vs: "get_str_list raw ''verbs'' = Inr (verbs g)"
    by (rule get_str_list_strings) (simp add: look mdef)
  have strs: "get_str raw ''grant_id'' = Inr (grant_id g)" "get_str raw ''subject'' = Inr (subject g)"
    "get_str raw ''issuer'' = Inr (issuer g)" "get_str raw ''resource'' = Inr (resource g)"
    "get_int raw ''issued_at'' = Inr (issued_at g)" "get_int raw ''expires_at'' = Inr (expires_at g)"
    by (simp_all add: get_str_def get_int_def look mdef)
  have opts: "opt_str raw ''revokes'' = Inr (revokes g)" "opt_str raw ''sig'' = Inr (grant_sig g)"
    by (simp_all add: opt_str_def look mdef split: option.splits)
  have ev: "\<lparr>grant_id = grant_id g, subject = subject g, issuer = issuer g, resource = resource g,
      verbs = verbs g, issued_at = issued_at g, expires_at = expires_at g, revokes = revokes g,
      grant_sig = grant_sig g\<rparr> = g"
    by simp
  show ?thesis
    using enc keys by (simp add: decode_grant_def parse vs strs opts Let_def ev)
qed

lemma decode_grant_canonical: "decode_grant fl b = Inr g \<Longrightarrow> encode_canonical_grant g = Inr b"
  by (auto simp: decode_grant_def rbind_Inr_iff Let_def split: if_splits)

lemma domains_differ: "EVENT_SIGNING_DOMAIN @ b \<noteq> GRANT_SIGNING_DOMAIN @ c"
  by (simp add: EVENT_SIGNING_DOMAIN_def GRANT_SIGNING_DOMAIN_def lit_def)

section \<open>Offline verification\<close>

datatype grant_reason =
    GrantOk
  | MissingSignature
  | Forged
  | UnknownRoot
  | Expired
  | NotYetValid
  | InvalidValidity
  | Revoked

definition sign_grant :: "ed25519 \<Rightarrow> grant \<Rightarrow> pystr \<Rightarrow> protocol_error + grant" where
  "sign_grant ed g k =
     rbind (grant_signing_bytes g) (\<lambda>m.
     rbind (sign_bytes ed m k) (\<lambda>s. Inr (g\<lparr>grant_sig := Some s\<rparr>)))"

definition verify_grant ::
    "ed25519 \<Rightarrow> grant \<Rightarrow> (pystr \<rightharpoonup> pystr) \<Rightarrow> int \<Rightarrow> pystr list \<Rightarrow> protocol_error + grant_reason" where
  "verify_grant ed g roots now revoked_ids =
     rbind (validate_grant g) (\<lambda>_.
     if expires_at g \<le> issued_at g then Inr InvalidValidity
     else (case grant_sig g of
       None \<Rightarrow> Inr MissingSignature
     | Some s \<Rightarrow>
         (case roots (issuer g) of
            None \<Rightarrow> Inr UnknownRoot
          | Some root_key \<Rightarrow>
              rbind (grant_signing_bytes g) (\<lambda>m.
              rbind (verify_bytes ed m s root_key) (\<lambda>ok.
              if \<not> ok then Inr Forged
              else if grant_id g \<in> set revoked_ids then Inr Revoked
              else if now < issued_at g then Inr NotYetValid
              else if now \<ge> expires_at g then Inr Expired
              else Inr GrantOk)))))"

text \<open>The signature check on its own: the issuer's root verifies the grant's bytes.\<close>

definition grant_authentic :: "ed25519 \<Rightarrow> grant \<Rightarrow> (pystr \<rightharpoonup> pystr) \<Rightarrow> bool" where
  "grant_authentic ed g roots \<longleftrightarrow>
     (\<exists>s k m. grant_sig g = Some s \<and> roots (issuer g) = Some k \<and>
        grant_signing_bytes g = Inr m \<and> verify_bytes ed m s k = Inr True)"

lemma verify_grant_ok_iff:
  "verify_grant ed g roots now revoked = Inr GrantOk \<longleftrightarrow>
   validate_grant g = Inr () \<and> grant_authentic ed g roots \<and> grant_id g \<notin> set revoked \<and>
   issued_at g \<le> now \<and> now < expires_at g"
proof -
  have "validate_grant g = Inr x \<longleftrightarrow> validate_grant g = Inr ()" for x by (cases x) simp
  then show ?thesis
    by (auto simp: verify_grant_def grant_authentic_def rbind_Inr_iff split: option.splits if_splits)
qed

text \<open>The reasons in order of precedence: each is reported exactly when no earlier check fails.\<close>

lemma verify_grant_authentic_reasons:
  assumes "validate_grant g = Inr ()" "issued_at g < expires_at g" "grant_authentic ed g roots"
  shows "verify_grant ed g roots now revoked = Inr (
    if grant_id g \<in> set revoked then Revoked
    else if now < issued_at g then NotYetValid
    else if now \<ge> expires_at g then Expired else GrantOk)"
  using assms by (auto simp: verify_grant_def grant_authentic_def)

lemma verify_grant_forged:
  assumes "validate_grant g = Inr ()" "issued_at g < expires_at g"
    and "grant_sig g = Some s" "roots (issuer g) = Some k" "is_key_hex k"
    and "grant_signing_bytes g = Inr m" "\<not> grant_authentic ed g roots"
  shows "verify_grant ed g roots now revoked = Inr Forged"
proof -
  obtain ok where "verify_bytes ed m s k = Inr ok"
    using assms(5) by (cases "is_sig_hex s") (auto simp: verify_bytes_def)
  with assms show ?thesis
    by (cases ok) (auto simp: verify_grant_def grant_authentic_def)
qed

lemma sign_grant_authentic:
  assumes "ed25519_ok ed" "sign_grant ed g k = Inr g'" "public_key_of ed k = Inr pk"
    "roots (issuer g) = Some pk"
  shows "grant_authentic ed g' roots" "validate_grant g' = Inr ()"
    "g' = g\<lparr>grant_sig := grant_sig g'\<rparr>"
proof -
  from assms(2) obtain m s where m: "grant_signing_bytes g = Inr m" and s: "sign_bytes ed m k = Inr s"
    and g': "g' = g\<lparr>grant_sig := Some s\<rparr>"
    by (auto simp: sign_grant_def rbind_Inr_iff)
  note v = verify_sign_bytes [OF assms(1,3) s]
  show val: "validate_grant g' = Inr ()"
    using m v(1) by (auto simp: g' grant_signing_bytes_def grant_mapping_def validate_grant_def
        rbind_Inr_iff split: if_splits)
  have "grant_signing_bytes g' = Inr m"
    using m val by (auto simp: g' grant_signing_bytes_def grant_mapping_def rbind_Inr_iff
        split: option.splits)
  with v(2) assms(4) g' show "grant_authentic ed g' roots" by (auto simp: grant_authentic_def)
  show "g' = g\<lparr>grant_sig := grant_sig g'\<rparr>" by (simp add: g')
qed

end
