(* ===== verification/Meta.thy ===== *)
theory Meta
  imports Entities
begin

text \<open>
  Per-collection protocol metadata (\<open>kantaq_db/meta.py\<close>): a constant table.
\<close>

datatype authority_mode = AuthLocal | AuthBackend
datatype merge_policy = Lww | AppendOnly | AuthoritativeTx | Crdt
datatype visibility = VisLocal | VisTeam

record privacy_class =
  pc_visibility :: visibility
  pc_hosting_mode :: pystr
  pc_retention_policy :: pystr

record collection_meta =
  cm_name :: pystr
  cm_authority :: authority_mode
  cm_merge :: merge_policy
  cm_privacy :: privacy_class

definition DEFAULT_PRIVACY :: privacy_class where
  "DEFAULT_PRIVACY = \<lparr>pc_visibility = VisTeam, pc_hosting_mode = lit ''plain'', pc_retention_policy = lit ''standard''\<rparr>"

definition cmeta :: "string \<Rightarrow> authority_mode \<Rightarrow> merge_policy \<Rightarrow> pystr \<times> collection_meta" where
  "cmeta n a m = (lit n, \<lparr>cm_name = lit n, cm_authority = a, cm_merge = m, cm_privacy = DEFAULT_PRIVACY\<rparr>)"

definition COLLECTION_META :: "(pystr, collection_meta) dict" where
  "COLLECTION_META =
     [cmeta ''workspaces'' AuthBackend Lww,
      cmeta ''projects'' AuthBackend Lww,
      cmeta ''tickets'' AuthBackend Lww,
      cmeta ''comments'' AuthBackend AppendOnly,
      cmeta ''ticket_relationships'' AuthBackend Lww,
      cmeta ''members'' AuthBackend Lww,
      cmeta ''tokens'' AuthLocal AuthoritativeTx,
      cmeta ''audit_events'' AuthBackend AppendOnly,
      cmeta ''agent_proposals'' AuthBackend Lww,
      cmeta ''memory_entries'' AuthBackend Lww,
      cmeta ''memory_links'' AuthBackend Lww,
      cmeta ''devices'' AuthBackend Lww,
      cmeta ''capability_grants'' AuthBackend AuthoritativeTx,
      cmeta ''skill_containers'' AuthBackend Lww,
      cmeta ''skill_mappings'' AuthBackend Lww,
      cmeta ''conflict_records'' AuthBackend AuthoritativeTx,
      cmeta ''audit_anchors'' AuthBackend AppendOnly,
      cmeta ''milestones'' AuthBackend Lww,
      cmeta ''ticket_milestones'' AuthBackend Lww,
      cmeta ''follow_ups'' AuthBackend Lww]"

definition collection_names :: "pystr list" where
  "collection_names = dkeys COLLECTION_META"

lemma collection_names_distinct: "distinct collection_names"
  by (simp add: collection_names_def COLLECTION_META_def cmeta_def)

lemma collection_meta_name: "dget COLLECTION_META n = Some m \<Longrightarrow> cm_name m = n"
  by (auto simp: COLLECTION_META_def cmeta_def split: if_splits)

end
