(* ===== verification/Fold.thy ===== *)
theory Fold
  imports Entities
begin

text \<open>
  The folds that turn event streams into state: \<open>fold_entity\<close> (\<open>tracker/events.py\<close>), the replica's
  fold with sticky tombstones, and \<open>fold_events\<close> (\<open>sync_engine/events.py\<close>), the backend's
  last-writer-wins fold.  A payload is a dictionary, so a fold is a run of dictionary updates;
  \<open>fold_entity\<close> keeps the pair of the entity's state and the committed revision of the last
  committed tombstone.
\<close>

section \<open>The replica's fold\<close>

definition REVIVE_FIELD :: pystr where "REVIVE_FIELD = lit ''__revive__''"

record domain_event =
  de_collection :: pystr
  de_entity_id :: pystr
  de_op :: pystr
  de_payload :: payload
  de_base_rev :: "int option"
  de_committed_rev :: "int option"

type_synonym fold_state = "payload option \<times> int option"

text \<open>A patch that saw the delete, or an explicit revive.\<close>

definition saw_delete :: "int \<Rightarrow> domain_event \<Rightarrow> bool" where
  "saw_delete t e \<longleftrightarrow> (case de_base_rev e of None \<Rightarrow> False | Some b \<Rightarrow> b \<ge> t)"

definition is_revive :: "domain_event \<Rightarrow> bool" where
  "is_revive e \<longleftrightarrow> (case dget (de_payload e) REVIVE_FIELD of None \<Rightarrow> False | Some v \<Rightarrow> truthy v)"

definition set_fields :: "payload \<Rightarrow> payload" where
  "set_fields p = filter (\<lambda>kv. fst kv \<noteq> REVIVE_FIELD) p"

definition fold_step :: "pystr \<Rightarrow> fold_state \<Rightarrow> domain_event \<Rightarrow> fold_state" where
  "fold_step eid s e =
     (let (state, tombstone_rev) = s in
      if de_entity_id e \<noteq> eid then s
      else if de_op e = op_tombstone then
        (None, (case de_committed_rev e of None \<Rightarrow> tombstone_rev | Some r \<Rightarrow> Some r))
      else if (case tombstone_rev of None \<Rightarrow> False | Some t \<Rightarrow> \<not> (saw_delete t e \<or> is_revive e)) then s
      else (Some (dupdate (case state of None \<Rightarrow> [] | Some d \<Rightarrow> d) (set_fields (de_payload e))), None))"

definition fold_entity :: "pystr \<Rightarrow> domain_event list \<Rightarrow> payload option" where
  "fold_entity eid events = fst (foldl (fold_step eid) (None, None) events)"

section \<open>The backend's fold\<close>

datatype fold_error = AttributeError

definition APPENDED :: pystr where "APPENDED = lit ''_appended''"

definition fold_events_step ::
    "'a event_scheme \<Rightarrow> (pystr, payload) dict \<Rightarrow> fold_error + (pystr, payload) dict" where
  "fold_events_step e state =
     (if op e = op_tombstone then Inr (AList.delete (entity_id e) state)
      else let current = (case dget state (entity_id e) of None \<Rightarrow> [] | Some c \<Rightarrow> c) in
        if op e = op_append then
          (case (case dget current APPENDED of None \<Rightarrow> PList [] | Some v \<Rightarrow> v) of
             PList xs \<Rightarrow>
               Inr (dset (entity_id e)
                 (dset APPENDED (PList (xs @ [PDict (map (\<lambda>(k, v). (PStr k, v)) (payload e))])) current) state)
           | _ \<Rightarrow> Inl AttributeError)
        else Inr (dset (entity_id e) (dupdate current (payload e)) state))"

definition fold_events :: "'a event_scheme list \<Rightarrow> fold_error + (pystr, payload) dict" where
  "fold_events events = rfold fold_events_step events []"

section \<open>What the replica's fold computes\<close>

lemma fold_step_other [simp]: "de_entity_id e \<noteq> eid \<Longrightarrow> fold_step eid s e = s"
  by (simp add: fold_step_def split_beta)

text \<open>Only the entity's own events matter.\<close>

lemma fold_entity_filter:
  "fold_entity eid events = fold_entity eid (filter (\<lambda>e. de_entity_id e = eid) events)"
proof -
  have "foldl (fold_step eid) s events =
      foldl (fold_step eid) s (filter (\<lambda>e. de_entity_id e = eid) events)" for s
    by (induction events arbitrary: s) simp_all
  then show ?thesis by (simp add: fold_entity_def)
qed

lemma fold_entity_append:
  "fold_entity eid (es @ fs) = fst (foldl (fold_step eid) (foldl (fold_step eid) (None, None) es) fs)"
  by (simp add: fold_entity_def)

text \<open>A committed tombstone leaves the sticky state; it holds through every stale event.\<close>

definition sticky :: "int \<Rightarrow> domain_event \<Rightarrow> bool" where
  "sticky t e \<longleftrightarrow> de_op e = op_tombstone \<and> de_committed_rev e = None \<or>
     de_op e \<noteq> op_tombstone \<and> \<not> saw_delete t e \<and> \<not> is_revive e"

lemma fold_step_tombstone:
  "de_entity_id e = eid \<Longrightarrow> de_op e = op_tombstone \<Longrightarrow> de_committed_rev e = Some t \<Longrightarrow>
   fold_step eid s e = (None, Some t)"
  by (simp add: fold_step_def split_beta)

lemma fold_step_sticky: "sticky t e \<Longrightarrow> fold_step eid (None, Some t) e = (None, Some t)"
  by (auto simp: fold_step_def sticky_def)

lemma foldl_sticky:
  "\<forall>e \<in> set es. de_entity_id e = eid \<longrightarrow> sticky t e \<Longrightarrow>
   foldl (fold_step eid) (None, Some t) es = (None, Some t)"
proof (induction es)
  case (Cons e es)
  then show ?case by (cases "de_entity_id e = eid") (simp_all add: fold_step_sticky)
qed simp

lemma fold_entity_sticky:
  assumes "de_entity_id d = eid" "de_op d = op_tombstone" "de_committed_rev d = Some t"
    and "\<forall>e \<in> set later. de_entity_id e = eid \<longrightarrow> sticky t e"
  shows "fold_entity eid (earlier @ d # later) = None"
  using assms by (simp add: fold_entity_append fold_step_tombstone foldl_sticky)

text \<open>A legitimate revive starts from an empty row: nothing of the deleted state survives.\<close>

lemma fold_step_revive:
  assumes "de_entity_id e = eid" "de_op e \<noteq> op_tombstone" "saw_delete t e \<or> is_revive e"
  shows "fold_step eid (None, Some t) e = (Some (dupdate [] (set_fields (de_payload e))), None)"
  using assms by (auto simp: fold_step_def)

lemma fold_entity_revive:
  assumes "de_entity_id d = eid" "de_op d = op_tombstone" "de_committed_rev d = Some t"
    and "\<forall>e \<in> set between. de_entity_id e = eid \<longrightarrow> sticky t e"
    and "de_entity_id r = eid" "de_op r \<noteq> op_tombstone" "saw_delete t r \<or> is_revive r"
  shows "fold_entity eid (earlier @ d # between @ [r]) = Some (dupdate [] (set_fields (de_payload r)))"
  using assms by (simp add: fold_entity_append fold_step_tombstone foldl_sticky fold_step_revive)

text \<open>The control flag is never a column.\<close>

lemma dget_set_fields: "dget (set_fields p) k = (if k = REVIVE_FIELD then None else dget p k)"
  by (induction p) (auto simp: set_fields_def)

definition row_ok :: "payload option \<Rightarrow> bool" where
  "row_ok s \<longleftrightarrow> (case s of None \<Rightarrow> True | Some d \<Rightarrow> dict_ok d \<and> REVIVE_FIELD \<notin> fst ` set d)"

lemma row_ok_None [simp]: "row_ok None"
  by (simp add: row_ok_def)

lemma set_fields_keys: "REVIVE_FIELD \<notin> fst ` set (set_fields p)"
  by (auto simp: set_fields_def)

lemma fold_step_row_ok: "row_ok (fst s) \<Longrightarrow> row_ok (fst (fold_step eid s e))"
  using set_fields_keys [of "de_payload e"]
  by (auto simp: fold_step_def split_beta row_ok_def simp del: not_None_eq split: option.splits)

lemma fold_entity_row_ok: "row_ok (fold_entity eid es)"
  unfolding fold_entity_def
  by (rule foldl_invariant [where P = "\<lambda>s. row_ok (fst s)"]) (simp_all add: fold_step_row_ok)

section \<open>Agreement of the two folds\<close>

text \<open>A committed event as the replica folds it.\<close>

definition domain_of :: "int \<times> event \<Rightarrow> domain_event" where
  "domain_of ce = (case ce of (r, e) \<Rightarrow>
     \<lparr>de_collection = collection e, de_entity_id = entity_id e, de_op = op e,
      de_payload = payload e, de_base_rev = base_rev e, de_committed_rev = Some r\<rparr>)"

definition plain_event :: "event \<Rightarrow> bool" where
  "plain_event e \<longleftrightarrow> op e \<noteq> op_append \<and> dict_ok (payload e) \<and> dget (payload e) REVIVE_FIELD = None"

text \<open>No event is based on a state older than a delete committed before it.\<close>

fun respects_deletes :: "(int \<times> event) list \<Rightarrow> bool" where
  "respects_deletes [] \<longleftrightarrow> True"
| "respects_deletes ((r, d) # ces) \<longleftrightarrow>
     (op d = op_tombstone \<longrightarrow>
       (\<forall>(q, e) \<in> set ces. entity_id e = entity_id d \<longrightarrow> op e = op_tombstone \<or>
          (case base_rev e of None \<Rightarrow> False | Some b \<Rightarrow> b \<ge> r)))
     \<and> respects_deletes ces"

lemma set_fields_plain: "dget p REVIVE_FIELD = None \<Longrightarrow> set_fields p = p"
  unfolding set_fields_def by (rule filter_True) (force simp: map_of_eq_None_iff)

text \<open>In step: the backend's row of the entity is the replica's state, and no later event is stale
  with respect to the replica's tombstone.\<close>

lemma folds_agree_from:
  assumes "\<forall>ce \<in> set ces. plain_event (snd ce)" "respects_deletes ces"
    and "case t of None \<Rightarrow> True | Some r \<Rightarrow> \<forall>(q, e) \<in> set ces. entity_id e = eid \<longrightarrow> op e = op_tombstone \<or>
          (case base_rev e of None \<Rightarrow> False | Some b \<Rightarrow> b \<ge> r)"
    and "dget state eid = s" "distinct (dkeys state)"
  shows "\<exists>final. rfold fold_events_step (map snd ces) state = Inr final \<and>
    dget final eid = fst (foldl (fold_step eid) (s, t) (map domain_of ces))"
  using assms
proof (induction ces arbitrary: state s t)
  case (Cons ce ces)
  obtain r e where ce: "ce = (r, e)" by (cases ce)
  have plain: "op e \<noteq> op_append" "dict_ok (payload e)" "dget (payload e) REVIVE_FIELD = None"
    using Cons.prems(1) by (auto simp: ce plain_event_def)
  note hyps = Cons.prems(1,2,5)
  consider (other) "entity_id e \<noteq> eid" | (tomb) "entity_id e = eid" "op e = op_tombstone"
    | (patch) "entity_id e = eid" "op e \<noteq> op_tombstone" by blast
  then show ?case
  proof cases
    case other
    obtain state' where st: "fold_events_step e state = Inr state'"
      using plain by (cases "op e = op_tombstone") (simp_all add: fold_events_step_def)
    with other plain Cons.prems(4,5) have "dget state' eid = s" "distinct (dkeys state')"
      by (auto simp: fold_events_step_def Let_def delete_conv' distinct_update distinct_delete split: if_splits)
    note st = st this
    have "domain_of ce = domain_of (r, e) \<and> de_entity_id (domain_of ce) \<noteq> eid"
      using other by (simp add: ce domain_of_def)
    moreover have "case t of None \<Rightarrow> True | Some r \<Rightarrow> \<forall>(q, e) \<in> set ces. entity_id e = eid \<longrightarrow>
        op e = op_tombstone \<or> (case base_rev e of None \<Rightarrow> False | Some b \<Rightarrow> b \<ge> r)"
      using Cons.prems(3) by (cases t) simp_all
    ultimately show ?thesis using st Cons.IH [of t state' s] Cons.prems(1,2) by (simp add: ce)
  next
    case tomb
    let ?state = "AList.delete (entity_id e) state"
    have step: "fold_step eid (s, t) (domain_of ce) = (None, Some r)"
      using tomb by (intro fold_step_tombstone) (simp_all add: ce domain_of_def)
    have "fold_events_step e state = Inr ?state" "dget ?state eid = None" "distinct (dkeys ?state)"
      using tomb Cons.prems(5) by (simp_all add: fold_events_step_def delete_conv' distinct_delete)
    moreover have "\<forall>(q, f) \<in> set ces. entity_id f = eid \<longrightarrow> op f = op_tombstone \<or>
        (case base_rev f of None \<Rightarrow> False | Some b \<Rightarrow> b \<ge> r)"
      using Cons.prems(2) tomb by (simp add: ce)
    ultimately show ?thesis
      using Cons.IH [of "Some r" ?state None] Cons.prems(1,2) step by (simp add: ce)
  next
    case patch
    let ?state = "dset eid (dupdate (case s of None \<Rightarrow> [] | Some c \<Rightarrow> c) (payload e)) state"
    have "(case t of None \<Rightarrow> True | Some q \<Rightarrow> saw_delete q (domain_of ce))"
      using Cons.prems(3) patch by (auto simp: ce domain_of_def saw_delete_def split: option.splits)
    then have step: "fold_step eid (s, t) (domain_of ce) =
        (Some (dupdate (case s of None \<Rightarrow> [] | Some c \<Rightarrow> c) (payload e)), None)"
      using patch plain(3)
      by (auto simp: fold_step_def ce domain_of_def set_fields_plain split: option.splits)
    have "fold_events_step e state = Inr ?state"
      using patch plain Cons.prems(4) by (simp add: fold_events_step_def)
    moreover have "distinct (dkeys ?state)" using Cons.prems(5) by (rule distinct_update)
    ultimately show ?thesis
      using Cons.IH [of None ?state "Some (dupdate (case s of None \<Rightarrow> [] | Some c \<Rightarrow> c) (payload e))"]
        Cons.prems(1,2) step by (simp add: ce)
  qed
qed simp

lemma folds_agree:
  assumes "\<forall>ce \<in> set ces. plain_event (snd ce)" "respects_deletes ces"
  shows "\<exists>final. fold_events (map snd ces) = Inr final \<and>
    (\<forall>eid. dget final eid = fold_entity eid (map domain_of ces))"
proof -
  have "\<exists>final. fold_events (map snd ces) = Inr final \<and> dget final eid = fold_entity eid (map domain_of ces)" for eid
    unfolding fold_events_def fold_entity_def using assms by (intro folds_agree_from) simp_all
  then show ?thesis by (metis sum.inject(2))
qed

end
