(* ===== verification/EventLog.thy ===== *)
theory EventLog
  imports Signing Meta Fold
begin

text \<open>
  The replica's append-only event log (\<open>sync_engine/log.py\<close>): the table is the list of its rows
  in insertion order, a query is a filter, and an insert that breaks the primary key or
  \<open>UNIQUE(actor_id, actor_seq)\<close> is the error the database raises.  A row extends the protocol
  event by the columns the log adds; \<open>created_at\<close> is left out, nothing modelled reads it.
  \<open>emit\<close> is the tracker's seam: it assigns the envelope, signs and inserts.  The fresh ULID is
  an argument (\<open>Ids\<close> models the factory).
\<close>

section \<open>Rows and queries\<close>

datatype sync_state = Pending | Committed | Rejected | RebaseRequiredState

record log_row = event +
  committed_rev :: "int option"
  row_state :: sync_state
  origin_proposal_id :: "pystr option"

type_synonym log = "log_row list"

definition terminal_rejected :: "sync_state \<Rightarrow> bool" where
  "terminal_rejected s \<longleftrightarrow> s \<in> {Rejected, RebaseRequiredState}"

definition max_of :: "int list \<Rightarrow> int option" where
  "max_of xs = (if xs = [] then None else Some (Max (set xs)))"

definition next_actor_seq :: "log \<Rightarrow> pystr \<Rightarrow> int" where
  "next_actor_seq l a =
     (case max_of (map actor_seq (filter (\<lambda>r. actor_id r = a) l)) of None \<Rightarrow> 0 | Some n \<Rightarrow> n) + 1"

definition entity_base_rev :: "log \<Rightarrow> pystr \<Rightarrow> pystr \<Rightarrow> int option" where
  "entity_base_rev l c e =
     max_of (List.map_filter committed_rev (filter (\<lambda>r. collection r = c \<and> entity_id r = e) l))"

definition has_event :: "log \<Rightarrow> pystr \<Rightarrow> int \<Rightarrow> bool" where
  "has_event l a n \<longleftrightarrow> (\<exists>r \<in> set l. actor_id r = a \<and> actor_seq r = n)"

datatype log_error =
    IntegrityError
  | SigningRequiredError
  | AuthoritativeWriteError
  | AppendOnlyWriteError
  | DuplicateEventError
  | EmitProtocol protocol_error

definition make_row :: "event \<Rightarrow> int option \<Rightarrow> pystr option \<Rightarrow> log_row" where
  "make_row e crev origin = event.extend e
     \<lparr>committed_rev = crev,
      row_state = (case crev of None \<Rightarrow> Pending | Some _ \<Rightarrow> Committed),
      origin_proposal_id = origin\<rparr>"

definition insert_event :: "event \<Rightarrow> int option \<Rightarrow> pystr option \<Rightarrow> log \<Rightarrow> log_error + log" where
  "insert_event e crev origin l =
     (if (\<exists>r \<in> set l. event_id r = event_id e \<or> dedup_key r = dedup_key e) then Inl IntegrityError
      else Inr (l @ [make_row e crev origin]))"

definition row_to_event :: "log_row \<Rightarrow> event" where
  "row_to_event r = event.truncate r"

definition pending_rows :: "log \<Rightarrow> log_row list" where
  "pending_rows l =
     sort_key (\<lambda>r. (actor_id r, actor_seq r)) (filter (\<lambda>r. committed_rev r = None \<and> row_state r = Pending) l)"

definition resolution_key :: "log_row \<Rightarrow> int \<times> int \<times> pystr \<times> int" where
  "resolution_key r =
     (case committed_rev r of
        Some c \<Rightarrow> (0, c, [], 0)
      | None \<Rightarrow> (1, 0, actor_id r, actor_seq r))"

definition entity_rows :: "log \<Rightarrow> pystr \<Rightarrow> pystr \<Rightarrow> log_row list" where
  "entity_rows l c e =
     sort_key resolution_key
       (filter (\<lambda>r. collection r = c \<and> entity_id r = e \<and> \<not> terminal_rejected (row_state r)) l)"

definition collection_rows :: "log \<Rightarrow> pystr option \<Rightarrow> log_row list" where
  "collection_rows l c =
     sort_key resolution_key
       (filter (\<lambda>r. \<not> terminal_rejected (row_state r) \<and>
          (case c of None \<Rightarrow> True | Some n \<Rightarrow> collection r = n)) l)"

definition event_row :: "log \<Rightarrow> pystr \<Rightarrow> int \<Rightarrow> log_row option" where
  "event_row l a n = List.find (\<lambda>r. actor_id r = a \<and> actor_seq r = n) l"

definition event_by_id :: "log \<Rightarrow> pystr \<Rightarrow> log_row option" where
  "event_by_id l i = List.find (\<lambda>r. event_id r = i) l"

text \<open>An update of the row with the given primary key.\<close>

definition update_row :: "pystr \<Rightarrow> (log_row \<Rightarrow> log_row) \<Rightarrow> log \<Rightarrow> log" where
  "update_row i f l = map (\<lambda>r. if event_id r = i then f r else r) l"

definition mark_proposal_origin :: "pystr \<Rightarrow> int \<Rightarrow> pystr \<Rightarrow> log \<Rightarrow> log" where
  "mark_proposal_origin a n proposal l =
     (case event_row l a n of
        None \<Rightarrow> l
      | Some r \<Rightarrow> update_row (event_id r) (\<lambda>r. r\<lparr>origin_proposal_id := Some proposal\<rparr>) l)"

section \<open>The sink\<close>

record event_signer =
  signer_key :: pystr
  signer_policy :: pystr

record sink =
  sink_actor :: pystr
  sink_signer :: "event_signer option"

definition make_sink :: "pystr \<Rightarrow> event_signer option \<Rightarrow> bool \<Rightarrow> log_error + sink" where
  "make_sink a signer require_signed =
     (if require_signed \<and> signer = None then Inl SigningRequiredError
      else Inr \<lparr>sink_actor = a, sink_signer = signer\<rparr>)"

text \<open>The envelope the sink assigns, and its signature when there is a signer.\<close>

definition emit_envelope :: "pystr \<Rightarrow> sink \<Rightarrow> domain_event \<Rightarrow> log \<Rightarrow> event" where
  "emit_envelope i k d l = \<lparr>event_id = i, collection = de_collection d, entity_id = de_entity_id d,
     actor_id = sink_actor k, actor_seq = next_actor_seq l (sink_actor k), op = de_op d,
     base_rev = (case sink_signer k of None \<Rightarrow> None
                 | Some _ \<Rightarrow> entity_base_rev l (de_collection d) (de_entity_id d)),
     policy_ref = map_option signer_policy (sink_signer k), payload = de_payload d, sig = None\<rparr>"

definition emit_signed :: "ed25519 \<Rightarrow> sink \<Rightarrow> event \<Rightarrow> log_error + event" where
  "emit_signed ed k e =
     (case sink_signer k of
        None \<Rightarrow> Inr e
      | Some s \<Rightarrow> (case sign ed e (signer_key s) of Inl x \<Rightarrow> Inl (EmitProtocol x) | Inr e' \<Rightarrow> Inr e'))"

text \<open>The handler of \<open>IntegrityError\<close> around the insert.\<close>

definition dup_error :: "log_error + log \<Rightarrow> log_error + log" where
  "dup_error r = (case r of Inl _ \<Rightarrow> Inl DuplicateEventError | Inr l \<Rightarrow> Inr l)"

lemma dup_error_iff [simp]:
  "dup_error r = Inr l \<longleftrightarrow> r = Inr l" "dup_error r = Inl e \<longleftrightarrow> e = DuplicateEventError \<and> (\<exists>x. r = Inl x)"
  by (auto simp: dup_error_def split: sum.splits)

definition emit :: "ed25519 \<Rightarrow> pystr \<Rightarrow> sink \<Rightarrow> domain_event \<Rightarrow> log \<Rightarrow> log_error + log" where
  "emit ed fresh_id k d l =
     (let meta = map_option cm_merge (dget COLLECTION_META (de_collection d)) in
      if meta = Some AuthoritativeTx then Inl AuthoritativeWriteError
      else if meta = Some AppendOnly \<and> de_op d \<noteq> op_append then Inl AppendOnlyWriteError
      else rbind (emit_signed ed k (emit_envelope fresh_id k d l))
             (\<lambda>e. dup_error (insert_event e None None l)))"

section \<open>The log invariant\<close>

text \<open>Primary key, dedup floor, and the state column in step with the committed revision.\<close>

definition log_ok :: "log \<Rightarrow> bool" where
  "log_ok l \<longleftrightarrow> distinct (map event_id l) \<and> distinct (map dedup_key l) \<and>
     (\<forall>r \<in> set l. (committed_rev r \<noteq> None) = (row_state r = Committed))"

text \<open>The part of it every lookup by key rests on.\<close>

definition keyed :: "log \<Rightarrow> bool" where
  "keyed l \<longleftrightarrow> distinct (map event_id l) \<and> distinct (map dedup_key l)"

lemma log_ok_keyed: "log_ok l \<Longrightarrow> keyed l"
  by (simp add: log_ok_def keyed_def)

lemma keyed_id: "keyed l \<Longrightarrow> r \<in> set l \<Longrightarrow> s \<in> set l \<Longrightarrow> event_id r = event_id s \<Longrightarrow> r = s"
  by (auto simp: keyed_def distinct_map inj_on_def)

lemma keyed_dedup: "keyed l \<Longrightarrow> r \<in> set l \<Longrightarrow> s \<in> set l \<Longrightarrow> dedup_key r = dedup_key s \<Longrightarrow> r = s"
  by (auto simp: keyed_def distinct_map inj_on_def)

text \<open>The actor's sequence numbers are \<open>1..n\<close>.\<close>

definition gapless :: "log \<Rightarrow> pystr \<Rightarrow> bool" where
  "gapless l a \<longleftrightarrow> (\<exists>n \<ge> 0. actor_seq ` {r \<in> set l. actor_id r = a} = {1..n})"

lemma make_row_simps [simp]:
  "event_id (make_row e crev orig) = event_id e" "collection (make_row e crev orig) = collection e"
  "entity_id (make_row e crev orig) = entity_id e" "actor_id (make_row e crev orig) = actor_id e"
  "actor_seq (make_row e crev orig) = actor_seq e" "op (make_row e crev orig) = op e"
  "base_rev (make_row e crev orig) = base_rev e" "payload (make_row e crev orig) = payload e"
  "policy_ref (make_row e crev orig) = policy_ref e" "sig (make_row e crev orig) = sig e"
  "committed_rev (make_row e crev orig) = crev" "origin_proposal_id (make_row e crev orig) = orig"
  "row_state (make_row e crev orig) = (case crev of None \<Rightarrow> Pending | Some _ \<Rightarrow> Committed)"
  by (simp_all add: make_row_def event.defs)

lemma row_to_event_make_row [simp]: "row_to_event (make_row e crev orig) = e"
  by (cases e) (simp add: row_to_event_def make_row_def event.defs)

lemma dedup_key_make_row [simp]: "dedup_key (make_row e crev orig) = dedup_key e"
  by (simp add: dedup_key_def)

lemma insert_event_Inr:
  "insert_event e crev orig l = Inr l' \<longleftrightarrow>
   l' = l @ [make_row e crev orig] \<and> event_id e \<notin> event_id ` set l \<and> dedup_key e \<notin> dedup_key ` set l"
  by (auto simp: insert_event_def image_iff eq_commute)

lemma insert_event_ok: "log_ok l \<Longrightarrow> insert_event e crev orig l = Inr l' \<Longrightarrow> log_ok l'"
  by (auto simp: insert_event_Inr log_ok_def split: option.splits)

lemma max_of_Some: "max_of xs = Some m \<Longrightarrow> m \<in> set xs \<and> (\<forall>x \<in> set xs. x \<le> m)"
  by (auto simp: max_of_def split: if_splits)

lemma max_of_None [simp]: "max_of xs = None \<longleftrightarrow> xs = []"
  by (simp add: max_of_def)

lemma next_actor_seq_greater: "r \<in> set l \<Longrightarrow> actor_id r = a \<Longrightarrow> actor_seq r < next_actor_seq l a"
  by (auto simp: next_actor_seq_def filter_empty_conv split: option.splits dest!: max_of_Some)

text \<open>The assigned number is never taken: the unique constraint cannot fire for it.\<close>

lemma next_actor_seq_fresh: "(a, next_actor_seq l a) \<notin> dedup_key ` set l"
  using next_actor_seq_greater by (fastforce simp: dedup_key_def)

lemma next_actor_seq_gapless:
  assumes "actor_seq ` {r \<in> set l. actor_id r = a} = {1..n}" "0 \<le> n"
  shows "next_actor_seq l a = n + 1"
proof -
  define xs where "xs = map actor_seq (filter (\<lambda>r. actor_id r = a) l)"
  have s: "set xs = {1..n}" using assms(1) by (simp add: xs_def)
  show ?thesis
  proof (cases "xs = []")
    case True
    with s have "{1..n} = {}" by simp
    with assms(2) have "n = 0" by simp
    with True show ?thesis by (simp add: next_actor_seq_def xs_def [symmetric] max_of_def)
  next
    case False
    with s have "{1..n} \<noteq> {}" by (metis set_empty)
    then have "Max {1..n} = n" by (intro Max_eqI) auto
    with False show ?thesis by (simp add: next_actor_seq_def xs_def [symmetric] max_of_def s)
  qed
qed

lemma gapless_insert:
  assumes "gapless l a" "insert_event e crev orig l = Inr l'" "actor_seq e = next_actor_seq l (actor_id e)"
  shows "gapless l' a"
proof -
  from assms(1) obtain n where n: "0 \<le> n" "actor_seq ` {r \<in> set l. actor_id r = a} = {1..n}"
    by (auto simp: gapless_def)
  have l': "l' = l @ [make_row e crev orig]" using assms(2) by (simp add: insert_event_Inr)
  show ?thesis
  proof (cases "actor_id e = a")
    case True
    have "{r \<in> set l'. actor_id r = a} = insert (make_row e crev orig) {r \<in> set l. actor_id r = a}"
      using True by (auto simp: l')
    then have "actor_seq ` {r \<in> set l'. actor_id r = a} = insert (n + 1) {1..n}"
      using n True assms(3) by (simp add: next_actor_seq_gapless [OF n(2,1)])
    also have "\<dots> = {1..n + 1}" using n(1) by auto
    finally show ?thesis using n(1) by (auto simp: gapless_def intro!: exI [of _ "n + 1"])
  next
    case False
    then have "{r \<in> set l'. actor_id r = a} = {r \<in> set l. actor_id r = a}" by (auto simp: l')
    with assms(1) show ?thesis by (simp add: gapless_def)
  qed
qed

section \<open>What an emit guarantees\<close>

lemma sign_fields: "sign ed e k = Inr e' \<Longrightarrow> e' = e\<lparr>sig := sig e'\<rparr>"
  by (auto simp: sign_def rbind_Inr_iff)

lemma emit_signed_fields: "emit_signed ed k e = Inr e' \<Longrightarrow> e' = e\<lparr>sig := sig e'\<rparr>"
  by (auto simp: emit_signed_def split: option.splits sum.splits dest: sign_fields)

lemma emit_Inr:
  "emit ed i k d l = Inr l' \<longleftrightarrow>
   (\<forall>m. dget COLLECTION_META (de_collection d) = Some m \<longrightarrow>
      cm_merge m \<noteq> AuthoritativeTx \<and> (cm_merge m = AppendOnly \<longrightarrow> de_op d = op_append)) \<and>
   (\<exists>e. emit_signed ed k (emit_envelope i k d l) = Inr e \<and> insert_event e None None l = Inr l')"
  by (auto simp: emit_def Let_def rbind_Inr_iff)

lemma emit_signed_envelope:
  assumes "emit_signed ed k (emit_envelope i k d l) = Inr e"
  shows "event_id e = i" "actor_id e = sink_actor k" "actor_seq e = next_actor_seq l (sink_actor k)"
    "dedup_key e = (sink_actor k, next_actor_seq l (sink_actor k))"
    "collection e = de_collection d" "entity_id e = de_entity_id d" "op e = de_op d"
    "payload e = de_payload d" "base_rev e = base_rev (emit_envelope i k d l)"
    "policy_ref e = map_option signer_policy (sink_signer k)"
  using emit_signed_fields [OF assms]
  by (cases e; simp add: emit_envelope_def dedup_key_def)+

lemma emit_row:
  assumes "emit ed i k d l = Inr l'"
  obtains e where "emit_signed ed k (emit_envelope i k d l) = Inr e" "l' = l @ [make_row e None None]"
    "insert_event e None None l = Inr l'"
  using assms by (auto simp: emit_Inr insert_event_Inr)

lemma emit_log_ok: "log_ok l \<Longrightarrow> emit ed i k d l = Inr l' \<Longrightarrow> log_ok l'"
  by (erule emit_row) (rule insert_event_ok)

lemma emit_gapless: "gapless l a \<Longrightarrow> emit ed i k d l = Inr l' \<Longrightarrow> gapless l' a"
  by (erule emit_row) (rule gapless_insert, auto simp: emit_signed_envelope)

text \<open>A fresh event id is all an emit needs: the sequence number cannot collide.\<close>

lemma emit_no_duplicate:
  assumes "emit ed i k d l = Inl DuplicateEventError"
  shows "i \<in> event_id ` set l"
proof -
  obtain e where e: "emit_signed ed k (emit_envelope i k d l) = Inr e"
    and ins: "\<exists>x. insert_event e None None l = Inl x"
  proof -
    have "emit_signed ed k (emit_envelope i k d l) \<noteq> Inl DuplicateEventError"
      by (simp add: emit_signed_def split: option.splits sum.splits)
    with assms that show thesis
      by (auto simp: emit_def Let_def rbind_Inl_iff split: if_splits)
  qed
  from ins have "event_id e \<in> event_id ` set l \<or> dedup_key e \<in> dedup_key ` set l"
    by (force simp: insert_event_def split: if_splits)
  then show ?thesis
    using next_actor_seq_fresh [of "sink_actor k" l] by (simp add: emit_signed_envelope [OF e])
qed

text \<open>With a signer the stored row verifies under the device's public key.\<close>

lemma emit_verifies:
  assumes "ed25519_ok ed" "emit ed i k d l = Inr l'" "sink_signer k = Some s"
    "public_key_of ed (signer_key s) = Inr pk"
  shows "verify ed (row_to_event (last l')) pk = Inr True"
  using assms(2)
proof (rule emit_row)
  fix e assume e: "emit_signed ed k (emit_envelope i k d l) = Inr e" "l' = l @ [make_row e None None]"
  then have "sign ed (emit_envelope i k d l) (signer_key s) = Inr e"
    using assms(3) by (auto simp: emit_signed_def split: sum.splits)
  with assms show ?thesis by (simp add: e(2) verify_sign)
qed

section \<open>Resolution order\<close>

text \<open>Committed rows come first in commit order, pending ones last by actor and sequence number; the
  order of the stored rows is irrelevant when the keys are distinct.\<close>

lemma resolution_key_less:
  "committed_rev r = Some c \<Longrightarrow> committed_rev r' = None \<Longrightarrow> resolution_key r < resolution_key r'"
  by (simp add: resolution_key_def)

lemma resolution_key_committed:
  "committed_rev r = Some c \<Longrightarrow> committed_rev r' = Some c' \<Longrightarrow>
   resolution_key r \<le> resolution_key r' \<longleftrightarrow> c \<le> c'"
  by (auto simp: resolution_key_def)

lemma entity_rows_sorted: "sorted (map resolution_key (entity_rows l c e))"
  by (simp add: entity_rows_def)

lemma set_entity_rows:
  "set (entity_rows l c e) = {r \<in> set l. collection r = c \<and> entity_id r = e \<and> \<not> terminal_rejected (row_state r)}"
  by (auto simp: entity_rows_def)

lemma set_pending_rows: "set (pending_rows l) = {r \<in> set l. committed_rev r = None \<and> row_state r = Pending}"
  by (auto simp: pending_rows_def)

lemma pending_rows_log_ok: "log_ok l \<Longrightarrow> set (pending_rows l) = {r \<in> set l. row_state r = Pending}"
  by (auto simp: set_pending_rows log_ok_def)

end
