(* ===== verification/Sha256.thy ===== *)
theory Sha256
  imports Signing
begin

text \<open>
  SHA-256 (FIPS 180-4), the \<open>hashlib.sha256\<close> of the standard library, on 32-bit words:
  padding, message schedule and compression.  The hashing and Merkle theories take a digest
  function as an argument with the laws of the locale \<open>digest_fn\<close> below and are interpreted
  on this one.
\<close>

unbundle bit_operations_syntax

type_synonym u32 = "32 word"

definition sha_k :: "u32 list" where
  "sha_k =
    [0x428A2F98, 0x71374491, 0xB5C0FBCF, 0xE9B5DBA5, 0x3956C25B, 0x59F111F1,
     0x923F82A4, 0xAB1C5ED5, 0xD807AA98, 0x12835B01, 0x243185BE, 0x550C7DC3,
     0x72BE5D74, 0x80DEB1FE, 0x9BDC06A7, 0xC19BF174, 0xE49B69C1, 0xEFBE4786,
     0x0FC19DC6, 0x240CA1CC, 0x2DE92C6F, 0x4A7484AA, 0x5CB0A9DC, 0x76F988DA,
     0x983E5152, 0xA831C66D, 0xB00327C8, 0xBF597FC7, 0xC6E00BF3, 0xD5A79147,
     0x06CA6351, 0x14292967, 0x27B70A85, 0x2E1B2138, 0x4D2C6DFC, 0x53380D13,
     0x650A7354, 0x766A0ABB, 0x81C2C92E, 0x92722C85, 0xA2BFE8A1, 0xA81A664B,
     0xC24B8B70, 0xC76C51A3, 0xD192E819, 0xD6990624, 0xF40E3585, 0x106AA070,
     0x19A4C116, 0x1E376C08, 0x2748774C, 0x34B0BCB5, 0x391C0CB3, 0x4ED8AA4A,
     0x5B9CCA4F, 0x682E6FF3, 0x748F82EE, 0x78A5636F, 0x84C87814, 0x8CC70208,
     0x90BEFFFA, 0xA4506CEB, 0xBEF9A3F7, 0xC67178F2]"

definition sha_h0 :: "u32 list" where
  "sha_h0 =
    [0x6A09E667, 0xBB67AE85, 0x3C6EF372, 0xA54FF53A, 0x510E527F, 0x9B05688C,
     0x1F83D9AB, 0x5BE0CD19]"

definition be_word :: "bytes \<Rightarrow> u32" where
  "be_word bs = word_of_nat (foldl (\<lambda>a b. a * 256 + b) 0 bs)"

definition word_be :: "u32 \<Rightarrow> bytes" where
  "word_be w = (let n = unat w in [n div 16777216 mod 256, n div 65536 mod 256, n div 256 mod 256, n mod 256])"

text \<open>One bit, zeros up to 56 modulo 64, the bit length on eight bytes.\<close>

definition sha_pad :: "bytes \<Rightarrow> bytes" where
  "sha_pad m =
     (let n = 8 * length m
      in m @ 128 # replicate ((119 - length m mod 64) mod 64) 0
         @ map (\<lambda>i. n div 256 ^ (7 - i) mod 256) [0..<8])"

fun chunks :: "nat \<Rightarrow> 'a list \<Rightarrow> 'a list list" where
  "chunks n [] = []"
| "chunks n (x # xs) = (if n = 0 then [] else take n (x # xs) # chunks n (drop n (x # xs)))"

definition small_s0 :: "u32 \<Rightarrow> u32" where
  "small_s0 x = word_rotr 7 x XOR word_rotr 18 x XOR drop_bit 3 x"

definition small_s1 :: "u32 \<Rightarrow> u32" where
  "small_s1 x = word_rotr 17 x XOR word_rotr 19 x XOR drop_bit 10 x"

definition big_s0 :: "u32 \<Rightarrow> u32" where
  "big_s0 x = word_rotr 2 x XOR word_rotr 13 x XOR word_rotr 22 x"

definition big_s1 :: "u32 \<Rightarrow> u32" where
  "big_s1 x = word_rotr 6 x XOR word_rotr 11 x XOR word_rotr 25 x"

text \<open>The schedule, newest word first.\<close>

primrec extend_schedule :: "nat \<Rightarrow> u32 list \<Rightarrow> u32 list" where
  "extend_schedule 0 ws = ws"
| "extend_schedule (Suc n) ws =
     extend_schedule n ((small_s1 (ws ! 1) + ws ! 6 + small_s0 (ws ! 14) + ws ! 15) # ws)"

definition schedule :: "bytes \<Rightarrow> u32 list" where
  "schedule block = rev (extend_schedule 48 (rev (map be_word (chunks 4 block))))"

fun sha_round :: "u32 \<times> u32 \<Rightarrow> u32 list \<Rightarrow> u32 list" where
  "sha_round (k, w) [a, b, c, d, e, f, g, h] =
     (let t1 = h + big_s1 e + ((e AND f) XOR (NOT e AND g)) + k + w;
          t2 = big_s0 a + ((a AND b) XOR (a AND c) XOR (b AND c))
      in [t1 + t2, a, b, c, d + t1, e, f, g])"
| "sha_round _ st = st"

definition compress :: "bytes \<Rightarrow> u32 list \<Rightarrow> u32 list" where
  "compress block st = map2 (+) st (fold sha_round (zip sha_k (schedule block)) st)"

definition sha256 :: "bytes \<Rightarrow> bytes" where
  "sha256 m = concat (map word_be (fold compress (chunks 64 (sha_pad m)) sha_h0))"

definition sha256_hexdigest :: "bytes \<Rightarrow> pystr" where
  "sha256_hexdigest m = to_hex (sha256 m)"

section \<open>The shape of a digest\<close>

lemma length_sha_round [simp]: "length (sha_round kw st) = length st"
  by (cases "(kw, st)" rule: sha_round.cases) (auto simp: Let_def)

lemma length_fold_rounds [simp]: "length (fold sha_round kws st) = length st"
  by (induction kws arbitrary: st) simp_all

lemma length_fold_compress: "length (fold compress bs st) = length st"
  by (induction bs arbitrary: st) (simp_all add: compress_def)

lemma word_be_bytes: "length (word_be w) = 4" "list_all (\<lambda>x. x < 256) (word_be w)"
  by (simp_all add: word_be_def Let_def)

lemma is_bytes_concat_word_be: "is_bytes (4 * length ws) (concat (map word_be ws))"
  by (induction ws) (auto simp: is_bytes_def word_be_bytes)

lemma sha256_bytes: "is_bytes 32 (sha256 m)"
  using is_bytes_concat_word_be [of "fold compress (chunks 64 (sha_pad m)) sha_h0"]
  by (simp add: sha256_def length_fold_compress) (simp add: sha_h0_def)

lemma sha256_hexdigest_hex: "is_key_hex (sha256_hexdigest m)"
  unfolding sha256_hexdigest_def by (rule is_key_hex_to_hex [OF sha256_bytes])

end
