(* ===== verification/Ids.thy ===== *)
theory Ids
  imports Prelude
begin

text \<open>
  ULIDs and Crockford Base32 (\<open>kantaq_db/ids.py\<close>).  The module's two globals are the record
  \<open>ulid_state\<close>; the clock reading and the ten random bytes of \<open>os.urandom\<close> are arguments of
  \<open>new_ulid\<close>.  The lemmas show that the encoding is order preserving and invertible, hence that
  consecutive ids sort in the order they are minted -- except in the one branch that
  increments the random part without the overflow check, where \<open>new_ulid_backward_wraps\<close>
  exhibits the smaller id.
\<close>

definition CROCKFORD :: pystr where
  "CROCKFORD = lit ''0123456789ABCDEFGHJKMNPQRSTVWXYZ''"

definition crockford_decode :: "nat \<Rightarrow> nat option" where
  "crockford_decode ch = map_of (zip CROCKFORD [0..<32]) ch"

definition TIME_LEN :: nat where "TIME_LEN = 10"
definition RAND_LEN :: nat where "RAND_LEN = 16"
definition ULID_LEN :: nat where "ULID_LEN = TIME_LEN + RAND_LEN"
definition TIMESTAMP_MAX :: int where "TIMESTAMP_MAX = 2 ^ 48 - 1"
definition RANDOM_MAX :: int where "RANDOM_MAX = 2 ^ 80 - 1"

text \<open>The loop of \<open>_encode\<close> fills the buffer from the right with the low five bits.\<close>

fun encode :: "nat \<Rightarrow> nat \<Rightarrow> pystr" where
  "encode v 0 = []"
| "encode v (Suc n) = encode (v div 32) n @ [CROCKFORD ! (v mod 32)]"

datatype value_error = ValueError

definition encode_base32 :: "int \<Rightarrow> nat \<Rightarrow> value_error + pystr" where
  "encode_base32 v n =
     (if v < 0 then Inl ValueError
      else if v \<ge> 2 ^ (5 * n) then Inl ValueError
      else Inr (encode (nat v) n))"

record ulid_state =
  last_ms :: int
  last_random :: int

definition ulid_init :: ulid_state where
  "ulid_init = \<lparr>last_ms = -1, last_random = 0\<rparr>"

definition render_ulid :: "int \<Rightarrow> int \<Rightarrow> pystr" where
  "render_ulid ms rnd =
     encode (nat (ms mod (TIMESTAMP_MAX + 1))) TIME_LEN @ encode (nat (rnd mod (RANDOM_MAX + 1))) RAND_LEN"

definition new_ulid :: "int \<Rightarrow> int option \<Rightarrow> int \<Rightarrow> ulid_state \<Rightarrow> pystr \<times> ulid_state" where
  "new_ulid now_ms timestamp_ms urandom s =
     (let ms = (case timestamp_ms of None \<Rightarrow> now_ms | Some t \<Rightarrow> t) in
      if ms = last_ms s then
        let s1 = s\<lparr>last_random := last_random s + 1\<rparr> in
        if last_random s1 > RANDOM_MAX then
          let s2 = s1\<lparr>last_ms := last_ms s1 + 1, last_random := urandom\<rparr>
          in (render_ulid (last_ms s2) (last_random s2), s2)
        else (render_ulid ms (last_random s1), s1)
      else if ms < last_ms s then
        let s1 = s\<lparr>last_random := last_random s + 1\<rparr>
        in (render_ulid (last_ms s) (last_random s1), s1)
      else
        let s1 = s\<lparr>last_ms := ms, last_random := urandom\<rparr>
        in (render_ulid ms (last_random s1), s1))"

definition is_ulid :: "pystr \<Rightarrow> bool" where
  "is_ulid value \<longleftrightarrow> length value = ULID_LEN \<and> list_all (\<lambda>ch. crockford_decode ch \<noteq> None) value"

definition ulid_timestamp_ms :: "pystr \<Rightarrow> value_error + nat" where
  "ulid_timestamp_ms value =
     (if \<not> is_ulid value then Inl ValueError
      else Inr (fold (\<lambda>ch ms. ms * 32 + the (crockford_decode ch)) (take TIME_LEN value) 0))"

section \<open>The encoding\<close>

lemma CROCKFORD_explicit:
  "CROCKFORD = [48,49,50,51,52,53,54,55,56,57,65,66,67,68,69,70,71,72,74,75,77,78,80,81,82,83,84,86,87,88,89,90]"
  by (simp add: CROCKFORD_def lit_def)

lemma length_CROCKFORD [simp]: "length CROCKFORD = 32"
  by (simp add: CROCKFORD_explicit)

lemma CROCKFORD_sorted: "sorted_wrt (<) CROCKFORD"
  by (simp add: CROCKFORD_explicit)

lemma CROCKFORD_less: "i < j \<Longrightarrow> j < 32 \<Longrightarrow> CROCKFORD ! i < CROCKFORD ! j"
  using CROCKFORD_sorted by (simp add: sorted_wrt_iff_nth_less)

lemma CROCKFORD_distinct: "distinct CROCKFORD"
  by (simp add: CROCKFORD_explicit)

lemma crockford_decode_nth [simp]: "i < 32 \<Longrightarrow> crockford_decode (CROCKFORD ! i) = Some i"
  unfolding crockford_decode_def by (subst map_of_zip_nth) (simp_all add: CROCKFORD_distinct)

lemma length_encode [simp]: "length (encode v n) = n"
  by (induction v n rule: encode.induct) simp_all

lemma encode_alphabet: "list_all (\<lambda>ch. crockford_decode ch \<noteq> None) (encode v n)"
  by (induction v n rule: encode.induct) simp_all

lemma fold_decode_encode:
  "v < 32 ^ n \<Longrightarrow> fold (\<lambda>ch ms. ms * 32 + the (crockford_decode ch)) (encode v n) 0 = v"
proof (induction v n rule: encode.induct)
  case (2 v n)
  then have "v div 32 < 32 ^ n" by (simp add: less_mult_imp_div_less mult.commute)
  with 2 show ?case by simp
qed simp

lemma less_append: "length a = length (b :: nat list) \<Longrightarrow> a < b \<Longrightarrow> a @ c < b @ d"
  by (induction a b rule: list_induct2) auto

lemma less_append_same: "c < d \<Longrightarrow> a @ c < a @ (d :: nat list)"
  by (induction a) auto

lemma encode_mono: "v < w \<Longrightarrow> w < 32 ^ n \<Longrightarrow> encode v n < encode w n"
proof (induction v n arbitrary: w rule: encode.induct)
  case (2 v n)
  then have w: "w div 32 < 32 ^ n" by (simp add: less_mult_imp_div_less mult.commute)
  show ?case
  proof (cases "v div 32 = w div 32")
    case True
    then have "v mod 32 < w mod 32" using 2(2)
      by (metis add_less_cancel_left div_mult_mod_eq)
    with True show ?thesis by (auto intro!: less_append_same CROCKFORD_less)
  next
    case False
    then have "v div 32 < w div 32" using 2(2) by (meson div_le_mono le_neq_implies_less less_imp_le)
    with 2(1) w show ?thesis by (auto intro!: less_append)
  qed
qed simp

lemma encode_inj: "v < 32 ^ n \<Longrightarrow> w < 32 ^ n \<Longrightarrow> encode v n = encode w n \<Longrightarrow> v = w"
  by (metis fold_decode_encode)

section \<open>ULIDs\<close>

definition ulid_ok :: "ulid_state \<Rightarrow> bool" where
  "ulid_ok s \<longleftrightarrow> -1 \<le> last_ms s \<and> 0 \<le> last_random s \<and> last_random s \<le> RANDOM_MAX"

text \<open>The id the state stands for: the one minted last.\<close>

definition current_ulid :: "ulid_state \<Rightarrow> pystr" where
  "current_ulid s = render_ulid (last_ms s) (last_random s)"

lemma new_ulid_current: "new_ulid now ts r s = (u, s') \<Longrightarrow> u = current_ulid s'"
  by (auto simp: new_ulid_def Let_def current_ulid_def split: if_splits)

lemma render_is_ulid: "is_ulid (render_ulid ms rnd)"
  by (simp add: is_ulid_def render_ulid_def ULID_LEN_def encode_alphabet [simplified])

lemma render_less:
  assumes "0 \<le> ms" "ms \<le> TIMESTAMP_MAX" "0 \<le> ms'" "ms' \<le> TIMESTAMP_MAX"
    and "0 \<le> r" "r \<le> RANDOM_MAX" "0 \<le> r'" "r' \<le> RANDOM_MAX"
    and "ms < ms' \<or> ms = ms' \<and> r < r'"
  shows "render_ulid ms r < render_ulid ms' r'"
proof -
  have m: "ms mod (TIMESTAMP_MAX + 1) = ms" "ms' mod (TIMESTAMP_MAX + 1) = ms'"
    "r mod (RANDOM_MAX + 1) = r" "r' mod (RANDOM_MAX + 1) = r'"
    using assms by (auto intro: mod_pos_pos_trivial)
  have b: "nat ms' < 32 ^ TIME_LEN" "nat r' < 32 ^ RAND_LEN"
    using assms by (auto simp: TIME_LEN_def RAND_LEN_def TIMESTAMP_MAX_def RANDOM_MAX_def nat_less_iff)
  show ?thesis
    using assms(9)
  proof
    assume "ms < ms'"
    with assms b show ?thesis unfolding render_ulid_def m
      by (intro less_append encode_mono) simp_all
  next
    assume "ms = ms' \<and> r < r'"
    with assms b show ?thesis unfolding render_ulid_def m
      by (auto intro!: less_append_same encode_mono)
  qed
qed

lemma ulid_timestamp_render:
  assumes "0 \<le> ms" "ms \<le> TIMESTAMP_MAX"
  shows "ulid_timestamp_ms (render_ulid ms r) = Inr (nat ms)"
proof -
  have "ms mod (TIMESTAMP_MAX + 1) = ms" using assms by (auto intro: mod_pos_pos_trivial)
  moreover have "nat ms < 32 ^ TIME_LEN"
    using assms by (auto simp: TIME_LEN_def TIMESTAMP_MAX_def nat_less_iff)
  ultimately show ?thesis
    using render_is_ulid [of ms r] by (simp add: ulid_timestamp_ms_def render_ulid_def fold_decode_encode)
qed

text \<open>The state stays in range and the next id sorts after the last one.\<close>

lemma new_ulid_monotone:
  assumes "ulid_ok s" "0 \<le> last_ms s" "0 \<le> r" "r \<le> RANDOM_MAX"
    and "new_ulid now ts r s = (u, s')" "last_ms s' \<le> TIMESTAMP_MAX"
    and "(case ts of None \<Rightarrow> now | Some t \<Rightarrow> t) \<ge> last_ms s \<or> last_random s < RANDOM_MAX"
  shows "ulid_ok s'" "current_ulid s < u"
proof -
  have "ulid_ok s' \<and> (last_ms s < last_ms s' \<or> last_ms s = last_ms s' \<and> last_random s < last_random s')"
    using assms by (auto simp: new_ulid_def ulid_ok_def Let_def split: if_splits)
  then show "ulid_ok s'" "current_ulid s < u"
    using assms unfolding new_ulid_current [OF assms(5)] current_ulid_def
    by (auto intro!: render_less simp: ulid_ok_def)
qed

lemma new_ulid_backward_wraps:
  assumes "last_random s = RANDOM_MAX" "ts = Some t" "t < last_ms s"
  shows "fst (new_ulid now ts r s) = render_ulid (last_ms s) 0"
proof -
  have "render_ulid m (RANDOM_MAX + 1) = render_ulid m 0" for m by (simp add: render_ulid_def)
  then show ?thesis using assms by (simp add: new_ulid_def Let_def)
qed

end
