(* ===== verification/Merge.thy ===== *)
theory Merge
  imports EventLog Sha256 Ids
begin

text \<open>
  The conflict-merge decision (\<open>sync_engine/merge.py\<close>) and the deterministic conflict id.
  \<open>detect_merge\<close> keeps the source's order: tombstone, append, edit-vs-delete, then one decision
  per payload field against the last committed setter in the window.  Values are compared
  through the canonical codec, which may refuse them, so the result is a sum.  The lemmas give
  the contention window its meaning: a field conflicts exactly when some event the write did
  not see set it last to a value with different canonical bytes.
\<close>

section \<open>Committed events\<close>

record committed_event =
  revision :: int
  cevent :: event

datatype field_verdict = FApply | FIdempotent | FConflict

datatype entity_verdict =
    EApply | EAutoMerge | EIdempotent | EConflict | EEditVsDelete | EDeleteIdempotent

definition CONFLICT_ID_DOMAIN :: bytes where
  "CONFLICT_ID_DOMAIN = lit ''kantaq:conflict-id:v1'' @ [0]"

definition ENTITY_FIELD :: pystr where
  "ENTITY_FIELD = lit ''__entity__''"

definition ID_BITS :: nat where "ID_BITS = 130"

definition from_bytes_big :: "bytes \<Rightarrow> nat" where
  "from_bytes_big bs = foldl (\<lambda>n b. n * 256 + b) 0 bs"

datatype merge_error = MergeSchema | UnicodeEncodeError | MergeValueError

text \<open>The digest of SHA-256 is the argument \<open>D\<close>; the strings are joined with \<open>0x1f\<close> and encoded.\<close>

definition conflict_material :: "pystr \<Rightarrow> pystr \<Rightarrow> int list \<Rightarrow> pystr" where
  "conflict_material entity fld revs =
     entity @ [31] @ fld @ [31] @ (case map int_str (sort revs) of
        [] \<Rightarrow> [] | s # ss \<Rightarrow> foldl (\<lambda>acc t. acc @ [58] @ t) s ss)"

definition conflict_record_id ::
    "(bytes \<Rightarrow> bytes) \<Rightarrow> pystr \<Rightarrow> pystr \<Rightarrow> int list \<Rightarrow> merge_error + pystr" where
  "conflict_record_id D entity fld revs =
     (case utf8_encode (conflict_material entity fld revs) of
        None \<Rightarrow> Inl UnicodeEncodeError
      | Some canonical \<Rightarrow>
          let value = from_bytes_big (take 17 (D (CONFLICT_ID_DOMAIN @ canonical))) mod 2 ^ ID_BITS
          in (case encode_base32 (int value) 26 of Inl _ \<Rightarrow> Inl MergeValueError | Inr s \<Rightarrow> Inr s))"

section \<open>The decision\<close>

record field_decision =
  fd_field :: pystr
  fd_verdict :: field_verdict
  fd_contending :: "int option"
  fd_head_value :: pyval
  fd_incoming_value :: pyval
  fd_conflict_id :: "pystr option"

record merge_outcome =
  mo_verdict :: entity_verdict
  mo_decisions :: "field_decision list"
  mo_head_rev :: int

definition mo_conflicts :: "merge_outcome \<Rightarrow> field_decision list" where
  "mo_conflicts m = filter (\<lambda>d. fd_verdict d = FConflict) (mo_decisions m)"

definition lift_schema :: "protocol_error + 'a \<Rightarrow> merge_error + 'a" where
  "lift_schema r = (case r of Inl _ \<Rightarrow> Inl MergeSchema | Inr x \<Rightarrow> Inr x)"

definition canon_eq :: "pyval \<Rightarrow> pyval \<Rightarrow> merge_error + bool" where
  "canon_eq a b =
     rbind (lift_schema (canonicalize a)) (\<lambda>x. rbind (lift_schema (canonicalize b)) (\<lambda>y. Inr (x = y)))"

text \<open>\<open>max(setters, key=revision)\<close>: the first of the largest.\<close>

fun latest :: "committed_event \<Rightarrow> committed_event list \<Rightarrow> committed_event" where
  "latest m [] = m"
| "latest m (c # cs) = latest (if revision m < revision c then c else m) cs"

definition field_setters :: "committed_event list \<Rightarrow> pystr \<Rightarrow> committed_event list" where
  "field_setters window fld =
     filter (\<lambda>c. op (cevent c) \<noteq> op_tombstone \<and> dget (payload (cevent c)) fld \<noteq> None) window"

definition field_head :: "committed_event list \<Rightarrow> pystr \<Rightarrow> committed_event option" where
  "field_head window fld =
     (case field_setters window fld of [] \<Rightarrow> None | c # cs \<Rightarrow> Some (latest c cs))"

definition head_of :: "committed_event list \<Rightarrow> int" where
  "head_of pre = (case max_of (map revision pre) of None \<Rightarrow> 0 | Some m \<Rightarrow> m)"

definition base_of :: "committed_event \<Rightarrow> int" where
  "base_of inc = (case base_rev (cevent inc) of None \<Rightarrow> 0 | Some b \<Rightarrow> b)"

definition merge_window :: "committed_event list \<Rightarrow> int \<Rightarrow> committed_event list" where
  "merge_window pre base = filter (\<lambda>c. base < revision c \<and> revision c \<le> head_of pre) pre"

definition window_tombstone :: "committed_event list \<Rightarrow> int option" where
  "window_tombstone window = max_of (map revision (filter (\<lambda>c. op (cevent c) = op_tombstone) window))"

definition head_tombstoned :: "committed_event list \<Rightarrow> bool" where
  "head_tombstoned pre \<longleftrightarrow>
     pre \<noteq> [] \<and> op (cevent (last (sort_key revision pre))) = op_tombstone"

definition decide_field ::
    "(bytes \<Rightarrow> bytes) \<Rightarrow> committed_event list \<Rightarrow> committed_event \<Rightarrow> pystr \<times> pyval \<Rightarrow> merge_error + field_decision" where
  "decide_field D window inc fv =
     (let (fld, incoming) = fv in
      case field_head window fld of
        None \<Rightarrow> Inr \<lparr>fd_field = fld, fd_verdict = FApply, fd_contending = None, fd_head_value = PNone,
                     fd_incoming_value = incoming, fd_conflict_id = None\<rparr>
      | Some c \<Rightarrow>
          let head = (case dget (payload (cevent c)) fld of None \<Rightarrow> PNone | Some v \<Rightarrow> v) in
          rbind (canon_eq head incoming) (\<lambda>same.
            if same then
              Inr \<lparr>fd_field = fld, fd_verdict = FIdempotent, fd_contending = Some (revision c),
                   fd_head_value = head, fd_incoming_value = incoming, fd_conflict_id = None\<rparr>
            else
              rbind (conflict_record_id D (entity_id (cevent inc)) fld [revision inc, revision c]) (\<lambda>cid.
              Inr \<lparr>fd_field = fld, fd_verdict = FConflict, fd_contending = Some (revision c),
                   fd_head_value = head, fd_incoming_value = incoming, fd_conflict_id = Some cid\<rparr>)))"

definition overall_verdict :: "field_decision list \<Rightarrow> int \<Rightarrow> int \<Rightarrow> entity_verdict" where
  "overall_verdict ds base head =
     (if list_ex (\<lambda>d. fd_verdict d = FConflict) ds then EConflict
      else if ds \<noteq> [] \<and> list_all (\<lambda>d. fd_verdict d = FIdempotent) ds then EIdempotent
      else if base < head then EAutoMerge
      else EApply)"

definition detect_merge ::
    "(bytes \<Rightarrow> bytes) \<Rightarrow> committed_event list \<Rightarrow> committed_event \<Rightarrow> merge_error + merge_outcome" where
  "detect_merge D pre inc =
     (let head = head_of pre; base = base_of inc; window = merge_window pre base;
          tomb = window_tombstone window in
      if op (cevent inc) = op_tombstone then
        (if head_tombstoned pre \<or> tomb \<noteq> None
         then Inr \<lparr>mo_verdict = EDeleteIdempotent, mo_decisions = [], mo_head_rev = head\<rparr>
         else Inr \<lparr>mo_verdict = EApply, mo_decisions = [], mo_head_rev = head\<rparr>)
      else if op (cevent inc) = op_append then
        Inr \<lparr>mo_verdict = EApply, mo_decisions = [], mo_head_rev = head\<rparr>
      else if (case tomb of None \<Rightarrow> False | Some t \<Rightarrow> base < t) then
        rbind (conflict_record_id D (entity_id (cevent inc)) ENTITY_FIELD [revision inc, the tomb]) (\<lambda>cid.
        Inr \<lparr>mo_verdict = EEditVsDelete,
             mo_decisions = [\<lparr>fd_field = ENTITY_FIELD, fd_verdict = FConflict, fd_contending = tomb,
               fd_head_value = PNone, fd_incoming_value = pdict (payload (cevent inc)),
               fd_conflict_id = Some cid\<rparr>],
             mo_head_rev = head\<rparr>)
      else
        rbind (rmap (decide_field D window inc)
                 (filter (\<lambda>fv. fst fv \<noteq> REVIVE_FIELD) (payload (cevent inc)))) (\<lambda>ds.
        Inr \<lparr>mo_verdict = overall_verdict ds base head, mo_decisions = ds, mo_head_rev = head\<rparr>))"

section \<open>The conflict id\<close>

lemma conflict_record_id_ulid:
  "conflict_record_id D e f revs = Inr cid \<Longrightarrow> is_ulid cid"
  by (auto simp: conflict_record_id_def Let_def encode_base32_def is_ulid_def ULID_LEN_def TIME_LEN_def
      RAND_LEN_def encode_alphabet [simplified] split: option.splits if_splits sum.splits)

text \<open>The masked digest always fits, so the only failure is a lone surrogate in the input.\<close>

lemma conflict_record_id_total:
  "conflict_record_id D e f revs \<noteq> Inl MergeValueError"
proof -
  have "int (n mod 2 ^ 130) < 2 ^ 130" for n
    by (metis of_nat_less_iff of_nat_numeral of_nat_power pos_mod_bound zero_less_power zero_less_numeral mod_less_divisor)
  then have "\<not> int (n mod 2 ^ 130) \<ge> 2 ^ (5 * 26)" for n by (simp add: not_le)
  then show ?thesis
    by (simp add: conflict_record_id_def Let_def encode_base32_def ID_BITS_def split: option.splits)
qed

lemma sort_cong: "mset xs = mset ys \<Longrightarrow> sort xs = sort ys"
  by (rule properties_for_sort) simp_all

lemma conflict_record_id_perm: "mset revs = mset revs' \<Longrightarrow> conflict_record_id D e f revs = conflict_record_id D e f revs'"
  by (simp add: conflict_record_id_def conflict_material_def sort_cong [of revs revs'])

text \<open>The hashed string determines entity, field and the two revisions.\<close>

lemma conflict_material_inj:
  assumes "conflict_material e f [a, b] = conflict_material e' f' [a', b']"
    and "31 \<notin> set e" "31 \<notin> set e'" "31 \<notin> set f" "31 \<notin> set f'"
  shows "e = e' \<and> f = f' \<and> {#a, b#} = {#a', b'#}"
proof -
  have s: "sort [a, b] = [min a b, max a b]" for a b :: int by (auto simp: min_def max_def)
  let ?t = "\<lambda>a b. int_str (min a b) @ 58 # int_str (max a b)"
  have "e @ 31 # f @ 31 # ?t a b = e' @ 31 # f' @ 31 # ?t a' b'"
    using assms(1) unfolding conflict_material_def s by simp
  from append_sep_inj [OF this assms(2,3)] have "e = e'" and 1: "f @ 31 # ?t a b = f' @ 31 # ?t a' b'" by simp_all
  from append_sep_inj [OF 1 assms(4,5)] have "f = f'" and 2: "?t a b = ?t a' b'" by simp_all
  have nc: "58 \<notin> set (int_str i)" for i using int_str_chars [of 58 i] by auto
  from append_sep_inj [OF 2 nc nc]
  have "int_str (min a b) = int_str (min a' b')" "int_str (max a b) = int_str (max a' b')" by simp_all
  then have "min a b = min a' b'" "max a b = max a' b'" by (simp_all add: int_str_inj)
  then have "{#min a b, max a b#} = {#min a' b', max a' b'#}" by simp
  moreover have "{#min x y, max x y#} = {#x, y#}" for x y :: int by (auto simp: min_def max_def add_mset_commute)
  ultimately show ?thesis using \<open>e = e'\<close> \<open>f = f'\<close> by simp
qed

section \<open>What the decision means\<close>

lemma latest_in: "latest m cs \<in> insert m (set cs)"
  by (induction m cs rule: latest.induct) auto

lemma latest_max: "\<forall>c \<in> insert m (set cs). revision c \<le> revision (latest m cs)"
proof (induction m cs rule: latest.induct)
  case (2 m c cs)
  then show ?case by (auto split: if_splits)
qed simp

lemma field_head_Some:
  assumes "field_head w f = Some c"
  shows "c \<in> set w" "op (cevent c) \<noteq> op_tombstone" "dget (payload (cevent c)) f \<noteq> None"
    "\<forall>d \<in> set (field_setters w f). revision d \<le> revision c"
proof -
  from assms obtain m cs where s: "field_setters w f = m # cs" and c: "c = latest m cs"
    by (auto simp: field_head_def split: list.splits)
  have "c \<in> set (field_setters w f)" using latest_in [of m cs] by (simp add: s c)
  then show "c \<in> set w" "op (cevent c) \<noteq> op_tombstone" "dget (payload (cevent c)) f \<noteq> None"
    by (auto simp: field_setters_def)
  show "\<forall>d \<in> set (field_setters w f). revision d \<le> revision c"
    using latest_max [of m cs] by (simp add: s c)
qed

lemma field_head_None: "field_head w f = None \<longleftrightarrow> field_setters w f = []"
  by (simp add: field_head_def split: list.splits)

lemma merge_window_caught_up: "head_of p \<le> base \<Longrightarrow> merge_window p base = []"
  by (auto simp: merge_window_def filter_empty_conv)

text \<open>A write based on the head never conflicts.\<close>

lemma decide_field_empty:
  "decide_field D [] inc fv = Inr \<lparr>fd_field = fst fv, fd_verdict = FApply, fd_contending = None,
     fd_head_value = PNone, fd_incoming_value = snd fv, fd_conflict_id = None\<rparr>"
  by (simp add: decide_field_def field_head_def field_setters_def split_beta)

lemma detect_merge_caught_up:
  assumes "head_of p \<le> base_of inc" "op (cevent inc) \<noteq> op_tombstone"
  shows "\<exists>m. detect_merge D p inc = Inr m \<and> mo_verdict m = EApply \<and> mo_conflicts m = [] \<and>
    list_all (\<lambda>d. fd_verdict d = FApply) (mo_decisions m)"
proof -
  let ?flds = "filter (\<lambda>fv. fst fv \<noteq> REVIVE_FIELD) (payload (cevent inc))"
  have r: "\<exists>ds. rmap (decide_field D [] inc) xs = Inr ds \<and> list_all (\<lambda>d. fd_verdict d = FApply) ds" for xs
    by (induction xs) (auto simp: decide_field_empty)
  then obtain ds where ds: "rmap (decide_field D [] inc) ?flds = Inr ds" "list_all (\<lambda>d. fd_verdict d = FApply) ds"
    by blast
  have "overall_verdict ds (base_of inc) (head_of p) = EApply"
    using ds(2) assms(1) by (cases ds) (auto simp: overall_verdict_def list_ex_iff list_all_iff)
  moreover have "mo_conflicts \<lparr>mo_verdict = v, mo_decisions = ds, mo_head_rev = h\<rparr> = []" for v h
    using ds(2) by (auto simp: mo_conflicts_def list_all_iff filter_empty_conv)
  ultimately show ?thesis
    using assms ds by (auto simp: detect_merge_def Let_def merge_window_caught_up window_tombstone_def
        max_of_def mo_conflicts_def)
qed

text \<open>Disjoint concurrent writes merge silently.\<close>

lemma decide_field_fields: "decide_field D w inc fv = Inr d \<Longrightarrow>
   fd_field d = fst fv \<and> fd_incoming_value d = snd fv \<and>
   (fd_verdict d = FApply \<longleftrightarrow> field_setters w (fst fv) = []) \<and>
   (fd_verdict d = FConflict \<longleftrightarrow> (\<exists>c v b. field_head w (fst fv) = Some c \<and>
      dget (payload (cevent c)) (fst fv) = Some v \<and> canon_eq v (snd fv) = Inr b \<and> \<not> b \<and>
      fd_contending d = Some (revision c) \<and> fd_head_value d = v \<and>
      conflict_record_id D (entity_id (cevent inc)) (fst fv) [revision inc, revision c] = Inr (the (fd_conflict_id d))))"
proof -
  assume *: "decide_field D w inc fv = Inr d"
  have "dget (payload (cevent c)) (fst fv) \<noteq> None" if "field_head w (fst fv) = Some c" for c
    using field_head_Some(3) [OF that] .
  with * show ?thesis
    by (auto simp: decide_field_def Let_def split_beta rbind_Inr_iff field_head_None [symmetric]
        split: option.splits if_splits)
qed

text \<open>The decision depends on the set of committed events only, not on the order a replica holds them in.\<close>

lemma field_head_cong:
  assumes "set w = set w'" "inj_on revision (set w)"
  shows "field_head w f = field_head w' f"
proof (cases "field_head w f")
  case None
  with assms(1) have "field_head w' f = None" by (simp add: field_head_None field_setters_def filter_empty_conv)
  with None show ?thesis by simp
next
  case (Some c)
  have s: "set (field_setters w' f) = set (field_setters w f)" using assms(1) by (auto simp: field_setters_def)
  have "field_setters w f \<noteq> []" using Some field_head_None by force
  with s have "field_setters w' f \<noteq> []" by (metis set_empty)
  then obtain c' where c': "field_head w' f = Some c'" by (cases "field_head w' f") (auto simp: field_head_None)
  note m = field_head_Some [OF Some] and m' = field_head_Some [OF c']
  have "c \<in> set (field_setters w f)" "c' \<in> set (field_setters w' f)"
    using m m' by (simp_all add: field_setters_def)
  then have "revision c = revision c'" using m(4) m'(4) s by force
  moreover have "c \<in> set w" "c' \<in> set w" using m(1) m'(1) assms(1) by simp_all
  ultimately show ?thesis using assms(2) Some c' by (auto dest: inj_onD)
qed

lemma max_of_cong: "set xs = set ys \<Longrightarrow> max_of xs = max_of ys"
  by (auto simp: max_of_def)

lemma detect_merge_perm:
  assumes "mset p = mset p'" "distinct (map revision p)"
  shows "detect_merge D p inc = detect_merge D p' inc"
proof -
  have s: "set p = set p'" by (rule mset_eq_setD) (rule assms)
  have inj: "inj_on revision (set p)" using assms(2) by (simp add: distinct_map)
  have head: "head_of p = head_of p'" using s by (simp add: head_of_def max_of_cong [of "map revision p" "map revision p'"])
  have w: "set (merge_window p b) = set (merge_window p' b)" for b by (auto simp: merge_window_def head s)
  have wi: "inj_on revision (set (merge_window p b))" for b
    by (rule inj_on_subset [OF inj]) (auto simp: merge_window_def)
  have tomb: "window_tombstone (merge_window p b) = window_tombstone (merge_window p' b)" for b
    unfolding window_tombstone_def using w by (intro max_of_cong) simp
  have "sort_key revision p = sort_key revision p'" using assms(1) inj by (rule sort_key_mset_cong)
  then have ht: "head_tombstoned p = head_tombstoned p'" using s by (auto simp: head_tombstoned_def)
  have "decide_field D (merge_window p b) inc = decide_field D (merge_window p' b) inc" for b
    by (simp add: decide_field_def field_head_cong [OF w wi] fun_eq_iff)
  then show ?thesis by (simp add: detect_merge_def Let_def head tomb ht)
qed

text \<open>A patch conflicts with an unseen delete whether or not it carries the revive flag.\<close>

lemma detect_merge_unseen_delete:
  assumes "c \<in> set p" "op (cevent c) = op_tombstone" "base_of inc < revision c"
    and "op (cevent inc) \<noteq> op_tombstone" "op (cevent inc) \<noteq> op_append" "detect_merge D p inc = Inr m"
  shows "mo_verdict m = EEditVsDelete"
proof -
  have "revision c \<le> head_of p"
    using assms(1) by (auto simp: head_of_def split: option.splits dest: max_of_Some)
  with assms have c: "c \<in> set (merge_window p (base_of inc))" by (simp add: merge_window_def)
  then obtain t where t: "window_tombstone (merge_window p (base_of inc)) = Some t"
    using assms(2) by (cases "window_tombstone (merge_window p (base_of inc))")
      (auto simp: window_tombstone_def filter_empty_conv)
  then have "t \<in> revision ` set (merge_window p (base_of inc))"
    unfolding window_tombstone_def by (auto dest!: max_of_Some)
  then have "base_of inc < t" by (auto simp: merge_window_def)
  with t assms(4-6) show ?thesis by (auto simp: detect_merge_def Let_def rbind_Inr_iff)
qed

end
