(* ===== verification/Verify.thy ===== *)
theory Verify
  imports Grants Merge
begin

text \<open>
  Verified ingestion (\<open>sync_engine/verify.py\<close>).  \<open>verify_event\<close> keeps the source's order of
  checks and is total: what the source catches as \<open>SchemaViolation\<close> is a verdict here too.  The
  verdict's prose is the datatype \<open>reason\<close>, one constructor per branch.  The verifying backend
  wraps the inner port's operations, given as arguments; the denials it reports through
  \<open>on_deny\<close> are returned as a list.
\<close>

section \<open>One event\<close>

datatype verify_code = VOk | VUnsigned | VInvalidSignature | VPolicyDenied | VSchemaViolation

datatype reason =
    NoReason
  | PreCutover
  | NoSignature
  | NoGrant
  | BadGrant grant_reason
  | WrongSubject
  | WrongWorkspace
  | VerbMissing
  | BadSignature
  | NotCanonical

record verdict =
  v_ok :: bool
  v_code :: verify_code
  v_reason :: reason

definition accept :: "reason \<Rightarrow> verdict" where
  "accept r = \<lparr>v_ok = True, v_code = VOk, v_reason = r\<rparr>"

definition refuse :: "verify_code \<Rightarrow> reason \<Rightarrow> verdict" where
  "refuse c r = \<lparr>v_ok = False, v_code = c, v_reason = r\<rparr>"

record verify_context =
  vc_roots :: "pystr \<rightharpoonup> pystr"
  vc_grants :: "pystr \<rightharpoonup> grant"
  vc_now :: int
  vc_revoked :: "pystr list"
  vc_require_signature :: bool
  vc_workspace :: "pystr option"

definition COLLECTION_WRITE_VERBS :: "(pystr, pystr list) dict" where
  "COLLECTION_WRITE_VERBS =
     [(lit ''workspaces'', [lit ''tickets.write'', lit ''members.invite'']),
      (lit ''projects'', [lit ''tickets.write'']),
      (lit ''tickets'', [lit ''tickets.write'']),
      (lit ''comments'', [lit ''tickets.write'']),
      (lit ''ticket_relationships'', [lit ''tickets.write'']),
      (lit ''members'', [lit ''members.invite'', lit ''members.revoke'']),
      (lit ''agent_proposals'', [lit ''proposals.write'', lit ''tickets.write'']),
      (lit ''memory_entries'', [lit ''memory.write'']),
      (lit ''memory_links'', [lit ''memory.write'']),
      (lit ''conflict_records'', [lit ''conflict_records.write'']),
      (lit ''milestones'', [lit ''tickets.write'']),
      (lit ''ticket_milestones'', [lit ''tickets.write'']),
      (lit ''follow_ups'', [lit ''tickets.write''])]"

definition self_announce :: "event \<Rightarrow> bool" where
  "self_announce e \<longleftrightarrow> collection e = lit ''members'' \<and> entity_id e = actor_id e"

definition verb_allowed :: "event \<Rightarrow> grant \<Rightarrow> bool" where
  "verb_allowed e g \<longleftrightarrow>
     (case dget COLLECTION_WRITE_VERBS (collection e) of
        None \<Rightarrow> True
      | Some acceptable \<Rightarrow> self_announce e \<or> set acceptable \<inter> set (verbs g) \<noteq> {})"

text \<open>The body of the \<open>try\<close>: a raised \<open>SchemaViolation\<close> is \<open>Inl\<close>.\<close>

definition verify_signed :: "ed25519 \<Rightarrow> event \<Rightarrow> verify_context \<Rightarrow> protocol_error + verdict" where
  "verify_signed ed e c =
     (case (case policy_ref e of None \<Rightarrow> None | Some p \<Rightarrow> if p = [] then None else vc_grants c p) of
        None \<Rightarrow> Inr (refuse VPolicyDenied NoGrant)
      | Some g \<Rightarrow>
          rbind (verify_grant ed g (vc_roots c) (vc_now c) (vc_revoked c)) (\<lambda>r.
          if r \<noteq> GrantOk then Inr (refuse VPolicyDenied (BadGrant r))
          else if subject g \<noteq> actor_id e then Inr (refuse VPolicyDenied WrongSubject)
          else if (case vc_workspace c of None \<Rightarrow> False | Some w \<Rightarrow> resource g \<noteq> w)
            then Inr (refuse VPolicyDenied WrongWorkspace)
          else if \<not> verb_allowed e g then Inr (refuse VPolicyDenied VerbMissing)
          else
            rbind (verify ed e (the (vc_roots c (issuer g)))) (\<lambda>ok.
            if \<not> ok then Inr (refuse VInvalidSignature BadSignature)
            else Inr (accept NoReason))))"

definition verify_event :: "ed25519 \<Rightarrow> event \<Rightarrow> verify_context \<Rightarrow> verdict" where
  "verify_event ed e c =
     (case sig e of
        None \<Rightarrow> if vc_require_signature c then refuse VUnsigned NoSignature else accept PreCutover
      | Some _ \<Rightarrow>
          (case verify_signed ed e c of
             Inl _ \<Rightarrow> refuse VSchemaViolation NotCanonical
           | Inr v \<Rightarrow> v))"

section \<open>The verifying backend\<close>

text \<open>The first event of a batch that does not verify.\<close>

definition first_refused :: "ed25519 \<Rightarrow> verify_context \<Rightarrow> event list \<Rightarrow> (event \<times> verdict) option" where
  "first_refused ed c batch =
     map_option (\<lambda>e. (e, verify_event ed e c)) (List.find (\<lambda>e. \<not> v_ok (verify_event ed e c)) batch)"

definition verifying_submit ::
    "ed25519 \<Rightarrow> verify_context \<Rightarrow> (event \<Rightarrow> verdict \<Rightarrow> 'e) \<Rightarrow> (event list \<Rightarrow> 'b \<Rightarrow> ('e + 'r) \<times> 'b) \<Rightarrow>
     event list \<Rightarrow> 'b \<Rightarrow> (('e + 'r) \<times> 'b) \<times> (event \<times> verdict) list" where
  "verifying_submit ed c reject inner batch b =
     (case first_refused ed c batch of
        Some (e, v) \<Rightarrow> ((Inl (reject e v), b), [(e, v)])
      | None \<Rightarrow> (inner batch b, []))"

definition verifying_pull ::
    "ed25519 \<Rightarrow> verify_context \<Rightarrow> int \<Rightarrow> committed_event list \<Rightarrow> committed_event list \<times> (event \<times> verdict) list" where
  "verifying_pull ed c cutover entries =
     (filter (\<lambda>ce. revision ce \<le> cutover \<or> v_ok (verify_event ed (cevent ce) c)) entries,
      map (\<lambda>ce. (cevent ce, verify_event ed (cevent ce) c))
        (filter (\<lambda>ce. \<not> revision ce \<le> cutover \<and> \<not> v_ok (verify_event ed (cevent ce) c)) entries))"

definition verifying_snapshot ::
    "ed25519 \<Rightarrow> verify_context \<Rightarrow> int \<Rightarrow> committed_event list \<Rightarrow> fold_error + (pystr, payload) dict" where
  "verifying_snapshot ed c cutover entries = fold_events (map cevent (fst (verifying_pull ed c cutover entries)))"

section \<open>What acceptance means\<close>

lemma v_ok_simps [simp]:
  "v_ok (accept r)" "\<not> v_ok (refuse c r)" "v_code (accept r) = VOk" "v_code (refuse c r) = c"
  "v_reason (refuse c r) = r" "v_reason (accept r) = r"
  by (simp_all add: accept_def refuse_def)

definition authorised :: "ed25519 \<Rightarrow> event \<Rightarrow> verify_context \<Rightarrow> grant \<Rightarrow> bool" where
  "authorised ed e c g \<longleftrightarrow>
     (\<exists>p k. policy_ref e = Some p \<and> p \<noteq> [] \<and> vc_grants c p = Some g \<and>
        validate_grant g = Inr () \<and> grant_authentic ed g (vc_roots c) \<and> grant_id g \<notin> set (vc_revoked c) \<and>
        issued_at g \<le> vc_now c \<and> vc_now c < expires_at g \<and>
        subject g = actor_id e \<and> (\<forall>w. vc_workspace c = Some w \<longrightarrow> resource g = w) \<and> verb_allowed e g \<and>
        vc_roots c (issuer g) = Some k \<and> verify ed e k = Inr True)"

lemma grant_authentic_root: "grant_authentic ed g roots \<Longrightarrow> \<exists>k. roots (issuer g) = Some k"
  by (auto simp: grant_authentic_def)

lemma verify_signed_accept:
  "verify_signed ed e c = Inr v \<Longrightarrow> v_ok v \<Longrightarrow> \<exists>g. authorised ed e c g"
  by (auto simp: verify_signed_def authorised_def rbind_Inr_iff verify_grant_ok_iff
      split: option.splits if_splits dest: grant_authentic_root)

lemma verify_event_signed_iff:
  "v_ok (verify_event ed e c) \<longleftrightarrow>
   (if sig e = None then \<not> vc_require_signature c else \<exists>g. authorised ed e c g)"
proof (cases "sig e")
  case (Some s)
  have "v_ok (verify_event ed e c)" if a: "authorised ed e c g" for g
  proof -
    from a obtain p k where *: "policy_ref e = Some p" "p \<noteq> []" "vc_grants c p = Some g"
      "subject g = actor_id e" "\<forall>w. vc_workspace c = Some w \<longrightarrow> resource g = w" "verb_allowed e g"
      "vc_roots c (issuer g) = Some k" "verify ed e k = Inr True"
      "verify_grant ed g (vc_roots c) (vc_now c) (vc_revoked c) = Inr GrantOk"
      unfolding authorised_def verify_grant_ok_iff by blast
    then show ?thesis using Some by (auto simp: verify_event_def verify_signed_def split: option.splits)
  qed
  moreover have "\<exists>g. authorised ed e c g" if "v_ok (verify_event ed e c)"
    using that Some by (auto simp: verify_event_def split: sum.splits dest: verify_signed_accept)
  ultimately show ?thesis using Some by auto
qed (simp add: verify_event_def)

text \<open>The verdict's flag and code never disagree.\<close>

lemma verify_event_code: "v_ok (verify_event ed e c) \<longleftrightarrow> v_code (verify_event ed e c) = VOk"
proof -
  have "v_ok v \<longleftrightarrow> v_code v = VOk" if "verify_signed ed e c = Inr v" for v
    using that by (auto simp: verify_signed_def rbind_Inr_iff split: option.splits if_splits)
  then show ?thesis by (auto simp: verify_event_def split: option.splits sum.splits)
qed

lemma first_refused_None: "first_refused ed c batch = None \<longleftrightarrow> (\<forall>e \<in> set batch. v_ok (verify_event ed e c))"
  by (auto simp: first_refused_def find_None_iff)

text \<open>Nothing reaches the inner backend unless every event of the batch verifies.\<close>

lemma verifying_submit_atomic:
  "\<not> list_all (\<lambda>e. v_ok (verify_event ed e c)) batch \<Longrightarrow>
   \<exists>e v. e \<in> set batch \<and> v = verify_event ed e c \<and> \<not> v_ok v \<and>
     verifying_submit ed c reject inner batch b = ((Inl (reject e v), b), [(e, v)])"
proof -
  assume "\<not> list_all (\<lambda>e. v_ok (verify_event ed e c)) batch"
  then obtain e where e: "List.find (\<lambda>e. \<not> v_ok (verify_event ed e c)) batch = Some e"
    by (cases "List.find (\<lambda>e. \<not> v_ok (verify_event ed e c)) batch") (auto simp: find_None_iff list_all_iff)
  then have "e \<in> set batch" "\<not> v_ok (verify_event ed e c)" by (auto simp: find_Some_iff)
  with e show ?thesis by (auto simp: verifying_submit_def first_refused_def)
qed

lemma verifying_submit_all:
  "list_all (\<lambda>e. v_ok (verify_event ed e c)) batch \<Longrightarrow>
   verifying_submit ed c reject inner batch b = (inner batch b, [])"
  by (simp add: verifying_submit_def first_refused_None [THEN iffD2] list_all_iff)

text \<open>A pull splits the entries into kept and denied, losing none.\<close>

lemma verifying_pull_partition:
  "mset (map cevent (fst (verifying_pull ed c n es))) + mset (map fst (snd (verifying_pull ed c n es))) =
   mset (map cevent es)"
  by (induction es) (auto simp: verifying_pull_def)

end
