(* ===== verification/Backend.thy ===== *)
theory Backend
  imports Verify
begin

text \<open>
  The self-hosted backend (\<open>adapters/backend-postgres\<close>: \<open>schema.py\<close>, \<open>commit.py\<close>, \<open>backend.py\<close>):
  the \<open>sync_events\<close> log, the two-pass atomic commit, raw push, paginated pull, snapshot and the
  ack watermark.  The state is the table in insertion order, the identity sequence and the acks.
  A transaction that fails restores the table and keeps the sequence where it got to, as Postgres
  does: a rejected or duplicate insert burns a revision.  The advisory lock serialises
  transactions, so a commit is one step of the model.
\<close>

section \<open>The log table\<close>

definition SYNCABLE_COLLECTIONS :: "pystr list" where
  "SYNCABLE_COLLECTIONS =
     [lit ''workspaces'', lit ''projects'', lit ''tickets'', lit ''comments'', lit ''ticket_relationships'',
      lit ''members'', lit ''agent_proposals'', lit ''memory_entries'', lit ''memory_links'', lit ''devices'',
      lit ''capability_grants'', lit ''conflict_records'', lit ''milestones'', lit ''ticket_milestones'']"

record sync_row =
  sr_revision :: int
  sr_event :: event
  sr_workspace :: pystr

record ack_row =
  ack_rev :: int
  ack_updated :: int

record pg =
  pg_rows :: "sync_row list"
  pg_next :: int
  pg_acks :: "(pystr \<times> pystr \<times> pystr, ack_row) dict"
  pg_workspaces :: "pystr list"

datatype pg_error = CheckViolation | UniqueViolation | ForeignKeyViolation | DataError

definition pg_init :: "pystr list \<Rightarrow> pg" where
  "pg_init ws = \<lparr>pg_rows = [], pg_next = 1, pg_acks = [], pg_workspaces = ws\<rparr>"

text \<open>The column types: \<open>VARCHAR(n)\<close>, \<open>INTEGER\<close> and \<open>BIGINT\<close> bounds.\<close>

definition fits_columns :: "event \<Rightarrow> pystr \<Rightarrow> bool" where
  "fits_columns e ws \<longleftrightarrow>
     length (event_id e) \<le> 26 \<and> length (collection e) \<le> 32 \<and> length (entity_id e) \<le> 26 \<and>
     length (actor_id e) \<le> 26 \<and> length (op e) \<le> 16 \<and> length ws \<le> 26 \<and>
     - (2 ^ 31) \<le> actor_seq e \<and> actor_seq e < 2 ^ 31 \<and>
     (case base_rev e of None \<Rightarrow> True | Some b \<Rightarrow> - (2 ^ 63) \<le> b \<and> b < 2 ^ 63)"

text \<open>\<open>INSERT ... ON CONFLICT (actor_id, actor_seq) DO NOTHING RETURNING revision\<close>.\<close>

definition pg_insert :: "pystr \<Rightarrow> event \<Rightarrow> pg \<Rightarrow> (pg_error + int option) \<times> pg" where
  "pg_insert ws e s =
     (if \<not> fits_columns e ws then (Inl DataError, s)
      else
        let s1 = s\<lparr>pg_next := pg_next s + 1\<rparr> in
        if op e \<notin> set OPS \<or> collection e \<notin> set SYNCABLE_COLLECTIONS then (Inl CheckViolation, s1)
        else if (\<exists>r \<in> set (pg_rows s). dedup_key (sr_event r) = dedup_key e) then (Inr None, s1)
        else if (\<exists>r \<in> set (pg_rows s). event_id (sr_event r) = event_id e) then (Inl UniqueViolation, s1)
        else if ws \<notin> set (pg_workspaces s) then (Inl ForeignKeyViolation, s1)
        else (Inr (Some (pg_next s)),
              s1\<lparr>pg_rows := pg_rows s @ [\<lparr>sr_revision = pg_next s, sr_event = e, sr_workspace = ws\<rparr>]\<rparr>))"

definition entity_history :: "pg \<Rightarrow> pystr \<Rightarrow> pystr \<Rightarrow> pystr \<Rightarrow> sync_row list" where
  "entity_history s ws c e =
     filter (\<lambda>r. sr_workspace r = ws \<and> collection (sr_event r) = c \<and> entity_id (sr_event r) = e) (pg_rows s)"

definition entity_head :: "pg \<Rightarrow> pystr \<Rightarrow> pystr \<Rightarrow> pystr \<Rightarrow> int" where
  "entity_head s ws c e =
     (case max_of (map sr_revision (entity_history s ws c e)) of None \<Rightarrow> 0 | Some m \<Rightarrow> m)"

definition to_committed :: "sync_row \<Rightarrow> committed_event" where
  "to_committed r = \<lparr>revision = sr_revision r, cevent = sr_event r\<rparr>"

definition committed_prefix :: "pg \<Rightarrow> pystr \<Rightarrow> pystr \<Rightarrow> pystr \<Rightarrow> committed_event list" where
  "committed_prefix s ws c e = map to_committed (sort_key sr_revision (entity_history s ws c e))"

section \<open>The atomic commit\<close>

record field_conflict =
  fc_field :: pystr
  fc_contending :: int
  fc_head_value :: pyval
  fc_incoming_value :: pyval

datatype commit_status = Committed_now | Duplicate

record commit_row =
  cw_event_id :: pystr
  cw_status :: commit_status
  cw_revision :: int
  cw_base_rev :: "int option"
  cw_head_rev :: "int option"
  cw_stale_base_rev :: "int option"
  cw_conflicts :: "field_conflict list"

record commit_result =
  cr_event_id :: pystr
  cr_status :: commit_status
  cr_revision :: int
  cr_base_rev :: "int option"
  cr_head_rev :: int
  cr_stale_base_rev :: "int option"
  cr_conflicts :: "field_conflict list"

definition is_stale :: "commit_result \<Rightarrow> bool" where
  "is_stale r \<longleftrightarrow> cr_stale_base_rev r \<noteq> None"

datatype commit_error =
    CEventRejected verdict event
  | CRebaseRequired event "field_conflict list"
  | CDb pg_error
  | CMerge merge_error

definition conflict_of :: "field_decision \<Rightarrow> field_conflict" where
  "conflict_of d = \<lparr>fc_field = fd_field d, fc_contending = the (fd_contending d),
     fc_head_value = fd_head_value d, fc_incoming_value = fd_incoming_value d\<rparr>"

definition conflicts_for ::
    "(bytes \<Rightarrow> bytes) \<Rightarrow> pg \<Rightarrow> pystr \<Rightarrow> event \<Rightarrow> int \<Rightarrow> merge_error + field_conflict list" where
  "conflicts_for D s ws e head =
     (let base = (case base_rev e of None \<Rightarrow> 0 | Some b \<Rightarrow> b);
          policy = map_option cm_merge (dget COLLECTION_META (collection e)) in
      if op e \<noteq> op_patch \<or> policy \<noteq> Some Lww \<or> head \<le> base then Inr []
      else
        rbind (detect_merge D (committed_prefix s ws (collection e) (entity_id e))
                 \<lparr>revision = head + 1, cevent = e\<rparr>)
          (\<lambda>m. Inr (map conflict_of (mo_conflicts m))))"

text \<open>One event of the second pass.\<close>

definition commit_one ::
    "(bytes \<Rightarrow> bytes) \<Rightarrow> pystr \<Rightarrow> bool \<Rightarrow> event \<Rightarrow> pg \<Rightarrow> (commit_error + commit_row) \<times> pg" where
  "commit_one D ws cas e s =
     (let head = entity_head s ws (collection e) (entity_id e);
          base = base_rev e;
          stale = (case base of None \<Rightarrow> None | Some b \<Rightarrow> if b < head then Some b else None) in
      case conflicts_for D s ws e head of
        Inl x \<Rightarrow> (Inl (CMerge x), s)
      | Inr conflicts \<Rightarrow>
          if cas \<and> conflicts \<noteq> [] then (Inl (CRebaseRequired e conflicts), s)
          else (case pg_insert ws e s of
              (Inl x, s') \<Rightarrow> (Inl (CDb x), s')
            | (Inr None, s') \<Rightarrow>
                (case List.find (\<lambda>r. dedup_key (sr_event r) = dedup_key e) (pg_rows s) of
                   None \<Rightarrow> (Inl (CDb DataError), s')
                 | Some r \<Rightarrow> (Inr \<lparr>cw_event_id = event_id e, cw_status = Duplicate, cw_revision = sr_revision r,
                     cw_base_rev = None, cw_head_rev = None, cw_stale_base_rev = None, cw_conflicts = []\<rparr>, s'))
            | (Inr (Some rv), s') \<Rightarrow>
                (Inr \<lparr>cw_event_id = event_id e, cw_status = Committed_now, cw_revision = rv,
                   cw_base_rev = base, cw_head_rev = Some head, cw_stale_base_rev = stale,
                   cw_conflicts = conflicts\<rparr>, s')))"

fun commit_loop ::
    "(bytes \<Rightarrow> bytes) \<Rightarrow> pystr \<Rightarrow> bool \<Rightarrow> event list \<Rightarrow> pg \<Rightarrow> (commit_error + commit_row list) \<times> pg" where
  "commit_loop D ws cas [] s = (Inr [], s)"
| "commit_loop D ws cas (e # es) s =
     (case commit_one D ws cas e s of
        (Inl x, s') \<Rightarrow> (Inl x, s')
      | (Inr r, s') \<Rightarrow>
          (case commit_loop D ws cas es s' of
             (Inl x, s'') \<Rightarrow> (Inl x, s'')
           | (Inr rs, s'') \<Rightarrow> (Inr (r # rs), s'')))"

text \<open>Both passes; what the caller rolls back on an error is the table, not the sequence.\<close>

definition rollback :: "pg \<Rightarrow> pg \<Rightarrow> pg" where
  "rollback s s' = s\<lparr>pg_next := pg_next s'\<rparr>"

definition commit_events_raw ::
    "(bytes \<Rightarrow> bytes) \<Rightarrow> (event \<Rightarrow> verdict) \<Rightarrow> pystr \<Rightarrow> bool \<Rightarrow> event list \<Rightarrow> pg \<Rightarrow>
     (commit_error + commit_row list) \<times> pg" where
  "commit_events_raw D verifier ws cas batch s =
     (case List.find (\<lambda>e. \<not> v_ok (verifier e)) batch of
        Some e \<Rightarrow> (Inl (CEventRejected (verifier e) e), s)
      | None \<Rightarrow>
          (case commit_loop D ws cas batch s of
             (Inl x, s') \<Rightarrow> (Inl x, rollback s s')
           | (Inr rs, s') \<Rightarrow> (Inr rs, s')))"

definition to_commit_result :: "commit_row \<Rightarrow> commit_result" where
  "to_commit_result r = \<lparr>cr_event_id = cw_event_id r, cr_status = cw_status r, cr_revision = cw_revision r,
     cr_base_rev = cw_base_rev r,
     cr_head_rev = (case cw_head_rev r of None \<Rightarrow> 0 | Some h \<Rightarrow> h),
     cr_stale_base_rev = cw_stale_base_rev r, cr_conflicts = cw_conflicts r\<rparr>"

section \<open>The backend port\<close>

definition verifier_of :: "ed25519 \<Rightarrow> verify_context \<Rightarrow> bool \<Rightarrow> pystr \<Rightarrow> event \<Rightarrow> verdict" where
  "verifier_of ed c require ws e =
     verify_event ed e (c\<lparr>vc_require_signature := require, vc_workspace := Some ws\<rparr>)"

definition commit_events ::
    "(bytes \<Rightarrow> bytes) \<Rightarrow> ed25519 \<Rightarrow> verify_context \<Rightarrow> pystr \<Rightarrow> bool \<Rightarrow> bool \<Rightarrow> event list \<Rightarrow> pg \<Rightarrow>
     (commit_error + commit_result list) \<times> pg" where
  "commit_events D ed c ws require cas batch s =
     (case commit_events_raw D (verifier_of ed c require ws) ws cas batch s of
        (Inl x, s') \<Rightarrow> (Inl x, s')
      | (Inr rs, s') \<Rightarrow> (Inr (map to_commit_result rs), s'))"

fun push_loop :: "pystr \<Rightarrow> event list \<Rightarrow> pg \<Rightarrow> (pg_error + committed_event list) \<times> pg" where
  "push_loop ws [] s = (Inr [], s)"
| "push_loop ws (e # es) s =
     (case pg_insert ws e s of
        (Inl x, s') \<Rightarrow> (Inl x, s')
      | (Inr rv, s') \<Rightarrow>
          (case push_loop ws es s' of
             (Inl x, s'') \<Rightarrow> (Inl x, s'')
           | (Inr cs, s'') \<Rightarrow>
               (Inr ((case rv of None \<Rightarrow> [] | Some n \<Rightarrow> [\<lparr>revision = n, cevent = e\<rparr>]) @ cs), s'')))"

definition push :: "pystr \<Rightarrow> event list \<Rightarrow> pg \<Rightarrow> (pg_error + committed_event list) \<times> pg" where
  "push ws batch s =
     (case push_loop ws batch s of (Inl x, s') \<Rightarrow> (Inl x, rollback s s') | (Inr cs, s') \<Rightarrow> (Inr cs, s'))"

definition visible :: "pg \<Rightarrow> pystr \<Rightarrow> pystr option \<Rightarrow> sync_row \<Rightarrow> bool" where
  "visible s ws c r \<longleftrightarrow> sr_workspace r = ws \<and> (case c of None \<Rightarrow> True | Some n \<Rightarrow> collection (sr_event r) = n)"

definition page_rows :: "pg \<Rightarrow> pystr \<Rightarrow> pystr option \<Rightarrow> int \<Rightarrow> sync_row list" where
  "page_rows s ws c cur = sort_key sr_revision (filter (\<lambda>r. visible s ws c r \<and> sr_revision r > cur) (pg_rows s))"

lemma length_filter_less:
  "x \<in> set xs \<Longrightarrow> P x \<Longrightarrow> \<not> Q x \<Longrightarrow> (\<And>y. Q y \<Longrightarrow> P y) \<Longrightarrow> length (filter Q xs) < length (filter P xs)"
proof (induction xs)
  case (Cons y xs)
  have le: "length (filter Q xs) \<le> length (filter P xs)" using Cons.prems(4) by (induction xs) auto
  show ?case
  proof (cases "x = y")
    case True
    with Cons.prems le show ?thesis by auto
  next
    case False
    with Cons show ?thesis by auto
  qed
qed simp

text \<open>The pagination loop; a page size of zero is the index error of an empty page, left to the
  last branch by \<open>pull\<close>'s precondition \<open>0 < n\<close>.\<close>

function pull_pages :: "nat \<Rightarrow> pg \<Rightarrow> pystr \<Rightarrow> pystr option \<Rightarrow> int \<Rightarrow> committed_event list" where
  "pull_pages n s ws c cur =
     (let page = take n (page_rows s ws c cur) in
      if length page < n \<or> n = 0 then map to_committed page
      else map to_committed page @ pull_pages n s ws c (sr_revision (last page)))"
  by pat_completeness auto
termination
proof (relation "measure (\<lambda>(n, s, ws, c, cur). length (filter (\<lambda>r. visible s ws c r \<and> sr_revision r > cur) (pg_rows s)))")
  fix n s ws c cur and page :: "sync_row list"
  assume page: "page = take n (page_rows s ws c cur)" and full: "\<not> (length page < n \<or> n = 0)"
  then have "page \<noteq> []" by auto
  then have "last page \<in> set (page_rows s ws c cur)" unfolding page by (metis in_set_takeD last_in_set)
  then have l: "last page \<in> set (pg_rows s)" "visible s ws c (last page)" "cur < sr_revision (last page)"
    by (auto simp: page_rows_def)
  have "length (filter (\<lambda>r. visible s ws c r \<and> sr_revision r > sr_revision (last page)) (pg_rows s)) <
      length (filter (\<lambda>r. visible s ws c r \<and> sr_revision r > cur) (pg_rows s))"
    using l by (intro length_filter_less [of "last page"]) auto
  then show "((n, s, ws, c, sr_revision (last page)), n, s, ws, c, cur) \<in>
      measure (\<lambda>(n, s, ws, c, cur). length (filter (\<lambda>r. visible s ws c r \<and> sr_revision r > cur) (pg_rows s)))"
    by simp
qed simp

declare pull_pages.simps [simp del]

definition PAGE_SIZE :: nat where "PAGE_SIZE = 500"

definition pull :: "nat \<Rightarrow> pystr \<Rightarrow> pystr option \<Rightarrow> int \<Rightarrow> pg \<Rightarrow> committed_event list" where
  "pull n ws c since s = pull_pages n s ws c since"

definition snapshot :: "nat \<Rightarrow> pystr \<Rightarrow> pystr \<Rightarrow> pg \<Rightarrow> fold_error + (pystr, payload) dict" where
  "snapshot n ws c s = fold_events (map cevent (pull n ws (Some c) 0 s))"

definition update_ack_watermark :: "pystr \<Rightarrow> pystr \<Rightarrow> pystr \<Rightarrow> int \<Rightarrow> int \<Rightarrow> pg \<Rightarrow> pg" where
  "update_ack_watermark ws member replica acked now s =
     s\<lparr>pg_acks := dset (ws, member, replica) \<lparr>ack_rev = acked, ack_updated = now\<rparr> (pg_acks s)\<rparr>"

definition min_of :: "int list \<Rightarrow> int option" where
  "min_of xs = (if xs = [] then None else Some (Min (set xs)))"

definition safe_watermark_rev :: "pystr \<Rightarrow> int \<Rightarrow> int \<Rightarrow> pg \<Rightarrow> int option" where
  "safe_watermark_rev ws ttl now s =
     min_of (map (\<lambda>(k, a). ack_rev a) (filter (\<lambda>((w, m, r), a). w = ws \<and> ack_updated a \<ge> now - ttl) (pg_acks s)))"

section \<open>The table invariant\<close>

text \<open>Revisions rise in insertion order and stay below the sequence; ids and dedup keys are unique.\<close>

definition pg_ok :: "pg \<Rightarrow> bool" where
  "pg_ok s \<longleftrightarrow> sorted_wrt (<) (map sr_revision (pg_rows s)) \<and>
     (\<forall>r \<in> set (pg_rows s). 0 < sr_revision r \<and> sr_revision r < pg_next s) \<and> 0 < pg_next s \<and>
     distinct (map (dedup_key \<circ> sr_event) (pg_rows s)) \<and> distinct (map (event_id \<circ> sr_event) (pg_rows s))"

lemma pg_init_ok: "pg_ok (pg_init ws)"
  by (simp add: pg_ok_def pg_init_def)

lemma pg_insert_cases:
  assumes "pg_insert ws e s = (res, s')"
  shows "(\<exists>x. res = Inl x) \<and> pg_rows s' = pg_rows s \<or>
    res = Inr None \<and> pg_rows s' = pg_rows s \<and> dedup_key e \<in> (dedup_key \<circ> sr_event) ` set (pg_rows s) \<or>
    res = Inr (Some (pg_next s)) \<and> dedup_key e \<notin> (dedup_key \<circ> sr_event) ` set (pg_rows s) \<and>
      event_id e \<notin> (event_id \<circ> sr_event) ` set (pg_rows s) \<and> pg_next s' = pg_next s + 1 \<and>
      pg_rows s' = pg_rows s @ [\<lparr>sr_revision = pg_next s, sr_event = e, sr_workspace = ws\<rparr>]"
  using assms by (force simp: pg_insert_def Let_def split: if_splits)

lemma pg_insert_frame:
  assumes "pg_insert ws e s = (res, s')"
  shows "pg_acks s' = pg_acks s" "pg_workspaces s' = pg_workspaces s" "pg_next s \<le> pg_next s'"
  using assms by (auto simp: pg_insert_def Let_def split: if_splits)

lemma pg_insert_ok:
  assumes "pg_ok s" "pg_insert ws e s = (res, s')"
  shows "pg_ok s'"
  using pg_insert_cases [OF assms(2)] pg_insert_frame(3) [OF assms(2)] assms(1)
  by (fastforce simp: pg_ok_def sorted_wrt_append)

lemma commit_one_state:
  "commit_one D ws cas e s = (res, s') \<Longrightarrow> s' = s \<or> (\<exists>r. pg_insert ws e s = (r, s'))"
  by (auto simp: commit_one_def Let_def split: sum.splits prod.splits option.splits if_splits)

lemma commit_one_ok: "pg_ok s \<Longrightarrow> commit_one D ws cas e s = (res, s') \<Longrightarrow> pg_ok s'"
  by (drule commit_one_state) (auto intro: pg_insert_ok)

lemma commit_one_next: "commit_one D ws cas e s = (res, s') \<Longrightarrow> pg_next s \<le> pg_next s'"
  by (drule commit_one_state) (auto dest: pg_insert_frame(3))

lemma commit_loop_ok: "commit_loop D ws cas es s = (res, s') \<Longrightarrow> pg_ok s \<Longrightarrow> pg_ok s' \<and> pg_next s \<le> pg_next s'"
proof (induction D ws cas es s arbitrary: res s' rule: commit_loop.induct)
  case (2 D ws cas e es s)
  obtain r s1 where one: "commit_one D ws cas e s = (r, s1)" by (cases "commit_one D ws cas e s")
  note ok = commit_one_ok [OF "2.prems"(2) one] commit_one_next [OF one]
  show ?case
  proof (cases r)
    case (Inl x)
    with 2 one ok show ?thesis by simp
  next
    case (Inr x)
    obtain r2 s2 where loop: "commit_loop D ws cas es s1 = (r2, s2)" by (cases "commit_loop D ws cas es s1")
    have "pg_ok s2 \<and> pg_next s1 \<le> pg_next s2" using "2.IH" [OF one [symmetric] Inr loop] ok(1) by simp
    with "2.prems"(1) one Inr loop ok show ?thesis by (auto split: sum.splits)
  qed
qed simp

lemma rollback_ok: "pg_ok s \<Longrightarrow> pg_next s \<le> pg_next s' \<Longrightarrow> pg_ok (rollback s s')"
  by (fastforce simp: pg_ok_def rollback_def)

lemma commit_events_raw_ok:
  "pg_ok s \<Longrightarrow> commit_events_raw D v ws cas batch s = (res, s') \<Longrightarrow> pg_ok s'"
  by (auto simp: commit_events_raw_def split: option.splits prod.splits sum.splits
      dest!: commit_loop_ok intro: rollback_ok)

text \<open>An error leaves the log as it was.\<close>

lemma commit_events_raw_atomic:
  "commit_events_raw D v ws cas batch s = (Inl x, s') \<Longrightarrow> pg_rows s' = pg_rows s \<and> pg_acks s' = pg_acks s"
  by (auto simp: commit_events_raw_def rollback_def split: option.splits prod.splits sum.splits)

section \<open>What a commit does\<close>

text \<open>A successful event either is the row appended last or was already there; its result names
  the revision of the row with its dedup key.\<close>

definition holds_at :: "pg \<Rightarrow> event \<Rightarrow> int \<Rightarrow> bool" where
  "holds_at s e n \<longleftrightarrow> (\<exists>r \<in> set (pg_rows s). dedup_key (sr_event r) = dedup_key e \<and> sr_revision r = n)"

definition extends :: "pg \<Rightarrow> pystr \<Rightarrow> event list \<Rightarrow> pg \<Rightarrow> bool" where
  "extends s ws es s' \<longleftrightarrow> (\<exists>new. pg_rows s' = pg_rows s @ new \<and>
     set (map sr_event new) \<subseteq> set es \<and> (\<forall>r \<in> set new. sr_workspace r = ws))"

lemma extends_refl [simp]: "extends s ws es s"
  by (simp add: extends_def)

lemma extends_trans: "extends s ws es s1 \<Longrightarrow> extends s1 ws fs s2 \<Longrightarrow> extends s ws (es @ fs) s2"
  by (fastforce simp: extends_def)

lemma holds_at_extends: "holds_at s e n \<Longrightarrow> extends s ws es s' \<Longrightarrow> holds_at s' e n"
  by (auto simp: holds_at_def extends_def)

lemma commit_one_Inr:
  assumes "commit_one D ws cas e s = (Inr r, s')"
  shows "extends s ws [e] s'" "holds_at s' e (cw_revision r)" "cw_event_id r = event_id e"
    "cw_status r = Duplicate \<longleftrightarrow> dedup_key e \<in> (dedup_key \<circ> sr_event) ` set (pg_rows s)"
    "cas \<Longrightarrow> cw_conflicts r = []"
proof -
  from assms obtain res where ins: "pg_insert ws e s = (res, s')"
    by (auto simp: commit_one_def Let_def split: sum.splits prod.splits option.splits if_splits)
  from assms obtain cs where cs: "conflicts_for D s ws e (entity_head s ws (collection e) (entity_id e)) = Inr cs"
      "\<not> (cas \<and> cs \<noteq> [])"
    by (auto simp: commit_one_def Let_def split: sum.splits if_splits)
  note one = assms [unfolded commit_one_def Let_def cs(1) ins sum.case prod.case if_not_P [OF cs(2)]]
  from pg_insert_cases [OF ins] show "extends s ws [e] s'"
    by (auto simp: extends_def)
  show "cw_event_id r = event_id e" "cas \<Longrightarrow> cw_conflicts r = []"
    using one cs(2) by (auto split: sum.splits option.splits)
  show "holds_at s' e (cw_revision r)"
    using one pg_insert_cases [OF ins]
    by (auto simp: holds_at_def find_Some_iff split: sum.splits option.splits)
  show "cw_status r = Duplicate \<longleftrightarrow> dedup_key e \<in> (dedup_key \<circ> sr_event) ` set (pg_rows s)"
    using one pg_insert_cases [OF ins] by (auto split: sum.splits option.splits)
qed

lemma commit_loop_Inr:
  "commit_loop D ws cas es s = (Inr rs, s') \<Longrightarrow>
   extends s ws es s' \<and> list_all2 (\<lambda>e r. cw_event_id r = event_id e \<and> holds_at s' e (cw_revision r) \<and>
     (cas \<longrightarrow> cw_conflicts r = [])) es rs"
proof (induction es arbitrary: s rs)
  case (Cons e es)
  obtain r s1 where one: "commit_one D ws cas e s = (Inr r, s1)"
    using Cons.prems by (auto split: prod.splits sum.splits)
  then obtain rs' where loop: "commit_loop D ws cas es s1 = (Inr rs', s')" and rs: "rs = r # rs'"
    using Cons.prems by (auto split: prod.splits sum.splits)
  note c = commit_one_Inr [OF one] and IH = Cons.IH [OF loop]
  show ?case
    using extends_trans [OF c(1), of es s'] IH c(3,5) holds_at_extends [OF c(2), of ws es s'] by (simp add: rs)
qed simp

lemma commit_events_raw_Inr:
  assumes "commit_events_raw D v ws cas batch s = (Inr rs, s')"
  shows "\<forall>e \<in> set batch. v_ok (v e)" "extends s ws batch s'"
    "list_all2 (\<lambda>e r. cw_event_id r = event_id e \<and> holds_at s' e (cw_revision r) \<and>
       (cas \<longrightarrow> cw_conflicts r = [])) batch rs"
proof -
  have "commit_loop D ws cas batch s = (Inr rs, s')" "List.find (\<lambda>e. \<not> v_ok (v e)) batch = None"
    using assms by (auto simp: commit_events_raw_def split: option.splits prod.splits sum.splits)
  with commit_loop_Inr show "\<forall>e \<in> set batch. v_ok (v e)" "extends s ws batch s'"
    "list_all2 (\<lambda>e r. cw_event_id r = event_id e \<and> holds_at s' e (cw_revision r) \<and>
       (cas \<longrightarrow> cw_conflicts r = [])) batch rs"
    by (auto simp: find_None_iff)
qed

text \<open>Re-committing what the log holds changes nothing and answers with the first commit's
  revisions.\<close>

lemma holds_at_unique: "pg_ok s \<Longrightarrow> holds_at s e m \<Longrightarrow> holds_at s e n \<Longrightarrow> m = n"
  by (fastforce simp: holds_at_def pg_ok_def distinct_map inj_on_def)

lemma commit_one_again:
  assumes "pg_ok s" "holds_at s e n" "commit_one D ws cas e s = (Inr r, s')"
  shows "pg_rows s' = pg_rows s" "cw_status r = Duplicate" "cw_revision r = n"
proof -
  have key: "dedup_key e \<in> (dedup_key \<circ> sr_event) ` set (pg_rows s)"
    using assms(2) by (force simp: holds_at_def)
  obtain res where ins: "pg_insert ws e s = (res, s')"
    using assms(3) by (auto simp: commit_one_def Let_def split: sum.splits prod.splits option.splits if_splits)
  with key pg_insert_cases show rows: "pg_rows s' = pg_rows s" by blast
  show "cw_status r = Duplicate" using commit_one_Inr(4) [OF assms(3)] key by simp
  have "holds_at s e (cw_revision r)"
    using commit_one_Inr(2) [OF assms(3)] rows by (simp add: holds_at_def)
  with assms(1,2) show "cw_revision r = n" by (blast intro: holds_at_unique)
qed

lemma commit_loop_again:
  "commit_loop D ws cas es s = (Inr rs, s') \<Longrightarrow> pg_ok s \<Longrightarrow> \<forall>e \<in> set es. \<exists>n. holds_at s e n \<Longrightarrow>
   pg_rows s' = pg_rows s \<and> list_all2 (\<lambda>e r. cw_status r = Duplicate \<and> holds_at s e (cw_revision r)) es rs"
proof (induction es arbitrary: s rs)
  case (Cons e es)
  obtain r s1 where one: "commit_one D ws cas e s = (Inr r, s1)"
    using Cons.prems(1) by (auto split: prod.splits sum.splits)
  then obtain rs' where loop: "commit_loop D ws cas es s1 = (Inr rs', s')" and rs: "rs = r # rs'"
    using Cons.prems(1) by (auto split: prod.splits sum.splits)
  obtain n where n: "holds_at s e n" using Cons.prems(3) by auto
  note again = commit_one_again [OF Cons.prems(2) n one]
  have h: "holds_at s1 = holds_at s" using again(1) by (simp add: holds_at_def fun_eq_iff)
  have "pg_ok s1" by (rule commit_one_ok [OF Cons.prems(2) one])
  from Cons.IH [OF loop this] Cons.prems(3) again n show ?case by (simp add: rs h)
qed simp

text \<open>The log refuses a collection outside its CHECK whatever the batch, so nothing of it lands.\<close>

lemma commit_loop_unsyncable:
  "e \<in> set es \<Longrightarrow> collection e \<notin> set SYNCABLE_COLLECTIONS \<Longrightarrow> \<exists>x s'. commit_loop D ws cas es s = (Inl x, s')"
proof (induction es arbitrary: s)
  case (Cons f es)
  obtain r s1 where one: "commit_one D ws cas f s = (r, s1)" by (cases "commit_one D ws cas f s")
  show ?case
  proof (cases r)
    case (Inl x)
    with one show ?thesis by simp
  next
    case (Inr w)
    have "f \<noteq> e"
    proof
      assume f: "f = e"
      have "\<exists>x s'. pg_insert ws e s = (Inl x, s')"
        using Cons.prems(2) by (auto simp: pg_insert_def Let_def)
      with one Inr f show False by (auto simp: commit_one_def Let_def split: sum.splits if_splits)
    qed
    with Cons.prems have "e \<in> set es" by simp
    from Cons.IH [OF this Cons.prems(2), of s1] obtain x s2 where "commit_loop D ws cas es s1 = (Inl x, s2)" by blast
    with one Inr show ?thesis by simp
  qed
qed simp

section \<open>Pulling\<close>

lemma sorted_wrt_filter_drop:
  assumes "sorted_wrt (<) (map f xs)" "n \<noteq> 0" "n \<le> length xs"
  shows "filter (\<lambda>x. f x > (f (last (take n xs)) :: int)) xs = drop n xs"
proof -
  obtain m where m: "n = Suc m" using assms(2) by (cases n) auto
  have last: "last (take n xs) = xs ! m" using assms(3) m by (simp add: take_Suc_conv_app_nth)
  have le: "f (xs ! i) \<le> f (xs ! m)" if "i \<le> m" for i
    using assms that by (cases "i = m") (auto simp: m sorted_wrt_iff_nth_less intro: less_imp_le)
  have "filter (\<lambda>x. f x > f (xs ! m)) (take n xs) = []"
    using le by (auto simp: filter_empty_conv in_set_conv_nth m less_Suc_eq_le intro!: leD)
  moreover have "filter (\<lambda>x. f x > f (xs ! m)) (drop n xs) = drop n xs"
    using assms by (auto simp: filter_id_conv in_set_conv_nth m sorted_wrt_iff_nth_less)
  ultimately have "filter (\<lambda>x. f x > f (xs ! m)) (take n xs @ drop n xs) = drop n xs"
    by (simp only: filter_append) simp
  then show ?thesis by (simp add: last)
qed

lemma page_rows_later:
  assumes "cur \<le> cur'"
  shows "page_rows s ws c cur' = filter (\<lambda>r. sr_revision r > cur') (page_rows s ws c cur)"
proof -
  have "filter (\<lambda>r. visible s ws c r \<and> sr_revision r > cur') (pg_rows s) =
      filter (\<lambda>r. sr_revision r > cur') (filter (\<lambda>r. visible s ws c r \<and> sr_revision r > cur) (pg_rows s))"
    using assms by (auto intro: filter_cong)
  then show ?thesis by (simp add: page_rows_def filter_sort)
qed

lemma page_rows_ok:
  assumes "pg_ok s"
  shows "page_rows s ws c cur = filter (\<lambda>r. visible s ws c r \<and> sr_revision r > cur) (pg_rows s)"
    and "sorted_wrt (<) (map sr_revision (page_rows s ws c cur))"
proof -
  let ?f = "filter (\<lambda>r. visible s ws c r \<and> sr_revision r > cur) (pg_rows s)"
  have st: "sorted_wrt (<) (map sr_revision ?f)"
    using assms by (simp add: pg_ok_def sorted_wrt_map sorted_wrt_filter)
  then have "sorted (map sr_revision ?f)" by (rule strict_sorted_imp_sorted)
  then show eq: "page_rows s ws c cur = ?f" unfolding page_rows_def by (rule sort_key_id)
  show "sorted_wrt (<) (map sr_revision (page_rows s ws c cur))" using st by (simp add: eq)
qed

lemma pull_pages_all:
  "pg_ok s \<Longrightarrow> 0 < n \<Longrightarrow> pull_pages n s ws c cur = map to_committed (page_rows s ws c cur)"
proof (induction n s ws c cur rule: pull_pages.induct)
  case (1 n s ws c cur)
  let ?rows = "page_rows s ws c cur"
  show ?case
  proof (cases "length (take n ?rows) < n")
    case True
    then have "take n ?rows = ?rows" by simp
    with True show ?thesis by (simp add: pull_pages.simps [of n s ws c cur] Let_def)
  next
    case False
    then have len: "n \<le> length ?rows" by simp
    have "last (take n ?rows) \<in> set ?rows"
      using "1.prems"(2) len by (metis in_set_takeD last_in_set length_0_conv length_take min.absorb2 not_less0)
    then have le: "cur \<le> sr_revision (last (take n ?rows))" by (simp add: page_rows_def)
    have drop: "page_rows s ws c (sr_revision (last (take n ?rows))) = drop n ?rows"
      using sorted_wrt_filter_drop [OF page_rows_ok(2) [OF "1.prems"(1)], of n] "1.prems"(2) len
      by (simp add: page_rows_later [OF le])
    have "pull_pages n s ws c cur = map to_committed (take n ?rows) @ map to_committed (drop n ?rows)"
      using "1.IH" [OF refl _ "1.prems"] False "1.prems"(2)
      by (simp add: pull_pages.simps [of n s ws c cur] Let_def drop)
    then show ?thesis by (simp only: map_append [symmetric] append_take_drop_id)
  qed
qed

definition history :: "pystr \<Rightarrow> pg \<Rightarrow> committed_event list" where
  "history ws s = map to_committed (filter (\<lambda>r. sr_workspace r = ws) (pg_rows s))"

lemma pull_history:
  assumes "pg_ok s" "0 < n"
  shows "pull n ws c since s =
    filter (\<lambda>ce. since < revision ce \<and> (case c of None \<Rightarrow> True | Some k \<Rightarrow> collection (cevent ce) = k)) (history ws s)"
proof -
  have "filter (\<lambda>r. visible s ws c r \<and> sr_revision r > since) rs =
      filter (\<lambda>r. since < sr_revision r \<and> (case c of None \<Rightarrow> True | Some k \<Rightarrow> collection (sr_event r) = k))
        (filter (\<lambda>r. sr_workspace r = ws) rs)" for rs
    by (induction rs) (auto simp: visible_def)
  moreover have "revision (to_committed r) = sr_revision r" "cevent (to_committed r) = sr_event r" for r
    by (simp_all add: to_committed_def)
  ultimately show ?thesis
    by (cases c) (simp_all add: pull_def pull_pages_all [OF assms] page_rows_ok(1) [OF assms(1)] history_def
        filter_map comp_def)
qed

end
