(* ===== verification/Port.thy ===== *)
theory Port
  imports Backend
begin

text \<open>
  The port the sync engine talks to (\<open>BackendPort\<close> and its results in \<open>sync_engine/events.py\<close>):
  a record of operations over the backend's state, each of which may raise.  The locale
  \<open>backend_port\<close> is the contract the engine relies on, in terms of the committed history;
  the self-hosted Postgres backend provides it (interpretation \<open>pg\<close>), for a server whose log
  holds one workspace.
\<close>

section \<open>Operations\<close>

definition SYNC_VERSION :: int where "SYNC_VERSION = 1"

definition EXPECTED_SCHEMA_VERSION :: int where "EXPECTED_SCHEMA_VERSION = 18"

record session_init =
  si_sync_version :: int
  si_schema_version :: int

text \<open>\<open>EventRejected\<close> with its code and prose, \<open>RebaseRequired\<close>, \<open>BackendUnavailable\<close>, and
  everything else an adapter may raise.\<close>

datatype port_error =
    PortRejected event pystr pystr
  | PortRebase event "field_conflict list"
  | PortUnavailable
  | PortFailed commit_error

record 'b port =
  pt_session_init :: "(int \<Rightarrow> int \<Rightarrow> 'b \<Rightarrow> (port_error + session_init) \<times> 'b) option"
  pt_push :: "event list \<Rightarrow> 'b \<Rightarrow> (port_error + committed_event list) \<times> 'b"
  pt_commit :: "bool \<Rightarrow> event list \<Rightarrow> 'b \<Rightarrow> (port_error + commit_result list) \<times> 'b"
  pt_pull :: "pystr option \<Rightarrow> int \<Rightarrow> 'b \<Rightarrow> (port_error + committed_event list) \<times> 'b"

section \<open>The contract\<close>

definition after_cursor :: "pystr option \<Rightarrow> int \<Rightarrow> committed_event list \<Rightarrow> committed_event list" where
  "after_cursor c since ces = filter (\<lambda>ce. since < revision ce \<and>
     (case c of None \<Rightarrow> True | Some k \<Rightarrow> collection (cevent ce) = k)) ces"

definition held_at :: "committed_event list \<Rightarrow> event \<Rightarrow> int \<Rightarrow> bool" where
  "held_at ces e n \<longleftrightarrow> (\<exists>ce \<in> set ces. dedup_key (cevent ce) = dedup_key e \<and> revision ce = n)"

lemma held_at_append: "held_at ces e n \<Longrightarrow> held_at (ces @ new) e n"
  by (auto simp: held_at_def)

locale backend_port =
  fixes port :: "'b port"
    and hist :: "'b \<Rightarrow> committed_event list"
    and ok :: "'b \<Rightarrow> bool"
  assumes ok_commit: "ok b \<Longrightarrow> pt_commit port cas es b = (r, b') \<Longrightarrow> ok b'"
    and ok_pull: "ok b \<Longrightarrow> pt_pull port c since b = (q, b') \<Longrightarrow> ok b' \<and> hist b' = hist b"
    and ok_init: "ok b \<Longrightarrow> pt_session_init port = Some init \<Longrightarrow> init v w b = (peer, b') \<Longrightarrow>
      ok b' \<and> hist b' = hist b"
    and ok_push: "ok b \<Longrightarrow> pt_push port es b = (q, b') \<Longrightarrow> ok b' \<and> (\<exists>new. hist b' = hist b @ new) \<and>
      (\<forall>ces. q = Inr ces \<longrightarrow> (\<forall>ce \<in> set ces. held_at (hist b') (cevent ce) (revision ce)))"
    and ok_hist: "ok b \<Longrightarrow> sorted_wrt (<) (map revision (hist b)) \<and>
      distinct (map (dedup_key \<circ> cevent) (hist b)) \<and> distinct (map (event_id \<circ> cevent) (hist b)) \<and>
      (\<forall>ce \<in> set (hist b). 0 < revision ce)"
    and commit_error: "ok b \<Longrightarrow> pt_commit port cas es b = (Inl x, b') \<Longrightarrow> hist b' = hist b"
    and commit_rejects: "ok b \<Longrightarrow> pt_commit port cas es b = (Inl (PortRejected e code m), b') \<Longrightarrow> e \<in> set es"
    and commit_answers: "ok b \<Longrightarrow> pt_commit port cas es b = (Inr rs, b') \<Longrightarrow>
      (\<exists>new. hist b' = hist b @ new \<and> set (map cevent new) \<subseteq> set es) \<and>
      list_all2 (\<lambda>e r. cr_event_id r = event_id e \<and> held_at (hist b') e (cr_revision r) \<and>
        (cas \<longrightarrow> cr_conflicts r = [])) es rs"
    and pull_answers: "ok b \<Longrightarrow> pt_pull port c since b = (Inr ces, b') \<Longrightarrow> ces = after_cursor c since (hist b)"
begin

text \<open>The history only grows, whatever a commit answers.\<close>

lemma commit_grows: "ok b \<Longrightarrow> pt_commit port cas es b = (r, b') \<Longrightarrow> \<exists>new. hist b' = hist b @ new"
  by (cases r) (auto dest: commit_error commit_answers)

lemma held_unique: "ok b \<Longrightarrow> held_at (hist b) e m \<Longrightarrow> held_at (hist b) e n \<Longrightarrow> m = n"
  using ok_hist [of b] by (fastforce simp: held_at_def distinct_map inj_on_def)

text \<open>Pulling again from the highest revision pulled returns nothing.\<close>

lemma pull_again:
  assumes "ok b" "pt_pull port c since b = (Inr ces, b')" "\<forall>ce \<in> set ces. revision ce \<le> high" "since \<le> high"
    and "pt_pull port c high b' = (Inr ces', b'')"
  shows "ces' = []"
proof -
  have "ok b'" "hist b' = hist b" using ok_pull [OF assms(1,2)] by auto
  then have "ces' = after_cursor c high (hist b)" using pull_answers [OF _ assms(5)] by simp
  moreover have "\<not> high < revision ce" if "ce \<in> set (after_cursor c since (hist b))" for ce
    using that assms(3) pull_answers [OF assms(1,2)] by auto
  ultimately show ?thesis
    using assms(4) by (fastforce simp: after_cursor_def filter_empty_conv)
qed

end

section \<open>The Postgres backend as a port\<close>

definition verify_code_str :: "verify_code \<Rightarrow> pystr" where
  "verify_code_str c =
     (case c of
        VOk \<Rightarrow> lit ''ok''
      | VUnsigned \<Rightarrow> lit ''unsigned''
      | VInvalidSignature \<Rightarrow> lit ''invalid_signature''
      | VPolicyDenied \<Rightarrow> lit ''policy_denied''
      | VSchemaViolation \<Rightarrow> lit ''schema_violation'')"

text \<open>The prose of a verdict is an argument.\<close>

definition port_error_of :: "(reason \<Rightarrow> pystr) \<Rightarrow> commit_error \<Rightarrow> port_error" where
  "port_error_of prose x =
     (case x of
        CEventRejected v e \<Rightarrow> PortRejected e (verify_code_str (v_code v)) (prose (v_reason v))
      | CRebaseRequired e cs \<Rightarrow> PortRebase e cs
      | y \<Rightarrow> PortFailed y)"

definition lift_port :: "('x \<Rightarrow> port_error) \<Rightarrow> ('x + 'a) \<times> 'b \<Rightarrow> (port_error + 'a) \<times> 'b" where
  "lift_port f rs = (case rs of (Inl x, s) \<Rightarrow> (Inl (f x), s) | (Inr y, s) \<Rightarrow> (Inr y, s))"

text \<open>The commit over a verifier: \<open>verify_event\<close> in the backend's own context (\<open>commit_events\<close>), or the
  closure the HTTP server wraps around it.\<close>

definition commit_through ::
    "(bytes \<Rightarrow> bytes) \<Rightarrow> (event \<Rightarrow> verdict) \<Rightarrow> pystr \<Rightarrow> bool \<Rightarrow> event list \<Rightarrow> pg \<Rightarrow>
     (commit_error + commit_result list) \<times> pg" where
  "commit_through D verifier ws cas es s =
     (case commit_events_raw D verifier ws cas es s of
        (Inl x, s') \<Rightarrow> (Inl x, s')
      | (Inr rs, s') \<Rightarrow> (Inr (map to_commit_result rs), s'))"

lemma commit_events_through: "commit_events D ed c ws require = commit_through D (verifier_of ed c require ws) ws"
  by (intro ext) (simp add: commit_events_def commit_through_def)

definition pg_port ::
    "(bytes \<Rightarrow> bytes) \<Rightarrow> (event \<Rightarrow> verdict) \<Rightarrow> pystr \<Rightarrow> nat \<Rightarrow> (reason \<Rightarrow> pystr) \<Rightarrow> pg port" where
  "pg_port D verifier ws n prose =
     \<lparr>pt_session_init = Some (\<lambda>_ _ s. (Inr \<lparr>si_sync_version = SYNC_VERSION,
        si_schema_version = EXPECTED_SCHEMA_VERSION\<rparr>, s)),
      pt_push = (\<lambda>es s. lift_port (\<lambda>x. PortFailed (CDb x)) (push ws es s)),
      pt_commit = (\<lambda>cas es s. lift_port (port_error_of prose) (commit_through D verifier ws cas es s)),
      pt_pull = (\<lambda>k since s. (Inr (pull n ws k since s), s))\<rparr>"

definition single_workspace :: "pystr \<Rightarrow> pg \<Rightarrow> bool" where
  "single_workspace ws s \<longleftrightarrow> pg_ok s \<and> (\<forall>r \<in> set (pg_rows s). sr_workspace r = ws)"

lemma history_single: "single_workspace ws s \<Longrightarrow> history ws s = map to_committed (pg_rows s)"
  by (simp add: single_workspace_def history_def filter_id_conv [THEN iffD2])

lemma to_committed_simps [simp]: "revision (to_committed r) = sr_revision r" "cevent (to_committed r) = sr_event r"
  by (simp_all add: to_committed_def)

lemma lift_port_simps [simp]:
  "lift_port f r = (Inr y, s) \<longleftrightarrow> r = (Inr y, s)"
  "lift_port f r = (Inl e, s) \<longleftrightarrow> (\<exists>x. r = (Inl x, s) \<and> e = f x)"
  by (auto simp: lift_port_def split: prod.splits sum.splits)

lemma pg_commit_run:
  assumes "pt_commit (pg_port D vf ws n prose) cas es b = (r, b')"
  obtains q where "commit_events_raw D vf ws cas es b = (q, b')"
    "r = (case q of Inl x \<Rightarrow> Inl (port_error_of prose x) | Inr rows \<Rightarrow> Inr (map to_commit_result rows))"
  using assms
  by (cases "commit_events_raw D vf ws cas es b")
    (auto simp: pg_port_def commit_through_def lift_port_def split: sum.splits)

lemma to_commit_result_simps [simp]:
  "cr_event_id (to_commit_result w) = cw_event_id w" "cr_revision (to_commit_result w) = cw_revision w"
  "cr_conflicts (to_commit_result w) = cw_conflicts w"
  by (simp_all add: to_commit_result_def)

lemma held_at_holds: "single_workspace ws s \<Longrightarrow> held_at (history ws s) e n \<longleftrightarrow> holds_at s e n"
  by (auto simp: history_single held_at_def holds_at_def)

lemma single_workspace_commit:
  assumes "single_workspace ws s" "commit_events_raw D v ws cas es s = (q, s')"
  shows "single_workspace ws s'"
proof (cases q)
  case (Inl x)
  with assms commit_events_raw_atomic show ?thesis
    by (metis commit_events_raw_ok single_workspace_def)
next
  case (Inr rows)
  with assms commit_events_raw_ok commit_events_raw_Inr(2) show ?thesis
    by (fastforce simp: single_workspace_def extends_def)
qed

lemma commit_loop_not_rejected: "commit_loop D ws cas es s = (Inl x, s') \<Longrightarrow> x \<noteq> CEventRejected v e"
proof (induction D ws cas es s arbitrary: s' rule: commit_loop.induct)
  case (2 D ws cas f fs s)
  have one: "commit_one D ws cas f s \<noteq> (Inl (CEventRejected v e), t)" for t
    by (auto simp: commit_one_def Let_def split: sum.splits prod.splits option.splits)
  show ?case
  proof (cases "commit_one D ws cas f s")
    case (Pair r t)
    with 2 one show ?thesis by (cases r) (fastforce split: prod.splits sum.splits)+
  qed
qed simp

lemma commit_events_raw_rejects:
  "commit_events_raw D v ws cas es s = (Inl (CEventRejected w e), s') \<Longrightarrow> e \<in> set es"
  by (auto simp: commit_events_raw_def find_Some_iff split: option.splits prod.splits sum.splits
      dest: commit_loop_not_rejected)

lemma pg_commit_ok:
  "single_workspace ws b \<Longrightarrow> pt_commit (pg_port D vf ws n prose) cas es b = (r, b') \<Longrightarrow> single_workspace ws b'"
  by (erule pg_commit_run) (rule single_workspace_commit)

lemma push_loop_single:
  "push_loop ws es s = (q, s') \<Longrightarrow> single_workspace ws s \<Longrightarrow>
   single_workspace ws s' \<and> pg_next s \<le> pg_next s' \<and> (\<exists>new. pg_rows s' = pg_rows s @ new) \<and>
   (\<forall>ces. q = Inr ces \<longrightarrow> (\<forall>ce \<in> set ces. holds_at s' (cevent ce) (revision ce)))"
proof (induction ws es s arbitrary: q s' rule: push_loop.induct)
  case (2 ws e es s)
  obtain r t where one: "pg_insert ws e s = (r, t)" by (cases "pg_insert ws e s")
  note ins = pg_insert_cases [OF one] pg_insert_frame(3) [OF one]
  have ok: "pg_ok t" using pg_insert_ok [OF _ one] "2.prems"(2) by (simp add: single_workspace_def)
  have t: "single_workspace ws t" "\<exists>new. pg_rows t = pg_rows s @ new"
    using ins(1) ok "2.prems"(2) by (auto simp: single_workspace_def)
  show ?case
  proof (cases r)
    case (Inl x)
    with "2.prems"(1) one t ins(2) show ?thesis by auto
  next
    case (Inr rv)
    obtain q2 s2 where loop: "push_loop ws es t = (q2, s2)" by (cases "push_loop ws es t")
    note IH = "2.IH" [OF one [symmetric] Inr loop t(1)]
    have held: "holds_at s2 e n" if "rv = Some n" for n
      using ins(1) IH Inr that by (auto simp: holds_at_def)
    from "2.prems"(1) one Inr loop
    have q: "s' = s2" "q = (case q2 of Inl x \<Rightarrow> Inl x
        | Inr cs \<Rightarrow> Inr ((case rv of None \<Rightarrow> [] | Some n \<Rightarrow> [\<lparr>revision = n, cevent = e\<rparr>]) @ cs))"
      by (auto split: sum.splits)
    with IH t(2) ins(2) held show ?thesis by (auto split: sum.splits option.splits)
  qed
qed simp

lemma pg_push_ok:
  assumes "single_workspace ws b" "pt_push (pg_port D vf ws n prose) es b = (q, b')"
  shows "single_workspace ws b' \<and> (\<exists>new. history ws b' = history ws b @ new) \<and>
    (\<forall>ces. q = Inr ces \<longrightarrow> (\<forall>ce \<in> set ces. held_at (history ws b') (cevent ce) (revision ce)))"
proof -
  obtain r t where loop: "push_loop ws es b = (r, t)" by (cases "push_loop ws es b")
  note l = push_loop_single [OF loop assms(1)]
  from assms(2) have q: "(q, b') = (case r of Inl x \<Rightarrow> (Inl (PortFailed (CDb x)), rollback b t) | Inr ces \<Rightarrow> (Inr ces, t))"
    by (auto simp: pg_port_def push_def loop lift_port_def split: sum.splits)
  show ?thesis
  proof (cases r)
    case (Inl x)
    have "single_workspace ws (rollback b t)"
      using assms(1) l rollback_ok [of b t] by (simp add: single_workspace_def rollback_def)
    with q Inl show ?thesis by (simp add: history_def rollback_def)
  next
    case (Inr ces)
    with q have t: "b' = t" "q = Inr ces" by simp_all
    with l obtain new where new: "single_workspace ws b'" "pg_rows b' = pg_rows b @ new"
      "\<forall>ce \<in> set ces. holds_at b' (cevent ce) (revision ce)" using Inr by auto
    have held: "\<forall>ce \<in> set ces. held_at (history ws b') (cevent ce) (revision ce)"
      using new(3) by (simp add: held_at_holds [OF new(1)])
    have "history ws b' = history ws b @ map to_committed new"
      by (simp add: history_single [OF new(1)] history_single [OF assms(1)] new(2))
    with new(1) held t(2) show ?thesis by auto
  qed
qed

lemma pg_handshake_ok:
  "single_workspace ws b \<Longrightarrow> pt_session_init (pg_port D vf ws n prose) = Some init \<Longrightarrow> init v w b = (peer, b') \<Longrightarrow>
   single_workspace ws b' \<and> history ws b' = history ws b"
  by (auto simp: pg_port_def)

lemma pg_hist_ok:
  "single_workspace ws b \<Longrightarrow> sorted_wrt (<) (map revision (history ws b)) \<and>
   distinct (map (dedup_key \<circ> cevent) (history ws b)) \<and> distinct (map (event_id \<circ> cevent) (history ws b)) \<and>
   (\<forall>ce \<in> set (history ws b). 0 < revision ce)"
  using history_single [of ws b] by (simp add: single_workspace_def pg_ok_def comp_def)

lemma pg_commit_error:
  "pt_commit (pg_port D vf ws n prose) cas es b = (Inl x, b') \<Longrightarrow> history ws b' = history ws b"
  by (erule pg_commit_run) (auto simp: history_def dest: commit_events_raw_atomic split: sum.splits)

lemma pg_commit_rejects:
  "pt_commit (pg_port D vf ws n prose) cas es b = (Inl (PortRejected e k m), b') \<Longrightarrow> e \<in> set es"
  by (erule pg_commit_run)
    (auto simp: port_error_of_def dest: commit_events_raw_rejects split: sum.splits commit_error.splits)

lemma pg_commit_answers:
  assumes b: "single_workspace ws b" and run: "pt_commit (pg_port D vf ws n prose) cas es b = (Inr rs, b')"
  shows "(\<exists>new. history ws b' = history ws b @ new \<and> set (map cevent new) \<subseteq> set es) \<and>
    list_all2 (\<lambda>e r. cr_event_id r = event_id e \<and> held_at (history ws b') e (cr_revision r) \<and>
      (cas \<longrightarrow> cr_conflicts r = [])) es rs"
proof -
  from run obtain q where q: "commit_events_raw D vf ws cas es b = (q, b')"
    "Inr rs = (case q of Inl x \<Rightarrow> Inl (port_error_of prose x) | Inr rows \<Rightarrow> Inr (map to_commit_result rows))"
    by (rule pg_commit_run)
  then obtain rows where rows: "commit_events_raw D vf ws cas es b = (Inr rows, b')"
    "rs = map to_commit_result rows" by (cases q) auto
  have b': "single_workspace ws b'" by (rule single_workspace_commit [OF b rows(1)])
  note raw = commit_events_raw_Inr(2,3) [OF rows(1)]
  from raw(1) obtain new where new: "pg_rows b' = pg_rows b @ new" "set (map sr_event new) \<subseteq> set es"
    by (auto simp: extends_def)
  then have "history ws b' = history ws b @ map to_committed new" "set (map cevent (map to_committed new)) \<subseteq> set es"
    by (simp_all add: history_single [OF b] history_single [OF b'] comp_def)
  moreover have "list_all2 (\<lambda>e r. cr_event_id r = event_id e \<and> held_at (history ws b') e (cr_revision r) \<and>
      (cas \<longrightarrow> cr_conflicts r = [])) es rs"
    using raw(2) by (simp add: rows(2) list_all2_map2 held_at_holds [OF b'])
  ultimately show ?thesis by blast
qed

lemma pg_pull_answers:
  "single_workspace ws b \<Longrightarrow> pt_pull (pg_port D vf ws (Suc n) prose) k since b = (r, b') \<Longrightarrow>
   b' = b \<and> r = Inr (after_cursor k since (history ws b))"
  by (auto simp: pg_port_def single_workspace_def pull_history after_cursor_def)

interpretation pg: backend_port "pg_port D vf ws (Suc n) prose" "history ws" "single_workspace ws"
  by unfold_locales
    (fact pg_commit_ok pg_hist_ok pg_push_ok pg_handshake_ok | blast dest: pg_commit_error pg_commit_rejects pg_commit_answers pg_pull_answers)+

end
