(* ===== verification/Effects.thy ===== *)
theory Effects
  imports Prelude
begin

text \<open>
  Stateful code that may raise: a computation takes a state and returns an error or a value, and
  the state it leaves behind.  An exception keeps the effects that happened before it, as in
  Python; \<open>etrans\<close> is the database session around a block, which restores the part of the
  state the transaction owns when the block raises.  \<open>keeps P m\<close> says \<open>m\<close> preserves \<open>P\<close>
  however it ends, \<open>moves R m\<close> that it only takes steps of the relation \<open>R\<close>; both have a rule
  per combinator, collected in \<open>keeps_intros\<close> and \<open>moves_intros\<close>.
\<close>

section \<open>Computations\<close>

type_synonym ('s, 'e, 'a) eff = "'s \<Rightarrow> ('e + 'a) \<times> 's"

definition eret :: "'a \<Rightarrow> ('s, 'e, 'a) eff" where
  "eret x s = (Inr x, s)"

definition eraise :: "'e \<Rightarrow> ('s, 'e, 'a) eff" where
  "eraise e s = (Inl e, s)"

definition ebind :: "('s, 'e, 'a) eff \<Rightarrow> ('a \<Rightarrow> ('s, 'e, 'b) eff) \<Rightarrow> ('s, 'e, 'b) eff" where
  "ebind m k s = (case m s of (Inl e, s') \<Rightarrow> (Inl e, s') | (Inr x, s') \<Rightarrow> k x s')"

definition eseq :: "('s, 'e, unit) eff \<Rightarrow> ('s, 'e, 'b) eff \<Rightarrow> ('s, 'e, 'b) eff" where
  "eseq m n = ebind m (\<lambda>_. n)"

definition eget :: "('s \<Rightarrow> 'a) \<Rightarrow> ('s, 'e, 'a) eff" where
  "eget f s = (Inr (f s), s)"

definition emod :: "('s \<Rightarrow> 's) \<Rightarrow> ('s, 'e, unit) eff" where
  "emod f s = (Inr (), f s)"

definition elift :: "('x \<Rightarrow> 'e) \<Rightarrow> 'x + 'a \<Rightarrow> ('s, 'e, 'a) eff" where
  "elift f r s = (case r of Inl x \<Rightarrow> (Inl (f x), s) | Inr x \<Rightarrow> (Inr x, s))"

definition ecatch :: "('s, 'e, 'a) eff \<Rightarrow> ('e \<Rightarrow> ('s, 'e, 'a) eff) \<Rightarrow> ('s, 'e, 'a) eff" where
  "ecatch m h s = (case m s of (Inl e, s') \<Rightarrow> h e s' | (Inr x, s') \<Rightarrow> (Inr x, s'))"

definition etry :: "('s, 'e, 'a) eff \<Rightarrow> ('s, 'e, 'e + 'a) eff" where
  "etry m s = (case m s of (r, s') \<Rightarrow> (Inr r, s'))"

fun efor :: "('x \<Rightarrow> ('s, 'e, unit) eff) \<Rightarrow> 'x list \<Rightarrow> ('s, 'e, unit) eff" where
  "efor f [] = eret ()"
| "efor f (x # xs) = eseq (f x) (efor f xs)"

fun efold :: "('x \<Rightarrow> 'a \<Rightarrow> ('s, 'e, 'a) eff) \<Rightarrow> 'x list \<Rightarrow> 'a \<Rightarrow> ('s, 'e, 'a) eff" where
  "efold f [] a = eret a"
| "efold f (x # xs) a = ebind (f x a) (efold f xs)"

definition etrans :: "('s \<Rightarrow> 'd) \<Rightarrow> ('d \<Rightarrow> 's \<Rightarrow> 's) \<Rightarrow> ('s, 'e, 'a) eff \<Rightarrow> ('s, 'e, 'a) eff" where
  "etrans get put m s = (case m s of (Inl e, s') \<Rightarrow> (Inl e, put (get s) s') | (Inr x, s') \<Rightarrow> (Inr x, s'))"

lemmas eff_defs = eret_def eraise_def ebind_def eseq_def eget_def emod_def elift_def ecatch_def etry_def etrans_def

lemma efor_cong [fundef_cong]:
  "xs = ys \<Longrightarrow> (\<And>x. x \<in> set ys \<Longrightarrow> f x = g x) \<Longrightarrow> efor f xs = efor g ys"
  by (induction xs arbitrary: ys) auto

section \<open>Successful runs\<close>

text \<open>A computation that returns went through each of its parts.\<close>

lemma eret_Inr [simp]: "eret x s = (Inr y, s') \<longleftrightarrow> y = x \<and> s' = s"
  by (auto simp: eret_def)

lemma eret_Inl [simp]: "eret x s \<noteq> (Inl e, s')"
  by (simp add: eret_def)

lemma eraise_Inr [simp]: "eraise e s \<noteq> (Inr x, s')"
  by (simp add: eraise_def)

lemma eraise_Inl [simp]: "eraise e s = (Inl e', s') \<longleftrightarrow> e' = e \<and> s' = s"
  by (auto simp: eraise_def)

lemma eget_Inr [simp]: "eget f s = (Inr x, s') \<longleftrightarrow> x = f s \<and> s' = s"
  by (auto simp: eget_def)

lemma eget_Inl [simp]: "eget f s \<noteq> (Inl e, s')"
  by (simp add: eget_def)

lemma emod_Inr [simp]: "emod f s = (Inr x, s') \<longleftrightarrow> s' = f s"
  by (auto simp: emod_def)

lemma emod_Inl [simp]: "emod f s \<noteq> (Inl e, s')"
  by (simp add: emod_def)

lemma elift_Inr [simp]: "elift f r s = (Inr x, s') \<longleftrightarrow> r = Inr x \<and> s' = s"
  by (auto simp: elift_def split: sum.splits)

lemma elift_Inl [simp]: "elift f r s = (Inl e, s') \<longleftrightarrow> s' = s \<and> (\<exists>x. r = Inl x \<and> e = f x)"
  by (auto simp: elift_def split: sum.splits)

lemma ebind_Inr: "ebind m k s = (Inr y, s') \<longleftrightarrow> (\<exists>x t. m s = (Inr x, t) \<and> k x t = (Inr y, s'))"
  by (auto simp: ebind_def split: prod.splits sum.splits)

lemma ebind_Inl:
  "ebind m k s = (Inl e, s') \<longleftrightarrow> m s = (Inl e, s') \<or> (\<exists>x t. m s = (Inr x, t) \<and> k x t = (Inl e, s'))"
  by (auto simp: ebind_def split: prod.splits sum.splits)

lemma eseq_Inr: "eseq m n s = (Inr y, s') \<longleftrightarrow> (\<exists>t. m s = (Inr (), t) \<and> n t = (Inr y, s'))"
  by (simp add: eseq_def ebind_Inr)

lemma eseq_Inl:
  "eseq m n s = (Inl e, s') \<longleftrightarrow> m s = (Inl e, s') \<or> (\<exists>t. m s = (Inr (), t) \<and> n t = (Inl e, s'))"
  by (simp add: eseq_def ebind_Inl)

lemma etry_iff [simp]: "etry m s = (r, s') \<longleftrightarrow> (\<exists>x. r = Inr x \<and> m s = (x, s'))"
  by (auto simp: etry_def split: prod.splits)

lemma etrans_Inr [simp]: "etrans g p m s = (Inr x, s') \<longleftrightarrow> m s = (Inr x, s')"
  by (auto simp: etrans_def split: prod.splits sum.splits)

lemma etrans_Inl: "etrans g p m s = (Inl e, s') \<longleftrightarrow> (\<exists>t. m s = (Inl e, t) \<and> s' = p (g s) t)"
  by (auto simp: etrans_def split: prod.splits sum.splits)

lemmas eff_iffs = ebind_Inr ebind_Inl eseq_Inr eseq_Inl etrans_Inl

section \<open>Preservation\<close>

named_theorems keeps_intros

definition keeps :: "('s \<Rightarrow> bool) \<Rightarrow> ('s, 'e, 'a) eff \<Rightarrow> bool" where
  "keeps P m \<longleftrightarrow> (\<forall>s. P s \<longrightarrow> P (snd (m s)))"

lemma keepsD: "keeps P m \<Longrightarrow> m s = (r, s') \<Longrightarrow> P s \<Longrightarrow> P s'"
  by (force simp: keeps_def)

lemma keepsI: "(\<And>s r s'. P s \<Longrightarrow> m s = (r, s') \<Longrightarrow> P s') \<Longrightarrow> keeps P m"
  unfolding keeps_def by (metis prod.collapse)

lemma keeps_eret [keeps_intros]: "keeps P (eret x)"
  by (simp add: keeps_def eret_def)

lemma keeps_eraise [keeps_intros]: "keeps P (eraise e)"
  by (simp add: keeps_def eraise_def)

lemma keeps_eget [keeps_intros]: "keeps P (eget f)"
  by (simp add: keeps_def eget_def)

lemma keeps_elift [keeps_intros]: "keeps P (elift f r)"
  by (simp add: keeps_def elift_def split: sum.splits)

lemma keeps_ebind [keeps_intros]: "keeps P m \<Longrightarrow> (\<And>x. keeps P (k x)) \<Longrightarrow> keeps P (ebind m k)"
  by (fastforce simp: keeps_def ebind_def split: prod.splits sum.splits)

lemma keeps_eseq [keeps_intros]: "keeps P m \<Longrightarrow> keeps P n \<Longrightarrow> keeps P (eseq m n)"
  by (simp add: eseq_def keeps_ebind)

lemma keeps_ecatch [keeps_intros]: "keeps P m \<Longrightarrow> (\<And>e. keeps P (h e)) \<Longrightarrow> keeps P (ecatch m h)"
  by (fastforce simp: keeps_def ecatch_def split: prod.splits sum.splits)

lemma keeps_etry [keeps_intros]: "keeps P m \<Longrightarrow> keeps P (etry m)"
  by (fastforce simp: keeps_def etry_def split: prod.splits)

lemma keeps_efor [keeps_intros]: "(\<And>x. x \<in> set xs \<Longrightarrow> keeps P (f x)) \<Longrightarrow> keeps P (efor f xs)"
  by (induction xs) (simp_all add: keeps_eret keeps_eseq)

lemma keeps_efold [keeps_intros]: "(\<And>x a. x \<in> set xs \<Longrightarrow> keeps P (f x a)) \<Longrightarrow> keeps P (efold f xs a)"
  by (induction xs arbitrary: a) (simp_all add: keeps_eret keeps_ebind)

lemma keeps_if [keeps_intros]: "(b \<Longrightarrow> keeps P m) \<Longrightarrow> (\<not> b \<Longrightarrow> keeps P n) \<Longrightarrow> keeps P (if b then m else n)"
  by simp

lemma keeps_option [keeps_intros]:
  "keeps P m \<Longrightarrow> (\<And>y. x = Some y \<Longrightarrow> keeps P (n y)) \<Longrightarrow> keeps P (case x of None \<Rightarrow> m | Some y \<Rightarrow> n y)"
  by (cases x) auto

lemma keeps_sum [keeps_intros]:
  "(\<And>y. x = Inl y \<Longrightarrow> keeps P (m y)) \<Longrightarrow> (\<And>y. x = Inr y \<Longrightarrow> keeps P (n y)) \<Longrightarrow>
   keeps P (case x of Inl y \<Rightarrow> m y | Inr y \<Rightarrow> n y)"
  by (cases x) auto

lemma keeps_prod [keeps_intros]: "(\<And>a b. keeps P (f a b)) \<Longrightarrow> keeps P (case x of (a, b) \<Rightarrow> f a b)"
  by (cases x) auto

lemma keeps_let [keeps_intros]: "(\<And>x. keeps P (f x)) \<Longrightarrow> keeps P (Let y f)"
  by simp

lemma keeps_etrans [keeps_intros]:
  "keeps P m \<Longrightarrow> (\<And>s t. P s \<Longrightarrow> P t \<Longrightarrow> P (p (g s) t)) \<Longrightarrow> keeps P (etrans g p m)"
  by (fastforce simp: keeps_def etrans_def split: prod.splits sum.splits)

section \<open>Progress\<close>

text \<open>A relation that every step of a computation moves along; it must compose.\<close>

definition moves :: "('s \<Rightarrow> 's \<Rightarrow> bool) \<Rightarrow> ('s, 'e, 'a) eff \<Rightarrow> bool" where
  "moves R m \<longleftrightarrow> (\<forall>s. R s (snd (m s)))"

lemma movesD: "moves R m \<Longrightarrow> m s = (r, s') \<Longrightarrow> R s s'"
  unfolding moves_def by (metis snd_conv)

lemma movesI: "(\<And>s r s'. m s = (r, s') \<Longrightarrow> R s s') \<Longrightarrow> moves R m"
  unfolding moves_def by (metis prod.collapse)

named_theorems moves_intros

locale progress =
  fixes R :: "'s \<Rightarrow> 's \<Rightarrow> bool"
  assumes R_refl: "R s s"
    and R_trans: "R s t \<Longrightarrow> R t u \<Longrightarrow> R s u"
begin

lemma moves_eret [moves_intros]: "moves R (eret x)"
  by (simp add: moves_def eret_def R_refl)

lemma moves_eraise [moves_intros]: "moves R (eraise e)"
  by (simp add: moves_def eraise_def R_refl)

lemma moves_eget [moves_intros]: "moves R (eget f)"
  by (simp add: moves_def eget_def R_refl)

lemma moves_elift [moves_intros]: "moves R (elift f r)"
  by (simp add: moves_def elift_def R_refl split: sum.splits)

lemma moves_ebind [moves_intros]:
  assumes "moves R m" "\<And>x. moves R (k x)"
  shows "moves R (ebind m k)"
proof (rule movesI)
  fix s r s' assume run: "ebind m k s = (r, s')"
  obtain r1 t where m: "m s = (r1, t)" by (cases "m s")
  show "R s s'"
  proof (cases r1)
    case (Inl e)
    with run m have "s' = t" by (simp add: ebind_def)
    with m show ?thesis using movesD [OF assms(1)] by simp
  next
    case (Inr x)
    with run m have "k x t = (r, s')" by (simp add: ebind_def)
    then show ?thesis using movesD [OF assms(1) m] movesD [OF assms(2)] R_trans by blast
  qed
qed

lemma moves_eseq [moves_intros]: "moves R m \<Longrightarrow> moves R n \<Longrightarrow> moves R (eseq m n)"
  by (simp add: eseq_def moves_ebind)

lemma moves_etry [moves_intros]: "moves R m \<Longrightarrow> moves R (etry m)"
  by (simp add: moves_def etry_def split_beta)

lemma moves_efor [moves_intros]: "(\<And>x. x \<in> set xs \<Longrightarrow> moves R (f x)) \<Longrightarrow> moves R (efor f xs)"
  by (induction xs) (simp_all add: moves_eret moves_eseq)

lemma moves_efold [moves_intros]: "(\<And>x a. x \<in> set xs \<Longrightarrow> moves R (f x a)) \<Longrightarrow> moves R (efold f xs a)"
  by (induction xs arbitrary: a) (simp_all add: moves_eret moves_ebind)

lemma moves_if [moves_intros]: "(b \<Longrightarrow> moves R m) \<Longrightarrow> (\<not> b \<Longrightarrow> moves R n) \<Longrightarrow> moves R (if b then m else n)"
  by simp

lemma moves_option [moves_intros]:
  "moves R m \<Longrightarrow> (\<And>y. x = Some y \<Longrightarrow> moves R (n y)) \<Longrightarrow> moves R (case x of None \<Rightarrow> m | Some y \<Rightarrow> n y)"
  by (cases x) auto

lemma moves_sum [moves_intros]:
  "(\<And>y. x = Inl y \<Longrightarrow> moves R (m y)) \<Longrightarrow> (\<And>y. x = Inr y \<Longrightarrow> moves R (n y)) \<Longrightarrow>
   moves R (case x of Inl y \<Rightarrow> m y | Inr y \<Rightarrow> n y)"
  by (cases x) auto

lemma moves_prod [moves_intros]: "(\<And>a b. moves R (f a b)) \<Longrightarrow> moves R (case x of (a, b) \<Rightarrow> f a b)"
  by (cases x) auto

lemma moves_let [moves_intros]: "(\<And>x. moves R (f x)) \<Longrightarrow> moves R (Let y f)"
  by simp

lemma moves_etrans [moves_intros]:
  assumes "moves R m" "\<And>s t. R s t \<Longrightarrow> R s (p (g s) t)"
  shows "moves R (etrans g p m)"
proof (rule movesI)
  fix s r s' assume run: "etrans g p m s = (r, s')"
  obtain r1 t where m: "m s = (r1, t)" by (cases "m s")
  note st = movesD [OF assms(1) m]
  with run m assms(2) [OF st] show "R s s'" by (cases r1) (auto simp: etrans_def)
qed

end

section \<open>Errors a computation cannot raise\<close>

named_theorems avoids_intros

definition avoids :: "'e \<Rightarrow> ('s, 'e, 'a) eff \<Rightarrow> bool" where
  "avoids x m \<longleftrightarrow> (\<forall>s s'. m s \<noteq> (Inl x, s'))"

lemma avoidsI: "(\<And>s s'. m s = (Inl x, s') \<Longrightarrow> False) \<Longrightarrow> avoids x m"
  by (auto simp: avoids_def)

lemma avoidsD: "avoids x m \<Longrightarrow> m s = (Inl x, s') \<Longrightarrow> False"
  by (simp add: avoids_def)

lemma avoids_eret [avoids_intros]: "avoids x (eret y)"
  by (simp add: avoids_def)

lemma avoids_eraise [avoids_intros]: "e \<noteq> x \<Longrightarrow> avoids x (eraise e)"
  by (simp add: avoids_def)

lemma avoids_eget [avoids_intros]: "avoids x (eget f)"
  by (simp add: avoids_def)

lemma avoids_emod [avoids_intros]: "avoids x (emod f)"
  by (simp add: avoids_def)

lemma avoids_elift [avoids_intros]: "(\<And>y. r = Inl y \<Longrightarrow> f y \<noteq> x) \<Longrightarrow> avoids x (elift f r)"
  by (auto simp: avoids_def)

lemma avoids_ebind [avoids_intros]: "avoids x m \<Longrightarrow> (\<And>y. avoids x (k y)) \<Longrightarrow> avoids x (ebind m k)"
  by (auto simp: avoids_def ebind_Inl)

lemma avoids_eseq [avoids_intros]: "avoids x m \<Longrightarrow> avoids x n \<Longrightarrow> avoids x (eseq m n)"
  by (simp add: eseq_def avoids_ebind)

lemma avoids_efor [avoids_intros]: "(\<And>y. y \<in> set ys \<Longrightarrow> avoids x (f y)) \<Longrightarrow> avoids x (efor f ys)"
  by (induction ys) (simp_all add: avoids_eret avoids_eseq)

lemma avoids_efold [avoids_intros]: "(\<And>y a. y \<in> set ys \<Longrightarrow> avoids x (f y a)) \<Longrightarrow> avoids x (efold f ys a)"
  by (induction ys arbitrary: a) (simp_all add: avoids_eret avoids_ebind)

lemma avoids_if [avoids_intros]: "(b \<Longrightarrow> avoids x m) \<Longrightarrow> (\<not> b \<Longrightarrow> avoids x n) \<Longrightarrow> avoids x (if b then m else n)"
  by simp

lemma avoids_option [avoids_intros]:
  "avoids x m \<Longrightarrow> (\<And>y. z = Some y \<Longrightarrow> avoids x (n y)) \<Longrightarrow> avoids x (case z of None \<Rightarrow> m | Some y \<Rightarrow> n y)"
  by (cases z) auto

lemma avoids_prod [avoids_intros]: "(\<And>a b. avoids x (f a b)) \<Longrightarrow> avoids x (case z of (a, b) \<Rightarrow> f a b)"
  by (cases z) auto

lemma avoids_let [avoids_intros]: "(\<And>z. avoids x (f z)) \<Longrightarrow> avoids x (Let y f)"
  by simp

lemma avoids_etrans [avoids_intros]: "avoids x m \<Longrightarrow> avoids x (etrans g p m)"
  by (auto simp: avoids_def etrans_Inl)

end
