(* ===== verification/Schema.thy ===== *)
theory Schema
  imports Meta
begin

text \<open>
  The collection tables (\<open>kantaq_db/models.py\<close>) and the database operations the program runs on
  them.  A model is its list of columns (kind, nullability, default, foreign key) and its unique
  constraints; a table maps ids to rows, a row maps columns to cells, a cell is a JSON-native
  value or a datetime (microseconds).  Insert, update and delete enforce what the database
  does with \<open>foreign_keys=ON\<close>: primary key, NOT NULL, UNIQUE and references.  Lengths
  (\<open>max_length\<close>) are not enforced by SQLite and table models do not validate, so they are left out.
\<close>

section \<open>Models\<close>

datatype kind = KStr | KInt | KDateTime | KJson

datatype coldefault = NoDefault | Val pyval | NewId | UtcNow

record column =
  c_name :: pystr
  c_kind :: kind
  c_nullable :: bool
  c_default :: coldefault
  c_fk :: "pystr option"

record model =
  m_table :: pystr
  m_columns :: "column list"
  m_unique :: "pystr list list"

definition column :: "string \<Rightarrow> kind \<Rightarrow> bool \<Rightarrow> coldefault \<Rightarrow> pystr option \<Rightarrow> column" where
  "column n k nl d fk = \<lparr>c_name = lit n, c_kind = k, c_nullable = nl, c_default = d, c_fk = fk\<rparr>"

definition CollectionBase :: "column list" where
  "CollectionBase =
     [column ''id'' KStr False NewId None,
      column ''created_at'' KDateTime False UtcNow None,
      column ''updated_at'' KDateTime False UtcNow None,
      column ''actor_seq'' KInt False (Val (PInt 0)) None,
      column ''visibility'' KStr False (Val (PStr (lit ''team''))) None,
      column ''hosting_mode'' KStr False (Val (PStr (lit ''plain''))) None,
      column ''retention_policy'' KStr False (Val (PStr (lit ''standard''))) None]"

definition Workspace :: model where
  "Workspace = \<lparr>m_table = lit ''workspaces'', m_columns = CollectionBase @
     [column ''name'' KStr False NoDefault None],
     m_unique = []\<rparr>"

definition Project :: model where
  "Project = \<lparr>m_table = lit ''projects'', m_columns = CollectionBase @
     [column ''workspace_id'' KStr False NoDefault (Some (lit ''workspaces'')),
      column ''name'' KStr False NoDefault None,
      column ''goal'' KStr False (Val (PStr (lit ''''))) None,
      column ''scope'' KStr False (Val (PStr (lit ''''))) None,
      column ''owner'' KStr True (Val PNone) None,
      column ''target_date'' KDateTime True (Val PNone) None,
      column ''status'' KStr False (Val (PStr (lit ''active''))) None],
     m_unique = []\<rparr>"

definition Ticket :: model where
  "Ticket = \<lparr>m_table = lit ''tickets'', m_columns = CollectionBase @
     [column ''project_id'' KStr False NoDefault (Some (lit ''projects'')),
      column ''title'' KStr False NoDefault None,
      column ''description'' KStr False (Val (PStr (lit ''''))) None,
      column ''status'' KStr False (Val (PStr (lit ''todo''))) None,
      column ''priority'' KStr False (Val (PStr (lit ''medium''))) None,
      column ''labels'' KJson False (Val (PList [])) None,
      column ''assignee'' KStr True (Val PNone) None,
      column ''due_date'' KDateTime True (Val PNone) None,
      column ''acceptance_criteria'' KStr False (Val (PStr (lit ''''))) None,
      column ''lifecycle_stage'' KStr False (Val (PStr (lit ''intake''))) None,
      column ''parent_id'' KStr True (Val PNone) (Some (lit ''tickets'')),
      column ''created_by'' KStr True (Val PNone) None,
      column ''attachments'' KJson False (Val (PList [])) None],
     m_unique = []\<rparr>"

definition Comment :: model where
  "Comment = \<lparr>m_table = lit ''comments'', m_columns = CollectionBase @
     [column ''ticket_id'' KStr False NoDefault (Some (lit ''tickets'')),
      column ''author_actor_id'' KStr False NoDefault None,
      column ''body'' KStr False NoDefault None],
     m_unique = []\<rparr>"

definition TicketRelationship :: model where
  "TicketRelationship = \<lparr>m_table = lit ''ticket_relationships'', m_columns = CollectionBase @
     [column ''from_id'' KStr False NoDefault (Some (lit ''tickets'')),
      column ''to_id'' KStr False NoDefault (Some (lit ''tickets'')),
      column ''type'' KStr False NoDefault None,
      column ''created_by'' KStr True (Val PNone) None],
     m_unique = [[lit ''from_id'', lit ''to_id'', lit ''type'']]\<rparr>"

definition Member :: model where
  "Member = \<lparr>m_table = lit ''members'', m_columns = CollectionBase @
     [column ''workspace_id'' KStr False NoDefault (Some (lit ''workspaces'')),
      column ''email'' KStr False NoDefault None,
      column ''role'' KStr False (Val (PStr (lit ''Member''))) None,
      column ''status'' KStr False (Val (PStr (lit ''active''))) None],
     m_unique = []\<rparr>"

definition Token :: model where
  "Token = \<lparr>m_table = lit ''tokens'', m_columns = CollectionBase @
     [column ''member_id'' KStr False NoDefault (Some (lit ''members'')),
      column ''hashed'' KStr False NoDefault None,
      column ''scopes'' KJson False (Val (PList [])) None,
      column ''revoked_at'' KDateTime True (Val PNone) None],
     m_unique = []\<rparr>"

definition AuditEvent :: model where
  "AuditEvent = \<lparr>m_table = lit ''audit_events'', m_columns = CollectionBase @
     [column ''actor_id'' KStr False NoDefault None,
      column ''action'' KStr False NoDefault None,
      column ''object_ref'' KStr True (Val PNone) None,
      column ''before'' KJson True (Val PNone) None,
      column ''after'' KJson True (Val PNone) None,
      column ''source'' KStr False NoDefault None,
      column ''chain_hash'' KStr True (Val PNone) None],
     m_unique = []\<rparr>"

definition AgentProposal :: model where
  "AgentProposal = \<lparr>m_table = lit ''agent_proposals'', m_columns = CollectionBase @
     [column ''ticket_id'' KStr False NoDefault (Some (lit ''tickets'')),
      column ''proposer_id'' KStr False NoDefault None,
      column ''diff'' KJson False (Val (PDict [])) None,
      column ''status'' KStr False (Val (PStr (lit ''pending''))) None],
     m_unique = []\<rparr>"

definition MemoryEntry :: model where
  "MemoryEntry = \<lparr>m_table = lit ''memory_entries'', m_columns = CollectionBase @
     [column ''title'' KStr False NoDefault None,
      column ''body'' KStr False (Val (PStr (lit ''''))) None,
      column ''type'' KStr False (Val (PStr (lit ''note''))) None,
      column ''source'' KStr False (Val (PStr (lit ''manual''))) None,
      column ''space'' KStr False (Val (PStr (lit ''workspace''))) None,
      column ''linked_entities'' KJson False (Val (PList [])) None,
      column ''provenance'' KJson False (Val (PDict [])) None,
      column ''confidence'' KStr False (Val (PStr (lit ''medium''))) None,
      column ''review_status'' KStr False (Val (PStr (lit ''draft''))) None,
      column ''expires_at'' KDateTime True (Val PNone) None,
      column ''created_by'' KStr True (Val PNone) None],
     m_unique = []\<rparr>"

definition MemoryLink :: model where
  "MemoryLink = \<lparr>m_table = lit ''memory_links'', m_columns = CollectionBase @
     [column ''ticket_id'' KStr False NoDefault (Some (lit ''tickets'')),
      column ''memory_id'' KStr False NoDefault (Some (lit ''memory_entries'')),
      column ''reason'' KStr False NoDefault None,
      column ''created_by'' KStr True (Val PNone) None],
     m_unique = [[lit ''ticket_id'', lit ''memory_id'']]\<rparr>"

definition Device :: model where
  "Device = \<lparr>m_table = lit ''devices'', m_columns = CollectionBase @
     [column ''public_key'' KStr False NoDefault None,
      column ''member_id'' KStr True (Val PNone) (Some (lit ''members'')),
      column ''label'' KStr False (Val (PStr (lit ''''))) None,
      column ''revoked_at'' KDateTime True (Val PNone) None],
     m_unique = [[lit ''public_key'']]\<rparr>"

definition CapabilityGrantRow :: model where
  "CapabilityGrantRow = \<lparr>m_table = lit ''capability_grants'', m_columns = CollectionBase @
     [column ''subject'' KStr False NoDefault (Some (lit ''members'')),
      column ''issuer'' KStr False NoDefault (Some (lit ''devices'')),
      column ''resource'' KStr False NoDefault None,
      column ''verbs'' KJson False (Val (PList [])) None,
      column ''issued_at'' KInt False NoDefault None,
      column ''expires_at'' KInt False NoDefault None,
      column ''revokes'' KStr True (Val PNone) None,
      column ''sig'' KStr True (Val PNone) None,
      column ''token_id'' KStr True (Val PNone) (Some (lit ''tokens'')),
      column ''revoked_at'' KDateTime True (Val PNone) None],
     m_unique = []\<rparr>"

definition SkillContainerRow :: model where
  "SkillContainerRow = \<lparr>m_table = lit ''skill_containers'', m_columns = CollectionBase @
     [column ''slug'' KStr False NoDefault None,
      column ''name'' KStr False NoDefault None,
      column ''recommended_roles'' KJson False (Val (PList [])) None,
      column ''supported_stages'' KJson False (Val (PList [])) None,
      column ''required_input'' KStr False (Val (PStr (lit ''''))) None,
      column ''expected_output'' KStr False (Val (PStr (lit ''''))) None,
      column ''allowed_tools'' KJson False (Val (PList [])) None,
      column ''default_write_mode'' KStr False (Val (PStr (lit ''read''))) None,
      column ''risk_level'' KStr False (Val (PStr (lit ''low''))) None],
     m_unique = [[lit ''slug'']]\<rparr>"

definition SkillMappingRow :: model where
  "SkillMappingRow = \<lparr>m_table = lit ''skill_mappings'', m_columns = CollectionBase @
     [column ''container_id'' KStr False NoDefault (Some (lit ''skill_containers'')),
      column ''scope'' KStr False (Val (PStr (lit ''personal''))) None,
      column ''provider'' KStr False (Val (PStr (lit ''''))) None,
      column ''connection'' KStr False (Val (PStr (lit ''''))) None,
      column ''status'' KStr False (Val (PStr (lit ''active''))) None,
      column ''created_by'' KStr True (Val PNone) None],
     m_unique = []\<rparr>"

definition ConflictRecord :: model where
  "ConflictRecord = \<lparr>m_table = lit ''conflict_records'', m_columns = CollectionBase @
     [column ''workspace_id'' KStr False NoDefault (Some (lit ''workspaces'')),
      column ''collection'' KStr False NoDefault None,
      column ''entity_id'' KStr False NoDefault None,
      column ''field'' KStr False NoDefault None,
      column ''contending_revisions'' KJson False (Val (PList [])) None,
      column ''candidate_values'' KJson False (Val (PDict [])) None,
      column ''base_rev'' KInt False (Val (PInt 0)) None,
      column ''head_rev'' KInt False (Val (PInt 0)) None,
      column ''actor'' KStr False NoDefault None,
      column ''status'' KStr False (Val (PStr (lit ''open''))) None,
      column ''resolved_by'' KStr True (Val PNone) None,
      column ''resolved_choice'' KStr True (Val PNone) None,
      column ''resolved_at'' KDateTime True (Val PNone) None],
     m_unique = []\<rparr>"

definition AuditAnchorRow :: model where
  "AuditAnchorRow = \<lparr>m_table = lit ''audit_anchors'', m_columns = CollectionBase @
     [column ''actor_id'' KStr False NoDefault None,
      column ''range_start'' KStr False NoDefault None,
      column ''range_end'' KStr False NoDefault None,
      column ''merkle_root'' KStr False NoDefault None,
      column ''tree_size'' KInt False NoDefault None,
      column ''chain_tip'' KStr False NoDefault None,
      column ''external_pin'' KStr True (Val PNone) None],
     m_unique = []\<rparr>"

definition Milestone :: model where
  "Milestone = \<lparr>m_table = lit ''milestones'', m_columns = CollectionBase @
     [column ''project_id'' KStr False NoDefault (Some (lit ''projects'')),
      column ''name'' KStr False NoDefault None,
      column ''description'' KStr False (Val (PStr (lit ''''))) None,
      column ''target_date'' KDateTime True (Val PNone) None,
      column ''status'' KStr False (Val (PStr (lit ''active''))) None,
      column ''created_by'' KStr True (Val PNone) None],
     m_unique = []\<rparr>"

definition TicketMilestone :: model where
  "TicketMilestone = \<lparr>m_table = lit ''ticket_milestones'', m_columns = CollectionBase @
     [column ''ticket_id'' KStr False NoDefault (Some (lit ''tickets'')),
      column ''milestone_id'' KStr False NoDefault (Some (lit ''milestones'')),
      column ''created_by'' KStr True (Val PNone) None],
     m_unique = [[lit ''ticket_id'', lit ''milestone_id'']]\<rparr>"

definition FollowUp :: model where
  "FollowUp = \<lparr>m_table = lit ''follow_ups'', m_columns = CollectionBase @
     [column ''ticket_id'' KStr False NoDefault (Some (lit ''tickets'')),
      column ''title'' KStr False NoDefault None,
      column ''body'' KStr False (Val (PStr (lit ''''))) None,
      column ''status'' KStr False (Val (PStr (lit ''open''))) None,
      column ''due_at'' KDateTime True (Val PNone) None,
      column ''created_by'' KStr True (Val PNone) None,
      column ''provenance'' KJson False (Val (PDict [])) None],
     m_unique = []\<rparr>"

definition COLLECTION_MODELS :: "model list" where
  "COLLECTION_MODELS =
     [Workspace, Project, Ticket, Comment, TicketRelationship, Member, Token, AuditEvent, AgentProposal, MemoryEntry, MemoryLink, Device, CapabilityGrantRow, SkillContainerRow, SkillMappingRow, ConflictRecord, AuditAnchorRow, Milestone, TicketMilestone, FollowUp]"

definition model_of :: "pystr \<Rightarrow> model option" where
  "model_of t = List.find (\<lambda>m. m_table m = t) COLLECTION_MODELS"

definition column_of :: "model \<Rightarrow> pystr \<Rightarrow> column option" where
  "column_of m f = List.find (\<lambda>c. c_name c = f) (m_columns m)"

section \<open>Tables\<close>

datatype cell = Cell pyval | Time int

type_synonym row = "(pystr, cell) dict"
type_synonym tables = "pystr \<Rightarrow> (pystr, row) dict"

record env =
  env_now :: int
  env_id :: pystr

datatype db_error =
    NotNullError
  | ForeignKeyError
  | UniqueError
  | StatementError

definition get_row :: "tables \<Rightarrow> model \<Rightarrow> pystr \<Rightarrow> row option" where
  "get_row ts m i = dget (ts (m_table m)) i"

definition default_cell :: "env \<Rightarrow> column \<Rightarrow> cell" where
  "default_cell v c =
     (case c_default c of
        NoDefault \<Rightarrow> Cell PNone
      | Val x \<Rightarrow> Cell x
      | NewId \<Rightarrow> Cell (PStr (env_id v))
      | UtcNow \<Rightarrow> Time (env_now v))"

definition new_row :: "env \<Rightarrow> model \<Rightarrow> row \<Rightarrow> row" where
  "new_row v m flds =
     map (\<lambda>c. (c_name c, case dget flds (c_name c) of Some x \<Rightarrow> x | None \<Rightarrow> default_cell v c)) (m_columns m)"

definition cell_of :: "row \<Rightarrow> pystr \<Rightarrow> cell" where
  "cell_of r f = (case dget r f of None \<Rightarrow> Cell PNone | Some c \<Rightarrow> c)"

definition id_of :: "row \<Rightarrow> pystr option" where
  "id_of r = (case cell_of r (lit ''id'') of Cell (PStr i) \<Rightarrow> Some i | _ \<Rightarrow> None)"

definition null_ok :: "model \<Rightarrow> row \<Rightarrow> bool" where
  "null_ok m r \<longleftrightarrow> list_all (\<lambda>c. c_nullable c \<or> cell_of r (c_name c) \<noteq> Cell PNone) (m_columns m)"

definition types_ok :: "model \<Rightarrow> row \<Rightarrow> bool" where
  "types_ok m r \<longleftrightarrow> list_all (\<lambda>c. case cell_of r (c_name c) of
     Time _ \<Rightarrow> c_kind c = KDateTime | Cell v \<Rightarrow> v = PNone \<or> c_kind c \<noteq> KDateTime) (m_columns m)"

definition fk_ok :: "tables \<Rightarrow> model \<Rightarrow> row \<Rightarrow> bool" where
  "fk_ok ts m r \<longleftrightarrow> list_all (\<lambda>c. case c_fk c of None \<Rightarrow> True
     | Some t \<Rightarrow> (case cell_of r (c_name c) of
         Cell PNone \<Rightarrow> True
       | Cell (PStr i) \<Rightarrow> dget (ts t) i \<noteq> None \<or> t = m_table m \<and> id_of r = Some i
       | _ \<Rightarrow> False)) (m_columns m)"

text \<open>NULLs are distinct from each other under UNIQUE.\<close>

definition unique_ok :: "tables \<Rightarrow> model \<Rightarrow> pystr \<Rightarrow> row \<Rightarrow> bool" where
  "unique_ok ts m i r \<longleftrightarrow> list_all (\<lambda>cols. Cell PNone \<in> set (map (cell_of r) cols) \<or>
     list_all (\<lambda>(j, s). j = i \<or> map (cell_of s) cols \<noteq> map (cell_of r) cols) (ts (m_table m))) (m_unique m)"

definition check_row :: "tables \<Rightarrow> model \<Rightarrow> pystr \<Rightarrow> row \<Rightarrow> db_error + unit" where
  "check_row ts m i r =
     (if \<not> types_ok m r then Inl StatementError
      else if \<not> null_ok m r then Inl NotNullError
      else if \<not> unique_ok ts m i r then Inl UniqueError
      else if \<not> fk_ok ts m r then Inl ForeignKeyError
      else Inr ())"

definition put_row :: "model \<Rightarrow> pystr \<Rightarrow> row \<Rightarrow> tables \<Rightarrow> tables" where
  "put_row m i r ts = ts(m_table m := dset i r (ts (m_table m)))"

definition row_insert :: "model \<Rightarrow> row \<Rightarrow> tables \<Rightarrow> db_error + tables" where
  "row_insert m r ts =
     (case id_of r of
        None \<Rightarrow> Inl NotNullError
      | Some i \<Rightarrow>
          if dget (ts (m_table m)) i \<noteq> None then Inl UniqueError
          else rbind (check_row ts m i r) (\<lambda>_. Inr (put_row m i r ts)))"

definition referenced :: "tables \<Rightarrow> pystr \<Rightarrow> pystr \<Rightarrow> bool" where
  "referenced ts t i \<longleftrightarrow> list_ex (\<lambda>m. list_ex (\<lambda>c. c_fk c = Some t \<and>
     list_ex (\<lambda>(j, r). \<not> (m_table m = t \<and> j = i) \<and> cell_of r (c_name c) = Cell (PStr i)) (ts (m_table m)))
     (m_columns m)) COLLECTION_MODELS"

text \<open>An update that changes the primary key moves the row, if nothing refers to the old key.\<close>

definition row_update :: "model \<Rightarrow> pystr \<Rightarrow> row \<Rightarrow> tables \<Rightarrow> db_error + tables" where
  "row_update m i r ts =
     (case id_of r of
        None \<Rightarrow> Inl NotNullError
      | Some j \<Rightarrow>
          if j = i then rbind (check_row ts m i r) (\<lambda>_. Inr (put_row m i r ts))
          else if dget (ts (m_table m)) j \<noteq> None then Inl UniqueError
          else if referenced ts (m_table m) i then Inl ForeignKeyError
          else rbind (check_row ts m i r) (\<lambda>_.
            Inr (put_row m j r (ts(m_table m := AList.delete i (ts (m_table m)))))))"

definition row_delete :: "model \<Rightarrow> pystr \<Rightarrow> tables \<Rightarrow> db_error + tables" where
  "row_delete m i ts =
     (if referenced ts (m_table m) i then Inl ForeignKeyError
      else Inr (ts(m_table m := AList.delete i (ts (m_table m)))))"

section \<open>Consistency of the tables\<close>

definition table_ok :: "tables \<Rightarrow> model \<Rightarrow> bool" where
  "table_ok ts m \<longleftrightarrow> dict_ok (ts (m_table m)) \<and>
     (\<forall>(i, r) \<in> set (ts (m_table m)). null_ok m r \<and> types_ok m r)"

lemma get_put_row [simp]: "get_row (put_row m i r ts) m j = (if j = i then Some r else get_row ts m j)"
  by (simp add: get_row_def put_row_def)

lemma put_row_other [simp]: "t \<noteq> m_table m \<Longrightarrow> put_row m i r ts t = ts t"
  by (simp add: put_row_def)

lemma check_row_Inr: "check_row ts m i r = Inr u \<longleftrightarrow> types_ok m r \<and> null_ok m r \<and> unique_ok ts m i r \<and> fk_ok ts m r"
  by (auto simp: check_row_def)

lemma set_dset: "set (dset k v d) \<subseteq> insert (k, v) (set d)"
  by (induction d) auto

lemma put_row_table_ok:
  "table_ok ts m' \<Longrightarrow> (m_table m = m_table m' \<Longrightarrow> null_ok m' r \<and> types_ok m' r) \<Longrightarrow> table_ok (put_row m i r ts) m'"
  using set_dset [of i r "ts (m_table m')"]
  by (auto simp: table_ok_def put_row_def)

lemma table_ok_delete: "table_ok ts m \<Longrightarrow> table_ok (ts(m_table m := AList.delete i (ts (m_table m)))) m"
  by (auto simp: table_ok_def dict_ok_def distinct_map_filter AList.delete_eq)

lemma row_insert_table_ok: "row_insert m r ts = Inr ts' \<Longrightarrow> table_ok ts m \<Longrightarrow> table_ok ts' m"
  by (auto simp: row_insert_def rbind_Inr_iff check_row_Inr intro!: put_row_table_ok split: option.splits if_splits)

lemma row_update_table_ok: "row_update m i r ts = Inr ts' \<Longrightarrow> table_ok ts m \<Longrightarrow> table_ok ts' m"
  by (auto simp: row_update_def rbind_Inr_iff check_row_Inr intro!: put_row_table_ok table_ok_delete
      split: option.splits if_splits)

lemma row_delete_table_ok: "row_delete m i ts = Inr ts' \<Longrightarrow> table_ok ts m \<Longrightarrow> table_ok ts' m"
  by (auto simp: row_delete_def table_ok_def dict_ok_def distinct_map_filter AList.delete_eq split: if_splits)

text \<open>Every column is filled in, so only NOT NULL columns without a default can be missing.\<close>

lemma dkeys_new_row [simp]: "dkeys (new_row v m flds) = map c_name (m_columns m)"
  by (simp add: new_row_def comp_def)

text \<open>The tables the metadata declares are the tables of the models, in the same order.\<close>

lemma collection_models_meta: "map m_table COLLECTION_MODELS = collection_names"
  by (simp add: COLLECTION_MODELS_def collection_names_def COLLECTION_META_def cmeta_def
      Workspace_def Project_def Ticket_def Comment_def TicketRelationship_def Member_def Token_def
      AuditEvent_def AgentProposal_def MemoryEntry_def MemoryLink_def Device_def CapabilityGrantRow_def
      SkillContainerRow_def SkillMappingRow_def ConflictRecord_def AuditAnchorRow_def Milestone_def
      TicketMilestone_def FollowUp_def)

end
