(* ===== verification/Apply.thy ===== *)
theory Apply
  imports EventLog Schema
begin

text \<open>
  Folding the log into the replica's tables (\<open>sync_engine/apply.py\<close>).  A refold never patches a
  row from one event: it folds all of the entity's events in resolution order and writes the
  result.  Trust roots and conflict records have their own ingest.  \<open>dt\<close> is
  \<open>datetime.fromisoformat\<close> on the string with \<open>Z\<close> replaced, as microseconds of the naive
  datetime, \<open>None\<close> for its \<open>ValueError\<close>.
\<close>

section \<open>Operations\<close>

datatype apply_error =
    UnknownCollectionError
  | ApplyValueError
  | ApplyTypeError
  | ApplyDb db_error

definition lift_db :: "db_error + 'a \<Rightarrow> apply_error + 'a" where
  "lift_db r = (case r of Inl e \<Rightarrow> Inl (ApplyDb e) | Inr x \<Rightarrow> Inr x)"

definition DOMAIN_MODELS :: "model list" where
  "DOMAIN_MODELS = [Workspace, Project, Ticket, Comment, TicketRelationship, Member, AgentProposal,
     MemoryEntry, MemoryLink, Milestone, TicketMilestone, FollowUp]"

definition TRUST_ROOT_MODELS :: "model list" where
  "TRUST_ROOT_MODELS = [Device, CapabilityGrantRow]"

definition CONFLICT_MODELS :: "model list" where
  "CONFLICT_MODELS = [ConflictRecord]"

definition SYNCABLE_MODELS :: "model list" where
  "SYNCABLE_MODELS = DOMAIN_MODELS @ TRUST_ROOT_MODELS @ CONFLICT_MODELS"

definition lookup_model :: "model list \<Rightarrow> pystr \<Rightarrow> model option" where
  "lookup_model ms c = List.find (\<lambda>m. m_table m = c) ms"

text \<open>\<open>value.replace("Z", "+00:00")\<close>\<close>

definition replace_z :: "pystr \<Rightarrow> pystr" where
  "replace_z s = concat (map (\<lambda>c. if c = 90 then lit ''+00:00'' else [c]) s)"

definition coerce_value :: "(pystr \<Rightarrow> int option) \<Rightarrow> model \<Rightarrow> pystr \<Rightarrow> pyval \<Rightarrow> apply_error + cell" where
  "coerce_value dt m f v =
     (case column_of m f of
        None \<Rightarrow> Inr (Cell v)
      | Some c \<Rightarrow>
          if v = PNone then Inr (Cell v)
          else (case v of
              PStr s \<Rightarrow>
                if c_kind c = KDateTime then
                  (case dt (replace_z s) of None \<Rightarrow> Inl ApplyValueError | Some t \<Rightarrow> Inr (Time t))
                else Inr (Cell v)
            | _ \<Rightarrow> Inr (Cell v)))"

definition folded_fields :: "(pystr \<Rightarrow> int option) \<Rightarrow> pystr \<Rightarrow> payload \<Rightarrow> apply_error + row" where
  "folded_fields dt c state =
     (case lookup_model SYNCABLE_MODELS c of
        None \<Rightarrow> Inl UnknownCollectionError
      | Some m \<Rightarrow>
          rmap (\<lambda>(f, v). rbind (coerce_value dt m f v) (\<lambda>x. Inr (f, x)))
            (filter (\<lambda>(f, v). column_of m f \<noteq> None) state))"

definition row_domain_event :: "log_row \<Rightarrow> domain_event" where
  "row_domain_event r = \<lparr>de_collection = collection r, de_entity_id = entity_id r, de_op = op r,
     de_payload = payload r, de_base_rev = base_rev r, de_committed_rev = committed_rev r\<rparr>"

definition folded_state :: "log \<Rightarrow> pystr \<Rightarrow> pystr \<Rightarrow> payload option" where
  "folded_state l c e = fold_entity e (map row_domain_event (entity_rows l c e))"

definition upsert_folded ::
    "(pystr \<Rightarrow> int option) \<Rightarrow> env \<Rightarrow> model \<Rightarrow> pystr \<Rightarrow> pystr \<Rightarrow> payload option \<Rightarrow> tables \<Rightarrow> apply_error + tables" where
  "upsert_folded dt v m c e state ts =
     (case state of
        None \<Rightarrow> if get_row ts m e \<noteq> None then lift_db (row_delete m e ts) else Inr ts
      | Some d \<Rightarrow>
          rbind (folded_fields dt c d) (\<lambda>flds.
          case get_row ts m e of
            None \<Rightarrow> lift_db (row_insert m (new_row v m flds) ts)
          | Some r \<Rightarrow> lift_db (row_update m e (dupdate r flds) ts)))"

definition fold_into ::
    "(pystr \<Rightarrow> int option) \<Rightarrow> env \<Rightarrow> log \<Rightarrow> model \<Rightarrow> pystr \<Rightarrow> pystr \<Rightarrow> tables \<Rightarrow> apply_error + tables" where
  "fold_into dt v l m c e ts = upsert_folded dt v m c e (folded_state l c e) ts"

definition ensure_member_for_fk :: "env \<Rightarrow> pyval \<Rightarrow> tables \<Rightarrow> apply_error + tables" where
  "ensure_member_for_fk v ref ts =
     (case ref of
        PStr i \<Rightarrow>
          if i = [] then Inr ts
          else if get_row ts Member i \<noteq> None then Inr ts
          else (case ts (m_table Workspace) of
              [] \<Rightarrow> Inr ts
            | (w, _) # _ \<Rightarrow>
                lift_db (row_insert Member (new_row v Member
                  [(lit ''id'', Cell (PStr i)), (lit ''workspace_id'', Cell (PStr w)),
                   (lit ''email'', Cell (PStr [])), (lit ''role'', Cell (PStr (lit ''Member''))),
                   (lit ''status'', Cell (PStr (lit ''active'')))]) ts))
      | _ \<Rightarrow> Inr ts)"

definition ingest_trust_root ::
    "(pystr \<Rightarrow> int option) \<Rightarrow> env \<Rightarrow> log \<Rightarrow> model \<Rightarrow> pystr \<Rightarrow> pystr \<Rightarrow> tables \<Rightarrow> apply_error + tables" where
  "ingest_trust_root dt v l m c e ts =
     (let state = folded_state l c e;
          ref = (if c = lit ''devices'' then lit ''member_id'' else lit ''subject'') in
      rbind (case state of
          None \<Rightarrow> Inr ts
        | Some d \<Rightarrow> ensure_member_for_fk v (case dget d ref of None \<Rightarrow> PNone | Some x \<Rightarrow> x) ts)
        (\<lambda>ts. upsert_folded dt v m c e state ts))"

text \<open>The loop of the conflict ingest: plain updates, and the first resolution seen.\<close>

definition RESOLVED :: pyval where "RESOLVED = PStr (lit ''resolved'')"

definition conflict_step :: "payload \<times> payload option \<Rightarrow> log_row \<Rightarrow> payload \<times> payload option" where
  "conflict_step s r =
     (dupdate (fst s) (payload r),
      if dget (payload r) (lit ''status'') = Some RESOLVED \<and> snd s = None then Some (payload r) else snd s)"

definition conflict_state :: "log_row list \<Rightarrow> payload" where
  "conflict_state rows =
     (let (state, resolution) = foldl conflict_step ([], None) rows in
      case resolution of
        None \<Rightarrow> state
      | Some p \<Rightarrow>
          foldl (\<lambda>st k. case dget p k of None \<Rightarrow> st | Some x \<Rightarrow> dset k x st)
            (dset (lit ''status'') RESOLVED state)
            [lit ''resolved_by'', lit ''resolved_choice'', lit ''resolved_at''])"

definition ingest_conflict_record ::
    "(pystr \<Rightarrow> int option) \<Rightarrow> env \<Rightarrow> log \<Rightarrow> pystr \<Rightarrow> tables \<Rightarrow> apply_error + tables" where
  "ingest_conflict_record dt v l e ts =
     (let state = conflict_state (entity_rows l (lit ''conflict_records'') e) in
      if state = [] then Inr ts
      else rbind (folded_fields dt (lit ''conflict_records'') state) (\<lambda>flds.
        case get_row ts ConflictRecord e of
          None \<Rightarrow>
            if dget flds (lit ''id'') \<noteq> None then Inl ApplyTypeError
            else lift_db (row_insert ConflictRecord (new_row v ConflictRecord ((lit ''id'', Cell (PStr e)) # flds)) ts)
        | Some r \<Rightarrow> lift_db (row_update ConflictRecord e (dupdate r flds) ts)))"

definition refold_entity ::
    "(pystr \<Rightarrow> int option) \<Rightarrow> env \<Rightarrow> log \<Rightarrow> pystr \<Rightarrow> pystr \<Rightarrow> tables \<Rightarrow> apply_error + tables" where
  "refold_entity dt v l c e ts =
     (case lookup_model TRUST_ROOT_MODELS c of
        Some m \<Rightarrow> ingest_trust_root dt v l m c e ts
      | None \<Rightarrow>
          (case lookup_model CONFLICT_MODELS c of
             Some _ \<Rightarrow> ingest_conflict_record dt v l e ts
           | None \<Rightarrow>
               (case lookup_model DOMAIN_MODELS c of
                  None \<Rightarrow> Inl UnknownCollectionError
                | Some m \<Rightarrow> fold_into dt v l m c e ts)))"

section \<open>Routing\<close>

lemma lift_db_Inr [simp]: "lift_db r = Inr x \<longleftrightarrow> r = Inr x"
  by (simp add: lift_db_def split: sum.splits)

lemma lookup_model_table: "lookup_model ms c = Some m \<Longrightarrow> m \<in> set ms \<and> m_table m = c"
  by (auto simp: lookup_model_def find_Some_iff)

lemma lookup_None: "lookup_model ms c = None \<longleftrightarrow> c \<notin> m_table ` set ms"
  by (auto simp: lookup_model_def find_None_iff)

lemma lookup_None' [simp]: "c \<notin> m_table ` set ms \<Longrightarrow> lookup_model ms c = None"
  by (simp add: lookup_None)

lemmas model_defs = Workspace_def Project_def Ticket_def Comment_def TicketRelationship_def Member_def
  AgentProposal_def MemoryEntry_def MemoryLink_def Milestone_def TicketMilestone_def FollowUp_def
  Device_def CapabilityGrantRow_def ConflictRecord_def

text \<open>No collection is folded by two of the three ingests.\<close>

lemma routes_disjoint: "distinct (map m_table SYNCABLE_MODELS)"
  by (simp add: SYNCABLE_MODELS_def DOMAIN_MODELS_def TRUST_ROOT_MODELS_def CONFLICT_MODELS_def model_defs)

lemma refold_unknown:
  "lookup_model SYNCABLE_MODELS c = None \<Longrightarrow> refold_entity dt v l c e ts = Inl UnknownCollectionError"
  by (simp add: refold_entity_def lookup_None SYNCABLE_MODELS_def image_Un)

section \<open>Convergence\<close>

text \<open>No two rows share a place in the resolution order: the dedup key separates pending rows, the
  backend's revision committed ones.\<close>

definition revs_distinct :: "log \<Rightarrow> bool" where
  "revs_distinct l \<longleftrightarrow> distinct (List.map_filter committed_rev l)"

lemma distinct_map_filter_inj:
  "distinct (List.map_filter f xs) \<Longrightarrow> distinct xs \<Longrightarrow> x \<in> set xs \<Longrightarrow> y \<in> set xs \<Longrightarrow> f x = Some c \<Longrightarrow> f y = Some c \<Longrightarrow> x = y"
proof (induction xs)
  case (Cons a xs)
  have mem: "c \<in> set (List.map_filter f xs)" if "z \<in> set xs" "f z = Some c" for z
    using that by (force simp: List.map_filter_def)
  show ?case
    using Cons mem by (fastforce simp: List.map_filter_simps split: option.splits)
qed simp

lemma resolution_key_inj:
  assumes "keyed l" "revs_distinct l"
  shows "inj_on resolution_key (set l)"
proof (rule inj_onI)
  fix x y assume x: "x \<in> set l" and y: "y \<in> set l" and k: "resolution_key x = resolution_key y"
  have d: "distinct l" "inj_on dedup_key (set l)" using assms(1) by (simp_all add: keyed_def distinct_map)
  show "x = y"
  proof (cases "committed_rev x")
    case None
    with k have "committed_rev y = None" by (cases "committed_rev y") (simp_all add: resolution_key_def)
    with None k have "dedup_key x = dedup_key y" by (simp add: resolution_key_def dedup_key_def)
    with d(2) show ?thesis using x y by (rule inj_onD)
  next
    case (Some c)
    with k have "committed_rev y = Some c" by (cases "committed_rev y") (simp_all add: resolution_key_def)
    with Some show ?thesis
      using distinct_map_filter_inj [OF assms(2) [unfolded revs_distinct_def] d(1) x y] by blast
  qed
qed

text \<open>Two logs that hold the same rows of an entity fold it to the same state, in whatever order the
  rows arrived.\<close>

lemma entity_rows_perm:
  assumes "keyed l" "revs_distinct l"
    and "mset (filter (\<lambda>r. collection r = c \<and> entity_id r = e \<and> \<not> terminal_rejected (row_state r)) l) =
         mset (filter (\<lambda>r. collection r = c \<and> entity_id r = e \<and> \<not> terminal_rejected (row_state r)) l')"
  shows "entity_rows l c e = entity_rows l' c e"
  unfolding entity_rows_def using assms(3)
  by (rule sort_key_mset_cong) (rule inj_on_subset [OF resolution_key_inj [OF assms(1,2)]], auto)

lemma folded_state_perm:
  assumes "keyed l" "revs_distinct l" "mset l = mset l'"
  shows "folded_state l c e = folded_state l' c e"
  unfolding folded_state_def using entity_rows_perm [OF assms(1,2), of c e l'] assms(3) by (simp add: mset_filter)

text \<open>A rejected row has no effect on the fold.\<close>

lemma entity_rows_reject:
  assumes "terminal_rejected s"
  shows "entity_rows (update_row i (\<lambda>r. r\<lparr>row_state := s\<rparr>) l) c e = entity_rows (filter (\<lambda>r. event_id r \<noteq> i) l) c e"
proof -
  have "filter (\<lambda>r. collection r = c \<and> entity_id r = e \<and> \<not> terminal_rejected (row_state r))
      (update_row i (\<lambda>r. r\<lparr>row_state := s\<rparr>) l) =
    filter (\<lambda>r. collection r = c \<and> entity_id r = e \<and> \<not> terminal_rejected (row_state r))
      (filter (\<lambda>r. event_id r \<noteq> i) l)"
  proof (induction l)
    case (Cons r l)
    have t: "terminal_rejected (row_state (r\<lparr>row_state := s\<rparr>))" using assms(1) by simp
    show ?case
    proof (cases "event_id r = i")
      case True
      with Cons t show ?thesis by (simp add: update_row_def)
    next
      case False
      with Cons show ?thesis by (simp add: update_row_def)
    qed
  qed (simp add: update_row_def)
  then show ?thesis unfolding entity_rows_def by (rule arg_cong)
qed

section \<open>The refolded row\<close>

lemma folded_fields_get:
  assumes "folded_fields dt c d = Inr flds" "lookup_model SYNCABLE_MODELS c = Some m"
  shows "dget flds f = (if column_of m f = None then None else
    (case dget d f of None \<Rightarrow> None | Some v \<Rightarrow> (case coerce_value dt m f v of Inl _ \<Rightarrow> None | Inr x \<Rightarrow> Some x)))"
proof -
  have "rmap (\<lambda>(f, v). rbind (coerce_value dt m f v) (\<lambda>x. Inr (f, x)))
      (filter (\<lambda>(f, v). column_of m f \<noteq> None) d) = Inr flds"
    using assms by (simp add: folded_fields_def)
  then show ?thesis
  proof (induction d arbitrary: flds)
    case (Cons kv d)
    show ?case
    proof (cases "column_of m (fst kv) = None")
      case True
      with Cons show ?thesis by (cases kv) auto
    next
      case False
      with Cons.prems obtain x ys where "coerce_value dt m (fst kv) (snd kv) = Inr x"
        "rmap (\<lambda>(f, v). rbind (coerce_value dt m f v) (\<lambda>x. Inr (f, x)))
          (filter (\<lambda>(f, v). column_of m f \<noteq> None) d) = Inr ys" "flds = (fst kv, x) # ys"
        by (cases kv) (auto simp: rbind_Inr_iff)
      with Cons.IH False show ?thesis by (cases kv) auto
    qed
  qed simp
qed

lemma upsert_folded_table_ok: "upsert_folded dt v m c e state ts = Inr ts' \<Longrightarrow> table_ok ts m \<Longrightarrow> table_ok ts' m"
  by (auto simp: upsert_folded_def rbind_Inr_iff split: option.splits if_splits
      dest: row_delete_table_ok row_insert_table_ok row_update_table_ok)

text \<open>The row of a deleted entity is gone.\<close>

lemma upsert_folded_None:
  assumes "upsert_folded dt v m c e None ts = Inr ts'"
  shows "get_row ts' m e = None"
  using assms by (auto simp: upsert_folded_def row_delete_def get_row_def delete_conv' split: if_splits)

section \<open>Sticky resolution\<close>

lemma foldl_conflict_resolution:
  "snd s = Some p \<Longrightarrow> snd (foldl conflict_step s rows) = Some p"
  by (induction rows arbitrary: s) (simp_all add: conflict_step_def)

lemma foldl_conflict_first:
  "\<forall>r \<in> set rows. dget (payload r) (lit ''status'') \<noteq> Some RESOLVED \<Longrightarrow> snd s = None \<Longrightarrow>
   snd (foldl conflict_step s rows) = None"
  by (induction rows arbitrary: s) (simp_all add: conflict_step_def)

lemma dget_copy_fields:
  "dget (foldl (\<lambda>st k. case dget p k of None \<Rightarrow> st | Some x \<Rightarrow> dset k x st) st ks) k =
   (if k \<in> set ks \<and> dget p k \<noteq> None then dget p k else dget st k)"
  by (induction ks arbitrary: st) (auto split: option.splits)

lemma conflict_state_resolved:
  assumes "\<forall>r \<in> set before. dget (payload r) (lit ''status'') \<noteq> Some RESOLVED"
    and "dget (payload r) (lit ''status'') = Some RESOLVED"
  shows "dget (conflict_state (before @ r # later)) (lit ''status'') = Some RESOLVED"
    and "k \<in> {lit ''resolved_by'', lit ''resolved_choice'', lit ''resolved_at''} \<Longrightarrow>
      dget (payload r) k = Some x \<Longrightarrow> dget (conflict_state (before @ r # later)) k = Some x"
proof -
  have "snd (foldl conflict_step ([], None) (before @ [r])) = Some (payload r)"
    using foldl_conflict_first [OF assms(1), of "([], None)"] assms(2) by (simp add: conflict_step_def)
  then have "snd (foldl conflict_step ([], None) (before @ r # later)) = Some (payload r)"
    using foldl_conflict_resolution by simp
  then obtain st where st: "foldl conflict_step ([], None) (before @ r # later) = (st, Some (payload r))"
    by (metis prod.collapse)
  let ?ks = "[lit ''resolved_by'', lit ''resolved_choice'', lit ''resolved_at'']"
  have d: "dget (conflict_state (before @ r # later)) k =
      (if k \<in> set ?ks \<and> dget (payload r) k \<noteq> None then dget (payload r) k
       else dget (dset (lit ''status'') RESOLVED st) k)" for k
    unfolding conflict_state_def st by (simp only: Let_def prod.case option.case dget_copy_fields)
  show "dget (conflict_state (before @ r # later)) (lit ''status'') = Some RESOLVED"
    by (subst d) simp
  show "k \<in> {lit ''resolved_by'', lit ''resolved_choice'', lit ''resolved_at''} \<Longrightarrow>
      dget (payload r) k = Some x \<Longrightarrow> dget (conflict_state (before @ r # later)) k = Some x"
    by (subst d) simp
qed

end
