(* ===== verification/Merkle.thy ===== *)
theory Merkle
  imports Sha256
begin

text \<open>
  The audit hash chain link (\<open>hashing.py\<close>) and the RFC 6962 Merkle anchors (\<open>merkle.py\<close>).
  \<open>hashlib.sha256(...).hexdigest()\<close> is an argument \<open>H\<close> of the definitions; the locale
  \<open>digest_fn\<close> states the one law the code relies on (64 lowercase hex characters) and is
  interpreted on \<open>sha256_hexdigest\<close>.

  \<open>mth\<close> is RFC 6962's Merkle tree hash, the specification of \<open>root_of\<close>.  The control of the
  path verifier depends on the index and the tree size only, so two accepted runs walk in
  step: that gives completeness (\<open>vrun_path\<close>) and soundness up to a hash collision
  (\<open>vrun_sound\<close>).
\<close>

section \<open>Definitions\<close>

definition AUDIT_CHAIN_DOMAIN :: bytes where
  "AUDIT_CHAIN_DOMAIN = lit ''kantaq:audit-chain:v1'' @ [0]"

text \<open>The message of one link and the link itself.\<close>

definition chain_message :: "pystr option \<Rightarrow> bytes \<Rightarrow> bytes" where
  "chain_message previous rec =
     AUDIT_CHAIN_DOMAIN @ (case previous of None \<Rightarrow> [] | Some p \<Rightarrow> p) @ 0 # rec"

definition chain_hash :: "(bytes \<Rightarrow> pystr) \<Rightarrow> pystr option \<Rightarrow> payload \<Rightarrow> protocol_error + pystr" where
  "chain_hash H previous rec =
     (if (case previous of None \<Rightarrow> False | Some p \<Rightarrow> \<not> is_key_hex p) then Inl SchemaViolation
      else rbind (canonicalize (pdict rec)) (\<lambda>b. Inr (H (chain_message previous b))))"

definition AUDIT_MERKLE_DOMAIN :: bytes where
  "AUDIT_MERKLE_DOMAIN = lit ''kantaq:audit-merkle:v1'' @ [0]"

definition leaf_message :: "bytes \<Rightarrow> bytes" where
  "leaf_message leaf = AUDIT_MERKLE_DOMAIN @ 0 # leaf"

definition node_message :: "pystr \<Rightarrow> pystr \<Rightarrow> bytes" where
  "node_message left right = AUDIT_MERKLE_DOMAIN @ 1 # from_hex left @ from_hex right"

definition merkle_leaf_hash :: "(bytes \<Rightarrow> pystr) \<Rightarrow> bytes \<Rightarrow> pystr" where
  "merkle_leaf_hash H leaf = H (leaf_message leaf)"

definition node_hash :: "(bytes \<Rightarrow> pystr) \<Rightarrow> pystr \<Rightarrow> pystr \<Rightarrow> protocol_error + pystr" where
  "node_hash H left right =
     (if \<not> is_key_hex left \<or> \<not> is_key_hex right then Inl SchemaViolation
      else Inr (H (node_message left right)))"

text \<open>\<open>_split_point\<close>: the loop doubles \<open>k\<close> while \<open>k << 1 < n\<close>.\<close>

function split_loop :: "nat \<Rightarrow> nat \<Rightarrow> nat" where
  "split_loop k n = (if 0 < k \<and> 2 * k < n then split_loop (2 * k) n else k)"
  by pat_completeness auto
termination
  by (relation "measure (\<lambda>(k, n). n - k)") auto

declare split_loop.simps [simp del]

definition split_point :: "nat \<Rightarrow> nat" where
  "split_point n = split_loop 1 n"

lemma split_loop_power:
  "k = 2 ^ j \<Longrightarrow> k < n \<Longrightarrow> \<exists>h. split_loop k n = 2 ^ h \<and> split_loop k n < n \<and> n \<le> 2 * split_loop k n"
proof (induction k n arbitrary: j rule: split_loop.induct)
  case (1 k n)
  show ?case
  proof (cases "2 * k < n")
    case True
    have "2 * k = 2 ^ Suc j" "0 < k" using "1.prems"(1) by simp_all
    with "1.IH" True have "\<exists>h. split_loop (2 * k) n = 2 ^ h \<and> split_loop (2 * k) n < n \<and>
        n \<le> 2 * split_loop (2 * k) n" by blast
    with True \<open>0 < k\<close> show ?thesis by (simp add: split_loop.simps [of k n])
  next
    case False
    then have "split_loop k n = k" by (simp add: split_loop.simps [of k n])
    with "1.prems" False show ?thesis by auto
  qed
qed

text \<open>The largest power of two strictly below \<open>n\<close>.\<close>

lemma split_point_power:
  assumes "2 \<le> n"
  obtains h where "split_point n = 2 ^ h" "2 ^ h < n" "n \<le> 2 * 2 ^ h"
  using split_loop_power [of 1 0 n] assms unfolding split_point_def by fastforce

lemma split_point_bounds: "2 \<le> n \<Longrightarrow> 0 < split_point n \<and> split_point n < n"
  by (erule split_point_power) simp

lemma split_point_double [simp]: "split_point (2 ^ Suc h) = 2 ^ h"
proof -
  have "2 \<le> (2::nat) ^ Suc h" by simp
  then obtain g where g: "split_point (2 ^ Suc h) = 2 ^ g" "(2::nat) ^ g < 2 ^ Suc h"
      "(2::nat) ^ Suc h \<le> 2 * 2 ^ g"
    by (rule split_point_power)
  then have "g < Suc h" "Suc h \<le> Suc g"
    using power_less_imp_less_exp [of "2::nat" g "Suc h"] power_le_imp_le_exp [of "2::nat" "Suc h" "Suc g"]
    by simp_all
  with g(1) show ?thesis by (simp add: le_antisym less_Suc_eq_le)
qed

lemma split_lengths:
  assumes "\<not> length hs < 2"
  shows "length (take (split_point (length hs)) hs) < length hs"
    and "length (drop (split_point (length hs)) hs) < length hs"
  using split_point_bounds [of "length hs"] assms by auto

text \<open>The code calls these two with at least one hash; an empty list never reaches them.\<close>

function root_of :: "(bytes \<Rightarrow> pystr) \<Rightarrow> pystr list \<Rightarrow> protocol_error + pystr" where
  "root_of H hs =
     (if length hs < 2 then Inr (hd hs)
      else rbind (root_of H (take (split_point (length hs)) hs)) (\<lambda>l.
           rbind (root_of H (drop (split_point (length hs)) hs)) (\<lambda>r. node_hash H l r)))"
  by pat_completeness auto
termination
  by (relation "measure (\<lambda>(H, hs). length hs)") (simp_all add: split_lengths del: length_take length_drop)

declare root_of.simps [simp del]

definition merkle_root :: "(bytes \<Rightarrow> pystr) \<Rightarrow> bytes list \<Rightarrow> protocol_error + pystr" where
  "merkle_root H leaves =
     (if leaves = [] then Inl SchemaViolation else root_of H (map (merkle_leaf_hash H) leaves))"

function path :: "(bytes \<Rightarrow> pystr) \<Rightarrow> pystr list \<Rightarrow> nat \<Rightarrow> protocol_error + pystr list" where
  "path H hs i =
     (if length hs < 2 then Inr []
      else let k = split_point (length hs) in
        if i < k then
          rbind (path H (take k hs) i) (\<lambda>p. rbind (root_of H (drop k hs)) (\<lambda>r. Inr (p @ [r])))
        else
          rbind (path H (drop k hs) (i - k)) (\<lambda>p. rbind (root_of H (take k hs)) (\<lambda>r. Inr (p @ [r]))))"
  by pat_completeness auto
termination
  by (relation "measure (\<lambda>(H, hs, i). length hs)") (simp_all add: split_lengths del: length_take length_drop)

declare path.simps [simp del]

definition merkle_inclusion_proof ::
    "(bytes \<Rightarrow> pystr) \<Rightarrow> bytes list \<Rightarrow> int \<Rightarrow> protocol_error + pystr list" where
  "merkle_inclusion_proof H leaves index =
     (if \<not> (0 \<le> index \<and> index < int (length leaves)) then Inl SchemaViolation
      else path H (map (merkle_leaf_hash H) leaves) (nat index))"

text \<open>The inner loop of the verifier: both counters shift until \<open>fn\<close> is odd or zero.\<close>

function strip :: "nat \<Rightarrow> nat \<Rightarrow> nat \<times> nat" where
  "strip fn sn = (if even fn \<and> fn \<noteq> 0 then strip (fn div 2) (sn div 2) else (fn, sn))"
  by pat_completeness auto
termination
  by (relation "measure fst") auto

declare strip.simps [simp del]

text \<open>The loop over the proof; \<open>None\<close> is the early \<open>return False\<close>.\<close>

fun vrun :: "(bytes \<Rightarrow> pystr) \<Rightarrow> nat \<Rightarrow> nat \<Rightarrow> pystr \<Rightarrow> pystr list \<Rightarrow>
    protocol_error + (nat \<times> nat \<times> pystr) option" where
  "vrun H fn sn computed [] = Inr (Some (fn, sn, computed))"
| "vrun H fn sn computed (sibling # ss) =
     (if sn = 0 then Inr None
      else if odd fn \<or> fn = sn then
        rbind (node_hash H sibling computed) (\<lambda>c.
          let (fn', sn') = (if even fn then strip fn sn else (fn, sn))
          in vrun H (fn' div 2) (sn' div 2) c ss)
      else
        rbind (node_hash H computed sibling) (\<lambda>c. vrun H (fn div 2) (sn div 2) c ss))"

definition verify_inclusion_proof ::
    "(bytes \<Rightarrow> pystr) \<Rightarrow> bytes \<Rightarrow> int \<Rightarrow> int \<Rightarrow> pystr list \<Rightarrow> pystr \<Rightarrow> protocol_error + bool" where
  "verify_inclusion_proof H leaf index tree_size proof root =
     (if \<not> (0 \<le> index \<and> index < tree_size) then Inr False
      else if \<not> is_key_hex root then Inr False
      else if \<not> list_all is_key_hex proof then Inr False
      else rbind (vrun H (nat index) (nat (tree_size - 1)) (merkle_leaf_hash H leaf) proof) (\<lambda>res.
        case res of
          None \<Rightarrow> Inr False
        | Some (fn, sn, computed) \<Rightarrow> Inr (sn = 0 \<and> computed = root)))"

section \<open>The specification and the error-free run\<close>

text \<open>RFC 6962's tree hash and audit path over digests, and the verifier's run on well-formed
  digests, split into its control (\<open>ctl\<close>: side, next counters) and its hashing.\<close>

definition node :: "(bytes \<Rightarrow> pystr) \<Rightarrow> pystr \<Rightarrow> pystr \<Rightarrow> pystr" where
  "node H l r = H (node_message l r)"

function mth :: "(bytes \<Rightarrow> pystr) \<Rightarrow> pystr list \<Rightarrow> pystr" where
  "mth H hs =
     (if length hs < 2 then hd hs
      else node H (mth H (take (split_point (length hs)) hs)) (mth H (drop (split_point (length hs)) hs)))"
  by pat_completeness auto
termination
  by (relation "measure (\<lambda>(H, hs). length hs)") (simp_all add: split_lengths del: length_take length_drop)

declare mth.simps [simp del]

function audit_path :: "(bytes \<Rightarrow> pystr) \<Rightarrow> pystr list \<Rightarrow> nat \<Rightarrow> pystr list" where
  "audit_path H hs i =
     (if length hs < 2 then []
      else if i < split_point (length hs) then
        audit_path H (take (split_point (length hs)) hs) i @ [mth H (drop (split_point (length hs)) hs)]
      else
        audit_path H (drop (split_point (length hs)) hs) (i - split_point (length hs))
          @ [mth H (take (split_point (length hs)) hs)])"
  by pat_completeness auto
termination
  by (relation "measure (\<lambda>(H, hs, i). length hs)") (simp_all add: split_lengths del: length_take length_drop)

declare audit_path.simps [simp del]

definition ctl :: "nat \<Rightarrow> nat \<Rightarrow> bool \<times> nat \<times> nat" where
  "ctl fn sn =
     (if odd fn \<or> fn = sn then
        (let (fn', sn') = (if even fn then strip fn sn else (fn, sn)) in (True, fn' div 2, sn' div 2))
      else (False, fn div 2, sn div 2))"

fun prun :: "(bytes \<Rightarrow> pystr) \<Rightarrow> nat \<Rightarrow> nat \<Rightarrow> pystr \<Rightarrow> pystr list \<Rightarrow> (nat \<times> nat \<times> pystr) option" where
  "prun H fn sn c [] = Some (fn, sn, c)"
| "prun H fn sn c (s # ss) =
     (if sn = 0 then None
      else case ctl fn sn of (right, fn', sn') \<Rightarrow>
        prun H fn' sn' (if right then node H s c else node H c s) ss)"

text \<open>The messages hashed by a run.\<close>

fun run_messages :: "nat \<Rightarrow> nat \<Rightarrow> (bytes \<Rightarrow> pystr) \<Rightarrow> pystr \<Rightarrow> pystr list \<Rightarrow> bytes list" where
  "run_messages fn sn H c [] = []"
| "run_messages fn sn H c (s # ss) =
     (case ctl fn sn of (right, fn', sn') \<Rightarrow>
        let m = (if right then node_message s c else node_message c s)
        in m # run_messages fn' sn' H (H m) ss)"

lemma prun_append:
  "prun H fn sn c (ss @ ts) =
   (case prun H fn sn c ss of None \<Rightarrow> None | Some (fn', sn', c') \<Rightarrow> prun H fn' sn' c' ts)"
  by (induction H fn sn c ss rule: prun.induct) (auto split: prod.splits)

lemma strip_power: "strip (2 ^ m) (2 ^ m) = (1, 1)"
proof (induction m)
  case 0
  then show ?case by (simp add: strip.simps)
next
  case (Suc m)
  then show ?case by (subst strip.simps) simp
qed

lemma ctl_power: "ctl (2 ^ m) (2 ^ m) = (True, 0, 0)"
  by (cases m) (simp_all add: ctl_def strip_power [of "Suc _", simplified])

text \<open>Shifting both counters by a power of two above them does not change the run.\<close>

lemma strip_offset:
  "0 < fn \<Longrightarrow> fn \<le> sn \<Longrightarrow> sn < 2 ^ m \<Longrightarrow>
   \<exists>m'. strip (fn + 2 ^ m) (sn + 2 ^ m) = (fst (strip fn sn) + 2 ^ Suc m', snd (strip fn sn) + 2 ^ Suc m')
     \<and> fst (strip fn sn) \<le> snd (strip fn sn) \<and> snd (strip fn sn) < 2 ^ Suc m'"
proof (induction fn sn arbitrary: m rule: strip.induct)
  case (1 fn sn)
  then obtain k where m: "m = Suc k" by (cases m) auto
  show ?case
  proof (cases "even fn")
    case False
    then have "strip fn sn = (fn, sn)" by (simp add: strip.simps [of fn sn])
    moreover have "strip (fn + 2 ^ Suc k) (sn + 2 ^ Suc k) = (fn + 2 ^ Suc k, sn + 2 ^ Suc k)"
      using False by (subst strip.simps) simp
    ultimately show ?thesis using "1.prems" m by (intro exI [of _ k]) simp
  next
    case True
    with "1.prems" m have "0 < fn div 2" "fn div 2 \<le> sn div 2" "sn div 2 < 2 ^ k"
      by (auto intro: div_le_mono)
    with "1.IH" True "1.prems"(1) obtain m' where IH:
      "strip (fn div 2 + 2 ^ k) (sn div 2 + 2 ^ k) =
         (fst (strip (fn div 2) (sn div 2)) + 2 ^ Suc m', snd (strip (fn div 2) (sn div 2)) + 2 ^ Suc m')"
      "fst (strip (fn div 2) (sn div 2)) \<le> snd (strip (fn div 2) (sn div 2))"
      "snd (strip (fn div 2) (sn div 2)) < 2 ^ Suc m'" by blast
    have "strip fn sn = strip (fn div 2) (sn div 2)"
      using True "1.prems"(1) by (simp add: strip.simps [of fn sn])
    moreover have "strip (fn + 2 ^ m) (sn + 2 ^ m) = strip (fn div 2 + 2 ^ k) (sn div 2 + 2 ^ k)"
      using True "1.prems"(1) unfolding m by (subst strip.simps) (simp add: add.commute)
    ultimately show ?thesis using IH by auto
  qed
qed

lemma ctl_offset:
  assumes "fn \<le> sn" "0 < sn" "sn < 2 ^ m" "ctl fn sn = (right, fn', sn')"
  shows "\<exists>m'. ctl (fn + 2 ^ m) (sn + 2 ^ m) = (right, fn' + 2 ^ m', sn' + 2 ^ m') \<and>
    fn' \<le> sn' \<and> sn' < 2 ^ m'"
proof -
  from assms(2,3) obtain k where m: "m = Suc k" by (cases m) auto
  consider (odd) "odd fn" | (strip) "even fn" "fn = sn" | (left) "even fn" "fn \<noteq> sn" by blast
  then show ?thesis
  proof cases
    case strip
    then obtain j where "strip (fn + 2 ^ m) (sn + 2 ^ m) =
        (fst (strip fn sn) + 2 ^ Suc j, snd (strip fn sn) + 2 ^ Suc j)"
      "fst (strip fn sn) \<le> snd (strip fn sn)" "snd (strip fn sn) < 2 ^ Suc j"
      using strip_offset [of fn sn m] assms by auto
    with strip m assms(4) show ?thesis
      by (intro exI [of _ j]) (auto simp: ctl_def split: prod.splits intro: div_le_mono)
  qed (use assms m in \<open>auto simp: ctl_def intro!: exI [of _ k] intro: div_le_mono\<close>)
qed

lemma prun_offset:
  "prun H fn sn c ss = Some (f, 0, r) \<Longrightarrow> fn \<le> sn \<Longrightarrow> sn < 2 ^ m \<Longrightarrow>
   \<exists>m'. prun H (fn + 2 ^ m) (sn + 2 ^ m) c ss = Some (2 ^ m', 2 ^ m', r)"
proof (induction ss arbitrary: fn sn c m)
  case Nil
  then show ?case by auto
next
  case (Cons s ss)
  obtain right fn' sn' where ctl: "ctl fn sn = (right, fn', sn')" by (cases "ctl fn sn") auto
  from Cons.prems have sn: "0 < sn" by (auto split: if_splits)
  with ctl_offset [OF Cons.prems(2) _ Cons.prems(3) ctl] obtain m' where
    m': "ctl (fn + 2 ^ m) (sn + 2 ^ m) = (right, fn' + 2 ^ m', sn' + 2 ^ m')" "fn' \<le> sn'" "sn' < 2 ^ m'"
    by blast
  with Cons.IH [of fn' sn' _ m'] Cons.prems(1) sn ctl show ?case by simp
qed

text \<open>A perfect subtree consumes its own bits of the counters.\<close>

lemma prun_perfect:
  "length hs = 2 ^ h \<Longrightarrow> i < 2 ^ h \<Longrightarrow> a < sn div 2 ^ h \<Longrightarrow>
   prun H (i + 2 ^ h * a) sn (hs ! i) (audit_path H hs i) = Some (a, sn div 2 ^ h, mth H hs)"
proof (induction h arbitrary: hs i a)
  case 0
  then show ?case by (cases hs) (simp_all add: audit_path.simps mth.simps)
next
  case (Suc h)
  have n: "length hs = 2 ^ Suc h" "\<not> length hs < 2" using Suc.prems(1) by simp_all
  have k: "split_point (length hs) = 2 ^ h" by (simp only: n(1) split_point_double)
  have sn: "2 * a + 1 < sn div 2 ^ h"
  proof -
    have "sn div 2 ^ Suc h = sn div 2 ^ h div 2" by (simp only: power_Suc2 div_mult2_eq)
    with Suc.prems(3) show ?thesis by linarith
  qed
  have mth: "mth H hs = node H (mth H (take (2 ^ h) hs)) (mth H (drop (2 ^ h) hs))"
    using n(2) by (simp only: mth.simps [of H hs] k if_False)
  have shift: "sn div 2 ^ h div 2 = sn div 2 ^ Suc h" by (simp only: power_Suc2 div_mult2_eq)
  show ?case
  proof (cases "i < 2 ^ h")
    case True
    have "prun H (i + 2 ^ h * (2 * a)) sn (take (2 ^ h) hs ! i) (audit_path H (take (2 ^ h) hs) i) =
        Some (2 * a, sn div 2 ^ h, mth H (take (2 ^ h) hs))"
      using True n sn by (intro Suc.IH) simp_all
    moreover have "ctl (2 * a) (sn div 2 ^ h) = (False, a, sn div 2 ^ Suc h)"
      using sn shift by (simp add: ctl_def)
    moreover have "audit_path H hs i = audit_path H (take (2 ^ h) hs) i @ [mth H (drop (2 ^ h) hs)]"
      using True n(2) by (simp add: audit_path.simps [of H hs i] k)
    moreover have "2 ^ h * (2 * a) = 2 ^ Suc h * a" by simp
    ultimately show ?thesis using True sn mth by (simp only: prun_append) simp
  next
    case False
    have e: "i - 2 ^ h + 2 ^ h * (2 * a + 1) = i + 2 ^ Suc h * a" using False by simp
    have nth: "drop (2 ^ h) hs ! (i - 2 ^ h) = hs ! i" using False n(1) by (simp add: nth_drop)
    have "prun H (i - 2 ^ h + 2 ^ h * (2 * a + 1)) sn (drop (2 ^ h) hs ! (i - 2 ^ h))
          (audit_path H (drop (2 ^ h) hs) (i - 2 ^ h)) =
        Some (2 * a + 1, sn div 2 ^ h, mth H (drop (2 ^ h) hs))"
      using False Suc.prems(2) n sn by (intro Suc.IH) simp_all
    note run = this [unfolded e nth]
    have ctl: "ctl (2 * a + 1) (sn div 2 ^ h) = (True, a, sn div 2 ^ Suc h)"
      using sn shift by (simp add: ctl_def)
    have "audit_path H hs i =
        audit_path H (drop (2 ^ h) hs) (i - 2 ^ h) @ [mth H (take (2 ^ h) hs)]"
      using False n(2) by (simp add: audit_path.simps [of H hs i] k)
    then show ?thesis using sn ctl by (simp only: prun_append run mth) simp
  qed
qed

text \<open>Every honest path leads to the root.\<close>

lemma prun_audit_path:
  "i < length hs \<Longrightarrow>
   prun H i (length hs - 1) (hs ! i) (audit_path H hs i) = Some (0, 0, mth H hs)"
proof (induction "length hs" arbitrary: hs i rule: less_induct)
  case less
  show ?case
  proof (cases "length hs < 2")
    case True
    with less.prems have "length hs = 1" by linarith
    then obtain x where "hs = [x]" by (cases hs) auto
    with less.prems show ?thesis by (simp add: audit_path.simps mth.simps)
  next
    case False
    then obtain h where k: "split_point (length hs) = 2 ^ h" and lo: "2 ^ h < length hs"
      and hi: "length hs \<le> 2 * 2 ^ h"
      using split_point_power [of "length hs"] by (metis not_less)
    have mth: "mth H hs = node H (mth H (take (2 ^ h) hs)) (mth H (drop (2 ^ h) hs))"
      using False by (simp only: mth.simps [of H hs] k if_False)
    show ?thesis
    proof (cases "i < 2 ^ h")
      case True
      have one: "(length hs - 1) div 2 ^ h = 1"
        using lo hi by (intro div_nat_eqI) simp_all
      have "prun H (i + 2 ^ h * 0) (length hs - 1) (take (2 ^ h) hs ! i) (audit_path H (take (2 ^ h) hs) i) =
          Some (0, (length hs - 1) div 2 ^ h, mth H (take (2 ^ h) hs))"
        using True lo one by (intro prun_perfect) simp_all
      moreover have "audit_path H hs i = audit_path H (take (2 ^ h) hs) i @ [mth H (drop (2 ^ h) hs)]"
        using True False by (simp add: audit_path.simps [of H hs i] k)
      ultimately show ?thesis using True one mth by (simp add: prun_append ctl_def)
    next
      case i: False
      let ?d = "drop (2 ^ h) hs"
      have "prun H (i - 2 ^ h) (length ?d - 1) (?d ! (i - 2 ^ h)) (audit_path H ?d (i - 2 ^ h)) =
          Some (0, 0, mth H ?d)"
        by (rule less.hyps) (use i less.prems lo in \<open>auto intro: diff_less\<close>)
      moreover have "i - 2 ^ h \<le> length ?d - 1" "length ?d - 1 < 2 ^ h" using less.prems i lo hi by auto
      ultimately obtain m where "prun H (i - 2 ^ h + 2 ^ h) (length ?d - 1 + 2 ^ h) (?d ! (i - 2 ^ h))
          (audit_path H ?d (i - 2 ^ h)) = Some (2 ^ m, 2 ^ m, mth H ?d)"
        using prun_offset by blast
      moreover have "?d ! (i - 2 ^ h) = hs ! i" using i less.prems by (simp add: nth_drop)
      moreover have "i - 2 ^ h + 2 ^ h = i" "length ?d - 1 + 2 ^ h = length hs - 1" using i lo by auto
      moreover have "audit_path H hs i = audit_path H ?d (i - 2 ^ h) @ [mth H (take (2 ^ h) hs)]"
        using i False by (simp add: audit_path.simps [of H hs i] k)
      ultimately show ?thesis using mth by (simp add: prun_append ctl_power)
    qed
  qed
qed

text \<open>All messages a verification hashes, the leaf's first.\<close>

definition proof_messages :: "(bytes \<Rightarrow> pystr) \<Rightarrow> bytes \<Rightarrow> int \<Rightarrow> int \<Rightarrow> pystr list \<Rightarrow> bytes list" where
  "proof_messages H leaf i n proof =
     leaf_message leaf # run_messages (nat i) (nat (n - 1)) H (merkle_leaf_hash H leaf) proof"

lemma to_hex_from_key: "is_key_hex k \<Longrightarrow> to_hex (from_hex k) = k"
  by (simp add: is_key_hex_def to_hex_from_hex)

lemma node_message_inj:
  assumes "node_message l r = node_message l' r'"
    and "is_key_hex l" "is_key_hex r" "is_key_hex l'" "is_key_hex r'"
  shows "l = l' \<and> r = r'"
proof -
  have "from_hex l @ from_hex r = from_hex l' @ from_hex r'"
    using assms(1) by (simp add: node_message_def)
  moreover have "length (from_hex l) = length (from_hex l')"
    using assms(2-) by (simp add: is_key_hex_def length_from_hex)
  ultimately have "from_hex l = from_hex l'" "from_hex r = from_hex r'" by simp_all
  then show ?thesis using assms(2-) by (metis to_hex_from_key)
qed

text \<open>The message of a chain link determines the previous link and the record's bytes: a hex
  string has no zero byte, so the separator is the first zero.\<close>

lemma chain_message_inj:
  assumes "chain_message p b = chain_message p' b'"
    and "\<And>s. p = Some s \<Longrightarrow> is_key_hex s" "\<And>s. p' = Some s \<Longrightarrow> is_key_hex s"
  shows "p = p' \<and> b = b'"
proof -
  let ?t = "case_option [] (\<lambda>s. s) :: pystr option \<Rightarrow> pystr"
  have nz: "0 \<notin> set s" "s \<noteq> []" if "is_key_hex s" for s
    using that by (auto simp: is_key_hex_def is_hex_lower_def list_all_iff)
  have "?t p @ 0 # b = ?t p' @ 0 # b'" using assms(1) by (simp add: chain_message_def)
  moreover have "0 \<notin> set (?t p)" "0 \<notin> set (?t p')"
    using assms(2,3) nz by (auto split: option.splits)
  ultimately have "?t p = ?t p'" "b = b'" using append_sep_inj [of "?t p" 0 b "?t p'" b'] by blast+
  with assms(2,3) nz(2) show ?thesis by (auto split: option.splits)
qed

lemma chain_hash_Inr:
  "chain_hash H p r = Inr h \<longleftrightarrow>
   (\<forall>s. p = Some s \<longrightarrow> is_key_hex s) \<and> (\<exists>b. canonicalize (pdict r) = Inr b \<and> h = H (chain_message p b))"
  by (auto simp: chain_hash_def rbind_Inr_iff split: option.splits)

text \<open>Equal links of different predecessors or records show an explicit collision.\<close>

lemma chain_hash_collision:
  assumes "chain_hash H p r = Inr h" "chain_hash H p' r' = Inr h"
    and "canonicalize (pdict r) = Inr b" "canonicalize (pdict r') = Inr b'"
  shows "(p = p' \<and> b = b') \<or>
    (chain_message p b \<noteq> chain_message p' b' \<and> H (chain_message p b) = H (chain_message p' b'))"
  using assms chain_message_inj [of p b p' b'] by (auto simp: chain_hash_Inr)

section \<open>The digest interface\<close>

text \<open>What the code relies on: a digest is always 64 lowercase hex characters.\<close>

locale digest_fn =
  fixes H :: "bytes \<Rightarrow> pystr"
  assumes digest_hex [simp]: "is_key_hex (H m)"
begin

lemma node_hex [simp]: "is_key_hex (node H l r)"
  by (simp add: node_def)

lemma leaf_hex [simp]: "is_key_hex (merkle_leaf_hash H leaf)"
  by (simp add: merkle_leaf_hash_def)

lemma node_hash_hex [simp]: "is_key_hex l \<Longrightarrow> is_key_hex r \<Longrightarrow> node_hash H l r = Inr (node H l r)"
  by (simp add: node_hash_def node_def)

lemma mth_hex: "hs \<noteq> [] \<Longrightarrow> list_all is_key_hex hs \<Longrightarrow> is_key_hex (mth H hs)"
  by (subst mth.simps) (auto simp: list_all_iff)

lemma split_hex:
  assumes "\<not> length hs < 2" "list_all is_key_hex hs"
  shows "take (split_point (length hs)) hs \<noteq> []" "drop (split_point (length hs)) hs \<noteq> []"
    "list_all is_key_hex (take (split_point (length hs)) hs)"
    "list_all is_key_hex (drop (split_point (length hs)) hs)"
  using split_point_bounds [of "length hs"] assms
  by (auto simp: list_all_iff dest: in_set_takeD in_set_dropD)

lemma root_of_mth: "hs \<noteq> [] \<Longrightarrow> list_all is_key_hex hs \<Longrightarrow> root_of H hs = Inr (mth H hs)"
proof (induction "length hs" arbitrary: hs rule: less_induct)
  case less
  show ?case
  proof (cases "length hs < 2")
    case True
    then show ?thesis by (simp add: root_of.simps [of H hs] mth.simps [of H hs])
  next
    case False
    note s = split_hex [OF False less.prems(2)] and l = split_lengths [OF False]
    have "root_of H (take (split_point (length hs)) hs) = Inr (mth H (take (split_point (length hs)) hs))"
      "root_of H (drop (split_point (length hs)) hs) = Inr (mth H (drop (split_point (length hs)) hs))"
      using less.hyps [OF l(1) s(1,3)] less.hyps [OF l(2) s(2,4)] .
    with False show ?thesis
      by (simp only: root_of.simps [of H hs] mth.simps [of H hs] if_False)
        (simp add: mth_hex s del: take_eq_Nil drop_eq_Nil)
  qed
qed

lemma path_audit_path: "hs \<noteq> [] \<Longrightarrow> list_all is_key_hex hs \<Longrightarrow> path H hs i = Inr (audit_path H hs i)"
proof (induction "length hs" arbitrary: hs i rule: less_induct)
  case less
  show ?case
  proof (cases "length hs < 2")
    case True
    then show ?thesis by (simp add: path.simps [of H hs] audit_path.simps [of H hs])
  next
    case False
    note s = split_hex [OF False less.prems(2)] and l = split_lengths [OF False]
    have "path H (take (split_point (length hs)) hs) j = Inr (audit_path H (take (split_point (length hs)) hs) j)"
      "path H (drop (split_point (length hs)) hs) j = Inr (audit_path H (drop (split_point (length hs)) hs) j)" for j
      using less.hyps [OF l(1) s(1,3)] less.hyps [OF l(2) s(2,4)] .
    with False show ?thesis
      by (simp only: path.simps [of H hs] audit_path.simps [of H hs] if_False Let_def
          root_of_mth [OF s(1,3)] root_of_mth [OF s(2,4)]) simp
  qed
qed

lemma vrun_prun:
  "is_key_hex c \<Longrightarrow> list_all is_key_hex ss \<Longrightarrow> vrun H fn sn c ss = Inr (prun H fn sn c ss)"
  by (induction ss arbitrary: fn sn c) (auto simp: ctl_def node_def split: prod.splits)

lemma audit_path_hex: "hs \<noteq> [] \<Longrightarrow> list_all is_key_hex hs \<Longrightarrow> list_all is_key_hex (audit_path H hs i)"
proof (induction "length hs" arbitrary: hs i rule: less_induct)
  case less
  show ?case
  proof (cases "length hs < 2")
    case True
    then show ?thesis by (simp add: audit_path.simps [of H hs])
  next
    case False
    note s = split_hex [OF False less.prems(2)] and l = split_lengths [OF False]
    show ?thesis
      using False less.hyps [OF l(1) s(1,3)] less.hyps [OF l(2) s(2,4)] mth_hex [OF s(1,3)] mth_hex [OF s(2,4)]
      by (simp add: audit_path.simps [of H hs])
  qed
qed

text \<open>The functional behaviour of the three entry points.\<close>

lemma leaf_hashes_hex: "list_all is_key_hex (map (merkle_leaf_hash H) leaves)"
  by (simp add: list_all_iff)

lemma merkle_root_mth: "leaves \<noteq> [] \<Longrightarrow> merkle_root H leaves = Inr (mth H (map (merkle_leaf_hash H) leaves))"
  by (simp add: merkle_root_def root_of_mth leaf_hashes_hex)

lemma merkle_inclusion_proof_path:
  "0 \<le> i \<Longrightarrow> i < int (length leaves) \<Longrightarrow>
   merkle_inclusion_proof H leaves i = Inr (audit_path H (map (merkle_leaf_hash H) leaves) (nat i))"
  by (cases "leaves = []") (simp_all add: merkle_inclusion_proof_def path_audit_path leaf_hashes_hex)

lemma verify_inclusion_proof_total: "\<exists>b. verify_inclusion_proof H leaf i n proof root = Inr b"
  by (auto simp: verify_inclusion_proof_def vrun_prun split: option.splits prod.splits)

lemma verify_inclusion_proof_iff:
  "verify_inclusion_proof H leaf i n proof root = Inr True \<longleftrightarrow>
   0 \<le> i \<and> i < n \<and> is_key_hex root \<and> list_all is_key_hex proof \<and>
   (\<exists>f. prun H (nat i) (nat (n - 1)) (merkle_leaf_hash H leaf) proof = Some (f, 0, root))"
  by (auto simp: verify_inclusion_proof_def vrun_prun split: option.splits prod.splits)

lemma inclusion_complete:
  assumes "0 \<le> i" "i < int (length leaves)"
  shows "\<exists>proof root. merkle_inclusion_proof H leaves i = Inr proof \<and> merkle_root H leaves = Inr root \<and>
    verify_inclusion_proof H (leaves ! nat i) i (int (length leaves)) proof root = Inr True"
proof -
  let ?hs = "map (merkle_leaf_hash H) leaves"
  have ne: "leaves \<noteq> []" "?hs \<noteq> []" using assms by auto
  have "prun H (nat i) (length ?hs - 1) (?hs ! nat i) (audit_path H ?hs (nat i)) = Some (0, 0, mth H ?hs)"
    by (rule prun_audit_path) (use assms in auto)
  moreover have "nat (int (length leaves) - 1) = length ?hs - 1" by simp
  ultimately show ?thesis
    using assms ne merkle_inclusion_proof_path [OF assms] merkle_root_mth [OF ne(1)]
      mth_hex [OF ne(2) leaf_hashes_hex] audit_path_hex [OF ne(2) leaf_hashes_hex, of "nat i"]
    by (auto simp: verify_inclusion_proof_iff nth_map)
qed

text \<open>Two accepted runs in step: the same inputs, or an explicit collision among the hashed messages.\<close>

lemma prun_sound:
  "prun H fn sn c ss = Some (f, 0, r) \<Longrightarrow> prun H fn sn c' ss' = Some (f', 0, r) \<Longrightarrow>
   is_key_hex c \<Longrightarrow> is_key_hex c' \<Longrightarrow> list_all is_key_hex ss \<Longrightarrow> list_all is_key_hex ss' \<Longrightarrow>
   (c = c' \<and> ss = ss') \<or>
   (\<exists>x \<in> set (run_messages fn sn H c ss). \<exists>y \<in> set (run_messages fn sn H c' ss'). x \<noteq> y \<and> H x = H y)"
proof (induction ss arbitrary: fn sn c c' ss')
  case Nil
  then show ?case by (cases ss') auto
next
  case (Cons s ss)
  from Cons.prems obtain s' ts where ss': "ss' = s' # ts" by (cases ss') (auto split: if_splits)
  obtain right fn' sn' where ctl: "ctl fn sn = (right, fn', sn')" by (cases "ctl fn sn") auto
  let ?m = "if right then node_message s c else node_message c s"
  let ?m' = "if right then node_message s' c' else node_message c' s'"
  have step: "prun H fn' sn' (H ?m) ss = Some (f, 0, r)" "prun H fn' sn' (H ?m') ts = Some (f', 0, r)"
    using Cons.prems(1,2) ss' ctl by (auto simp: node_def split: if_splits)
  have msgs: "set (run_messages fn sn H c (s # ss)) = insert ?m (set (run_messages fn' sn' H (H ?m) ss))"
    "set (run_messages fn sn H c' ss') = insert ?m' (set (run_messages fn' sn' H (H ?m') ts))"
    by (simp_all add: ss' ctl Let_def)
  have "(H ?m = H ?m' \<and> ss = ts) \<or>
    (\<exists>x \<in> set (run_messages fn' sn' H (H ?m) ss). \<exists>y \<in> set (run_messages fn' sn' H (H ?m') ts). x \<noteq> y \<and> H x = H y)"
    by (rule Cons.IH [OF step]) (use Cons.prems ss' in simp_all)
  then show ?case
  proof
    assume *: "H ?m = H ?m' \<and> ss = ts"
    show ?thesis
    proof (cases "?m = ?m'")
      case True
      then have "s = s' \<and> c = c'"
        using Cons.prems(3-6) ss' by (auto split: if_splits dest: node_message_inj)
      with * ss' show ?thesis by simp
    qed (use * msgs in blast)
  qed (use msgs in blast)
qed

lemma inclusion_sound:
  assumes "verify_inclusion_proof H leaf i n proof root = Inr True"
    and "verify_inclusion_proof H leaf' i n proof' root = Inr True"
  shows "(leaf = leaf' \<and> proof = proof') \<or>
    (\<exists>x \<in> set (proof_messages H leaf i n proof). \<exists>y \<in> set (proof_messages H leaf' i n proof'). x \<noteq> y \<and> H x = H y)"
proof -
  from assms obtain f f' where
    "prun H (nat i) (nat (n - 1)) (merkle_leaf_hash H leaf) proof = Some (f, 0, root)"
    "prun H (nat i) (nat (n - 1)) (merkle_leaf_hash H leaf') proof' = Some (f', 0, root)"
    "list_all is_key_hex proof" "list_all is_key_hex proof'"
    by (auto simp: verify_inclusion_proof_iff)
  from prun_sound [OF this(1,2) _ _ this(3,4)]
  have "(merkle_leaf_hash H leaf = merkle_leaf_hash H leaf' \<and> proof = proof') \<or>
    (\<exists>x \<in> set (proof_messages H leaf i n proof). \<exists>y \<in> set (proof_messages H leaf' i n proof'). x \<noteq> y \<and> H x = H y)"
    by (auto simp: proof_messages_def)
  moreover have "leaf_message leaf = leaf_message leaf' \<longleftrightarrow> leaf = leaf'" by (simp add: leaf_message_def)
  ultimately show ?thesis by (auto simp: proof_messages_def merkle_leaf_hash_def)
qed

end

interpretation sha: digest_fn sha256_hexdigest
  by unfold_locales (rule sha256_hexdigest_hex)

end
