(* ===== verification/Trail.thy ===== *)
theory Trail
  imports Merkle Schema
begin

text \<open>
  The append-only audit trail (\<open>kantaq_core/audit.py\<close>).  The trail is the list of the
  \<open>audit_events\<close> rows in insertion order; every query sorts by id, as the source does.  A link
  binds \<open>chain_record\<close>, the row's immutable content, to the previous link.  \<open>H\<close> is the digest;
  the lemmas that need its law are stated in \<open>digest_fn\<close> and used through \<open>sha\<close>.  The ORM
  guards that refuse UPDATE and DELETE have no counterpart: no other operation on the trail
  exists here, and \<open>summarize_rows\<close> is the sanctioned one below them.
\<close>

section \<open>Rows\<close>

record audit_row =
  ar_id :: pystr
  ar_actor_seq :: int
  ar_created :: int
  ar_actor :: pystr
  ar_action :: pystr
  ar_object :: "pystr option"
  ar_source :: pystr
  ar_before :: "payload option"
  ar_after :: "payload option"
  ar_hash :: "pystr option"

type_synonym trail = "audit_row list"

record anchor_row =
  an_id :: pystr
  an_actor :: pystr
  an_start :: pystr
  an_end :: pystr
  an_root :: pystr
  an_size :: int
  an_tip :: pystr
  an_pin :: "pystr option"
  an_created :: int

datatype audit_error =
    AuditWriteError
  | AuditSchema protocol_error
  | AuditIntegrity

definition SOURCES :: "pystr list" where
  "SOURCES = [lit ''app'', lit ''cli'', lit ''mcp'', lit ''sync'']"

definition ACTION_MAX_LENGTH :: nat where "ACTION_MAX_LENGTH = 64"

definition AGENT_READ_ACTION :: pystr where "AGENT_READ_ACTION = lit ''agent.read''"

text \<open>\<open>str.isspace\<close> on one code point, and the emptiness of \<open>s.strip()\<close>.\<close>

definition py_space :: "nat \<Rightarrow> bool" where
  "py_space c \<longleftrightarrow> c \<in> {9, 10, 11, 12, 13, 28, 29, 30, 31, 32, 133, 160, 5760, 8232, 8233, 8239, 8287, 12288} \<or>
     8192 \<le> c \<and> c \<le> 8202"

definition blank :: "pystr \<Rightarrow> bool" where
  "blank s \<longleftrightarrow> list_all py_space s"

definition opt_str_val :: "pystr option \<Rightarrow> pyval" where
  "opt_str_val x = (case x of None \<Rightarrow> PNone | Some s \<Rightarrow> PStr s)"

definition opt_dict_val :: "payload option \<Rightarrow> pyval" where
  "opt_dict_val x = (case x of None \<Rightarrow> PNone | Some d \<Rightarrow> pdict d)"

definition chain_record :: "audit_row \<Rightarrow> payload" where
  "chain_record r =
     [(lit ''id'', PStr (ar_id r)), (lit ''actor_seq'', PInt (ar_actor_seq r)),
      (lit ''created_at'', PInt (ar_created r)), (lit ''actor_id'', PStr (ar_actor r)),
      (lit ''action'', PStr (ar_action r)), (lit ''object_ref'', opt_str_val (ar_object r)),
      (lit ''source'', PStr (ar_source r)), (lit ''before'', opt_dict_val (ar_before r)),
      (lit ''after'', opt_dict_val (ar_after r))]"

definition by_id :: "trail \<Rightarrow> trail" where
  "by_id t = sort_key ar_id t"

text \<open>\<open>ORDER BY id DESC LIMIT 1\<close>\<close>

definition last_hash :: "trail \<Rightarrow> pystr option" where
  "last_hash t = (if t = [] then None else ar_hash (last (by_id t)))"

definition current_tip :: "trail \<Rightarrow> pystr option" where
  "current_tip t = last_hash t"

section \<open>Appending\<close>

definition audit_write ::
    "(bytes \<Rightarrow> pystr) \<Rightarrow> env \<Rightarrow> pystr \<Rightarrow> pystr \<Rightarrow> pystr \<Rightarrow> pystr option \<Rightarrow> payload option \<Rightarrow> payload option \<Rightarrow>
     trail \<Rightarrow> audit_error + audit_row \<times> trail" where
  "audit_write H v actor action source obj before after t =
     (if blank actor then Inl AuditWriteError
      else if blank action then Inl AuditWriteError
      else if ACTION_MAX_LENGTH < length action then Inl AuditWriteError
      else if source \<notin> set SOURCES then Inl AuditWriteError
      else
        let r = \<lparr>ar_id = env_id v, ar_actor_seq = 0, ar_created = env_now v, ar_actor = actor,
                 ar_action = action, ar_object = obj, ar_source = source, ar_before = before,
                 ar_after = after, ar_hash = None\<rparr> in
        (case chain_hash H (current_tip t) (chain_record r) of
           Inl e \<Rightarrow> Inl (AuditSchema e)
         | Inr h \<Rightarrow>
             if ar_id r \<in> ar_id ` set t then Inl AuditIntegrity
             else Inr (r\<lparr>ar_hash := Some h\<rparr>, t @ [r\<lparr>ar_hash := Some h\<rparr>])))"

section \<open>Reading\<close>

definition opt_eq :: "'a option \<Rightarrow> 'a \<Rightarrow> bool" where
  "opt_eq x y \<longleftrightarrow> (case x of None \<Rightarrow> True | Some z \<Rightarrow> y = z)"

text \<open>\<open>ORDER BY created_at DESC, id DESC LIMIT n\<close> over distinct ids.\<close>

definition read_range :: "pystr option \<Rightarrow> pystr option \<Rightarrow> pystr option \<Rightarrow> nat \<Rightarrow> trail \<Rightarrow> trail" where
  "read_range actor action source limit t =
     take limit (List.rev (sort_key (\<lambda>r. (ar_created r, ar_id r))
       (filter (\<lambda>r. opt_eq actor (ar_actor r) \<and> opt_eq action (ar_action r) \<and> opt_eq source (ar_source r)) t)))"

definition mcp_actor_ids :: "trail \<Rightarrow> pystr set" where
  "mcp_actor_ids t = ar_actor ` set (filter (\<lambda>r. ar_source r = lit ''mcp'') t)"

section \<open>Verifying the chain\<close>

datatype chain_reason = ChainOk | ChainEmpty | ChainUnchained | ChainTampered | ChainTruncated

record chain_verification =
  cv_ok :: bool
  cv_reason :: chain_reason
  cv_event :: "pystr option"

text \<open>The loop: either the first break, or the hash and id it ended on.\<close>

fun chain_walk ::
    "(bytes \<Rightarrow> pystr) \<Rightarrow> pystr option \<Rightarrow> pystr option \<Rightarrow> trail \<Rightarrow>
     protocol_error + chain_verification + pystr option \<times> pystr option" where
  "chain_walk H previous last_id [] = Inr (Inr (previous, last_id))"
| "chain_walk H previous last_id (r # rs) =
     (case ar_hash r of
        None \<Rightarrow> Inr (Inl \<lparr>cv_ok = False, cv_reason = ChainUnchained, cv_event = Some (ar_id r)\<rparr>)
      | Some h \<Rightarrow>
          rbind (chain_hash H previous (chain_record r)) (\<lambda>x.
            if x \<noteq> h then Inr (Inl \<lparr>cv_ok = False, cv_reason = ChainTampered, cv_event = Some (ar_id r)\<rparr>)
            else chain_walk H (Some h) (Some (ar_id r)) rs))"

definition range_rows :: "pystr option \<Rightarrow> pystr option \<Rightarrow> trail \<Rightarrow> trail" where
  "range_rows start_id end_id t =
     by_id (filter (\<lambda>r. (case start_id of None \<Rightarrow> True | Some s \<Rightarrow> s \<le> ar_id r) \<and>
       (case end_id of None \<Rightarrow> True | Some e \<Rightarrow> ar_id r \<le> e)) t)"

definition hash_before :: "pystr \<Rightarrow> trail \<Rightarrow> pystr option" where
  "hash_before i t = last_hash (filter (\<lambda>r. ar_id r < i) t)"

definition verify_chain ::
    "(bytes \<Rightarrow> pystr) \<Rightarrow> pystr option \<Rightarrow> pystr option \<Rightarrow> pystr option \<Rightarrow> trail \<Rightarrow>
     protocol_error + chain_verification" where
  "verify_chain H start_id end_id expected_tip t =
     rbind (chain_walk H (case start_id of None \<Rightarrow> None | Some s \<Rightarrow> hash_before s t) None
              (range_rows start_id end_id t))
       (\<lambda>w. case w of
          Inl v \<Rightarrow> Inr v
        | Inr (previous, last_id) \<Rightarrow>
            if expected_tip \<noteq> None \<and> previous \<noteq> expected_tip
              then Inr \<lparr>cv_ok = False, cv_reason = ChainTruncated, cv_event = last_id\<rparr>
            else if last_id = None then Inr \<lparr>cv_ok = True, cv_reason = ChainEmpty, cv_event = None\<rparr>
            else Inr \<lparr>cv_ok = True, cv_reason = ChainOk, cv_event = last_id\<rparr>)"

section \<open>Anchoring\<close>

definition anchor_leaf :: "audit_row \<Rightarrow> audit_error + bytes" where
  "anchor_leaf r =
     (if ar_hash r = None then Inl AuditWriteError
      else (case canonicalize (pdict (chain_record r)) of Inl e \<Rightarrow> Inl (AuditSchema e) | Inr b \<Rightarrow> Inr b))"

definition anchor_range ::
    "(bytes \<Rightarrow> pystr) \<Rightarrow> env \<Rightarrow> (pystr \<Rightarrow> pystr option) option \<Rightarrow> pystr \<Rightarrow> pystr option \<Rightarrow> pystr option \<Rightarrow>
     trail \<Rightarrow> anchor_row list \<Rightarrow> audit_error + anchor_row \<times> anchor_row list" where
  "anchor_range H v pin actor start_id end_id t anchors =
     (let rows = range_rows start_id end_id t in
      if rows = [] then Inl AuditWriteError
      else
        rbind (rmap anchor_leaf rows) (\<lambda>leaves.
        rbind (case merkle_root H leaves of Inl e \<Rightarrow> Inl (AuditSchema e) | Inr x \<Rightarrow> Inr x) (\<lambda>root.
        let a = \<lparr>an_id = env_id v, an_actor = actor, an_start = ar_id (hd rows), an_end = ar_id (last rows),
                 an_root = root, an_size = int (length rows),
                 an_tip = (case ar_hash (last rows) of None \<Rightarrow> [] | Some h \<Rightarrow> h),
                 an_pin = (case pin of None \<Rightarrow> None | Some f \<Rightarrow> f root), an_created = env_now v\<rparr> in
        if an_id a \<in> an_id ` set anchors then Inl AuditIntegrity else Inr (a, anchors @ [a]))))"

definition range_is_anchored :: "pystr \<Rightarrow> anchor_row list \<Rightarrow> bool" where
  "range_is_anchored end_id anchors \<longleftrightarrow> list_ex (\<lambda>a. end_id \<le> an_end a) anchors"

section \<open>Summarising\<close>

definition blank_row :: "pystr list \<Rightarrow> audit_row \<Rightarrow> audit_row" where
  "blank_row ids r = (if ar_id r \<in> set ids then r\<lparr>ar_before := None, ar_after := None\<rparr> else r)"

text \<open>The links of the rows, each from its predecessor's new link.\<close>

fun relink :: "(bytes \<Rightarrow> pystr) \<Rightarrow> pystr option \<Rightarrow> trail \<Rightarrow> protocol_error + (pystr \<times> pystr) list" where
  "relink H previous [] = Inr []"
| "relink H previous (r # rs) =
     rbind (chain_hash H previous (chain_record r)) (\<lambda>h.
     rbind (relink H (Some h) rs) (\<lambda>links. Inr ((ar_id r, h) # links)))"

definition set_links :: "(pystr \<times> pystr) list \<Rightarrow> audit_row \<Rightarrow> audit_row" where
  "set_links links r = (case map_of links (ar_id r) of None \<Rightarrow> r | Some h \<Rightarrow> r\<lparr>ar_hash := Some h\<rparr>)"

definition summarize_rows ::
    "(bytes \<Rightarrow> pystr) \<Rightarrow> pystr list \<Rightarrow> anchor_row list \<Rightarrow> trail \<Rightarrow> audit_error + nat \<times> trail" where
  "summarize_rows H ids anchors t =
     (if ids = [] then Inr (0, t)
      else if \<not> range_is_anchored (Max (set ids)) anchors then Inl AuditWriteError
      else
        let first = Min (set ids); blanked = map (blank_row ids) t in
        (case relink H (hash_before first blanked) (range_rows (Some first) None blanked) of
           Inl e \<Rightarrow> Inl (AuditSchema e)
         | Inr links \<Rightarrow> Inr (length ids, map (set_links links) blanked)))"

section \<open>Aggregated agent reads\<close>

record read_tally =
  rt_total :: int
  rt_bytes :: int
  rt_objects :: "(pystr, int) dict"

definition read_pending :: "(pystr, read_tally) dict \<Rightarrow> int" where
  "read_pending ts = sum_list (map (\<lambda>(_, t). rt_total t) ts)"

definition read_record ::
    "pystr \<Rightarrow> pystr option \<Rightarrow> int \<Rightarrow> (pystr, read_tally) dict \<Rightarrow> audit_error + (pystr, read_tally) dict" where
  "read_record actor obj bytes ts =
     (if blank actor then Inl AuditWriteError
      else if bytes < 0 then Inl AuditWriteError
      else
        let t = (case dget ts actor of
              None \<Rightarrow> \<lparr>rt_total = 0, rt_bytes = 0, rt_objects = []\<rparr> | Some t \<Rightarrow> t) in
        Inr (dset actor
          \<lparr>rt_total = rt_total t + 1, rt_bytes = rt_bytes t + bytes,
           rt_objects = (case obj of None \<Rightarrow> rt_objects t
             | Some i \<Rightarrow> dset i ((case dget (rt_objects t) i of None \<Rightarrow> 0 | Some n \<Rightarrow> n) + 1) (rt_objects t))\<rparr> ts))"

definition tally_payload :: "read_tally \<Rightarrow> payload" where
  "tally_payload t = [(lit ''reads'', PInt (rt_total t)), (lit ''bytes'', PInt (rt_bytes t)),
     (lit ''objects'', PDict (map (\<lambda>(i, n). (PStr i, PInt n)) (rt_objects t)))]"

text \<open>One summary row per agent; \<open>vs\<close> supplies the fresh ids and times.  The tallies are reset
  whatever the writes do.\<close>

fun write_tallies ::
    "(bytes \<Rightarrow> pystr) \<Rightarrow> (nat \<Rightarrow> env) \<Rightarrow> nat \<Rightarrow> (pystr, read_tally) dict \<Rightarrow> trail \<Rightarrow> audit_error + trail" where
  "write_tallies H vs n [] t = Inr t"
| "write_tallies H vs n ((actor, y) # ys) t =
     rbind (audit_write H (vs n) actor AGENT_READ_ACTION (lit ''mcp'') None None (Some (tally_payload y)) t)
       (\<lambda>(_, t'). write_tallies H vs (Suc n) ys t')"

definition read_flush ::
    "(bytes \<Rightarrow> pystr) \<Rightarrow> (nat \<Rightarrow> env) \<Rightarrow> (pystr, read_tally) dict \<Rightarrow> trail \<Rightarrow>
     (audit_error + trail) \<times> (pystr, read_tally) dict" where
  "read_flush H vs ts t = (write_tallies H vs 0 ts t, [])"

section \<open>Linked rows\<close>

fun linked :: "(bytes \<Rightarrow> pystr) \<Rightarrow> pystr option \<Rightarrow> trail \<Rightarrow> bool" where
  "linked H p [] \<longleftrightarrow> True"
| "linked H p (r # rs) \<longleftrightarrow>
     chain_hash H p (chain_record r) = (case ar_hash r of None \<Rightarrow> Inl SchemaViolation | Some h \<Rightarrow> Inr h)
     \<and> ar_hash r \<noteq> None \<and> linked H (ar_hash r) rs"

definition tip_from :: "pystr option \<Rightarrow> trail \<Rightarrow> pystr option" where
  "tip_from p rs = (if rs = [] then p else ar_hash (last rs))"

lemma tip_from_simps [simp]:
  "tip_from p [] = p" "tip_from p (rs @ [r]) = ar_hash r" "tip_from p (r # rs) = tip_from (ar_hash r) rs"
  by (auto simp: tip_from_def)

lemma sort_key_Nil_iff [simp]: "sort_key f xs = [] \<longleftrightarrow> xs = []"
  by (metis set_empty set_sort)

lemma current_tip_from: "current_tip t = tip_from None (by_id t)"
  by (simp add: current_tip_def last_hash_def tip_from_def by_id_def)

lemma linked_append: "linked H p (xs @ ys) \<longleftrightarrow> linked H p xs \<and> linked H (tip_from p xs) ys"
  by (induction xs arbitrary: p) auto

lemma chain_walk_linked:
  "(\<exists>q m. chain_walk H p l rs = Inr (Inr (q, m))) \<longleftrightarrow> linked H p rs"
proof (induction rs arbitrary: p l)
  case (Cons r rs)
  show ?case
  proof (cases "ar_hash r")
    case (Some h)
    show ?thesis
      by (cases "chain_hash H p (chain_record r)") (auto simp: Some Cons.IH [of "Some h" "Some (ar_id r)"])
  qed simp
qed simp

lemma chain_walk_end:
  "chain_walk H p l rs = Inr (Inr (q, m)) \<Longrightarrow>
   q = tip_from p rs \<and> m = (if rs = [] then l else Some (ar_id (last rs)))"
proof (induction rs arbitrary: p l)
  case (Cons r rs)
  then obtain h where h: "ar_hash r = Some h" "chain_walk H (Some h) (Some (ar_id r)) rs = Inr (Inr (q, m))"
    by (auto simp: rbind_Inr_iff split: option.splits if_splits)
  from Cons.IH [OF h(2)] h(1) show ?case by simp
qed simp

text \<open>What a verification from genesis says.\<close>

lemma verify_chain_ok:
  "(\<exists>v. verify_chain H None None expected t = Inr v \<and> cv_ok v) \<longleftrightarrow>
   linked H None (by_id t) \<and> (expected = None \<or> expected = current_tip t)"
proof -
  have r: "range_rows None None t = by_id t" by (simp add: range_rows_def)
  have bad: "\<not> cv_ok v" if "chain_walk H p l rs = Inr (Inl v)" for p l rs v
    using that by (induction rs arbitrary: p l) (auto simp: rbind_Inr_iff split: option.splits if_splits)
  show ?thesis
  proof (cases "\<exists>q m. chain_walk H None None (by_id t) = Inr (Inr (q, m))")
    case True
    then obtain q m where w: "chain_walk H None None (by_id t) = Inr (Inr (q, m))" by blast
    then have "q = current_tip t" by (auto dest: chain_walk_end simp: current_tip_from)
    with w True [unfolded chain_walk_linked] show ?thesis
      by (auto simp: verify_chain_def r split: if_splits)
  next
    case False
    then have "\<nexists>v. verify_chain H None None expected t = Inr v \<and> cv_ok v"
      using bad by (auto simp: verify_chain_def r rbind_Inr_iff split: sum.splits prod.splits)
    with False [unfolded chain_walk_linked] show ?thesis by simp
  qed
qed

section \<open>Sorting by id\<close>

lemma insort_key_snoc: "f y \<le> f x \<Longrightarrow> insort_key f y (ys @ [x]) = insort_key f y ys @ [x]"
  by (induction ys) auto

lemma sort_key_snoc: "(\<And>y. y \<in> set xs \<Longrightarrow> f y \<le> f x) \<Longrightarrow> sort_key f (xs @ [x]) = sort_key f xs @ [x]"
proof (induction xs)
  case (Cons y xs)
  then have "sort_key f (xs @ [x]) = sort_key f xs @ [x]" "f y \<le> f x" by simp_all
  then show ?case by (simp add: insort_key_snoc)
qed simp

lemma sorted_split:
  "sorted (map f xs) \<Longrightarrow> xs = filter (\<lambda>x. f x < a) xs @ filter (\<lambda>x. a \<le> f x) xs"
proof (induction xs)
  case (Cons x xs)
  then have IH: "xs = filter (\<lambda>x. f x < a) xs @ filter (\<lambda>x. a \<le> f x) xs" by simp
  show ?case
  proof (cases "f x < a")
    case True
    then have "\<not> a \<le> f x" by simp
    with True IH show ?thesis by simp
  next
    case False
    with Cons.prems have "\<forall>y \<in> set xs. \<not> f y < a" by fastforce
    then have "filter (\<lambda>x. f x < a) xs = []" "filter (\<lambda>x. a \<le> f x) xs = xs"
      by (auto simp: filter_empty_conv not_less filter_id_conv)
    with False show ?thesis by simp
  qed
qed simp

lemma by_id_map: "(\<And>r. ar_id (f r) = ar_id r) \<Longrightarrow> by_id (map f t) = map f (by_id t)"
  using sort_key_map [of f ar_id t] by (simp add: by_id_def)

lemma by_id_split: "by_id t = by_id (filter (\<lambda>r. ar_id r < i) t) @ by_id (filter (\<lambda>r. i \<le> ar_id r) t)"
  using sorted_split [of ar_id "by_id t" i] by (simp add: by_id_def filter_sort)

lemma distinct_by_id [simp]: "distinct (map ar_id (by_id t)) \<longleftrightarrow> distinct (map ar_id t)"
  by (rule mset_eq_imp_distinct_iff) (simp add: by_id_def)

lemma set_by_id [simp]: "set (by_id t) = set t"
  by (simp add: by_id_def)

section \<open>Appending keeps the chain\<close>

lemma audit_write_Inr:
  assumes "audit_write H v actor action source obj before after t = Inr (r, t')"
  shows "t' = t @ [r]" "ar_id r = env_id v" "ar_actor r = actor" "ar_action r = action" "ar_source r = source"
    "ar_object r = obj" "ar_before r = before" "ar_after r = after" "ar_created r = env_now v"
    "env_id v \<notin> ar_id ` set t" "\<exists>h. ar_hash r = Some h \<and> chain_hash H (current_tip t) (chain_record r) = Inr h"
  using assms by (auto simp: audit_write_def Let_def chain_record_def split: if_splits sum.splits)

lemma audit_write_linked:
  assumes "audit_write H v actor action source obj before after t = Inr (r, t')"
    and "\<forall>s \<in> set t. ar_id s \<le> env_id v" "linked H None (by_id t)"
  shows "linked H None (by_id t')" "current_tip t' = ar_hash r"
proof -
  note w = audit_write_Inr [OF assms(1)]
  have b: "by_id t' = by_id t @ [r]"
    using assms(2) w(2) by (simp add: w(1) by_id_def sort_key_snoc)
  show "current_tip t' = ar_hash r" by (simp add: current_tip_from b)
  show "linked H None (by_id t')"
    using w(11) assms(3) by (auto simp: b linked_append current_tip_from)
qed

lemma audit_write_distinct:
  "audit_write H v actor action source obj before after t = Inr (r, t') \<Longrightarrow>
   distinct (map ar_id t) \<Longrightarrow> distinct (map ar_id t')"
  by (frule audit_write_Inr(1), frule audit_write_Inr(2), drule audit_write_Inr(10)) simp

section \<open>Tampering is evident\<close>

fun link_messages :: "pystr option \<Rightarrow> trail \<Rightarrow> bytes list" where
  "link_messages p [] = []"
| "link_messages p (r # rs) =
     (case canonicalize (pdict (chain_record r)) of Inl _ \<Rightarrow> [] | Inr b \<Rightarrow> [chain_message p b]) @
     link_messages (ar_hash r) rs"

lemma link_messages_append:
  "link_messages p (xs @ ys) = link_messages p xs @ link_messages (tip_from p xs) ys"
  by (induction xs arbitrary: p) simp_all

definition collision :: "(bytes \<Rightarrow> pystr) \<Rightarrow> bytes list \<Rightarrow> bytes list \<Rightarrow> bool" where
  "collision H ms ns \<longleftrightarrow> (\<exists>m \<in> set ms. \<exists>n \<in> set ns. m \<noteq> n \<and> H m = H n)"

lemma collision_append: "collision H ms ns \<Longrightarrow> collision H (ms @ ms') (ns @ ns')"
  by (auto simp: collision_def)

definition row_bytes :: "audit_row \<Rightarrow> protocol_error + bytes" where
  "row_bytes r = canonicalize (pdict (chain_record r))"

text \<open>Two linked trails that end on the same link commit to the same rows, or collide.\<close>

lemma linked_same_tip:
  "linked H None xs \<Longrightarrow> linked H None ys \<Longrightarrow> tip_from None xs = tip_from None ys \<Longrightarrow>
   map row_bytes xs = map row_bytes ys \<or> collision H (link_messages None xs) (link_messages None ys)"
proof (induction xs arbitrary: ys rule: rev_induct)
  case Nil
  then show ?case by (cases ys rule: rev_cases) (auto simp: linked_append)
next
  case (snoc r xs)
  have r: "linked H None xs" "linked H (tip_from None xs) [r]" using snoc.prems(1) by (simp_all only: linked_append)
  obtain ys' s where ys: "ys = ys' @ [s]"
    using snoc.prems r(2) by (cases ys rule: rev_cases) auto
  have s: "linked H None ys'" "linked H (tip_from None ys') [s]"
    using snoc.prems(2) by (simp_all only: linked_append ys)
  obtain h where h: "ar_hash r = Some h" "ar_hash s = Some h" using snoc.prems(3) r(2) by (auto simp: ys)
  have ch: "chain_hash H (tip_from None xs) (chain_record r) = Inr h"
    "chain_hash H (tip_from None ys') (chain_record s) = Inr h"
    using r(2) s(2) h by simp_all
  then obtain b c where bc: "canonicalize (pdict (chain_record r)) = Inr b" "canonicalize (pdict (chain_record s)) = Inr c"
    by (auto simp: chain_hash_Inr)
  from chain_hash_collision [OF ch bc] show ?case
  proof
    assume eq: "tip_from None xs = tip_from None ys' \<and> b = c"
    from snoc.IH [OF r(1) s(1)] eq bc show ?thesis
      by (auto simp: ys link_messages_append row_bytes_def intro: collision_append)
  next
    assume "chain_message (tip_from None xs) b \<noteq> chain_message (tip_from None ys') c \<and>
      H (chain_message (tip_from None xs) b) = H (chain_message (tip_from None ys') c)"
    then show ?thesis by (auto simp: ys link_messages_append bc collision_def)
  qed
qed

section \<open>Summarising keeps the chain\<close>

lemma ids_kept [simp]: "ar_id (blank_row ids r) = ar_id r" "ar_id (set_links links r) = ar_id r"
  by (simp_all add: blank_row_def set_links_def split: option.splits)

lemma chain_record_hash [simp]: "chain_record (r\<lparr>ar_hash := h\<rparr>) = chain_record r"
  by (simp add: chain_record_def)

lemma relink_keys: "relink H p rs = Inr links \<Longrightarrow> map fst links = map ar_id rs"
  by (induction rs arbitrary: p links) (auto simp: rbind_Inr_iff)

lemma relink_linked:
  "relink H p rs = Inr links \<Longrightarrow> distinct (map ar_id rs) \<Longrightarrow> linked H p (map (set_links links) rs)"
proof (induction rs arbitrary: p links)
  case (Cons r rs)
  then obtain h ls where h: "chain_hash H p (chain_record r) = Inr h" "relink H (Some h) rs = Inr ls"
    "links = (ar_id r, h) # ls"
    by (auto simp: rbind_Inr_iff)
  have "ar_id s \<noteq> ar_id r" if "s \<in> set rs" for s 
    using Cons.prems(2) image_eqI [OF refl that, of ar_id] by auto
  then have eq: "map (set_links links) rs = map (set_links ls) rs"
    by (auto simp: h(3) set_links_def)
  have "linked H (Some h) (map (set_links ls) rs)" using Cons.IH [OF h(2)] Cons.prems(2) by simp
  moreover have "set_links links r = r\<lparr>ar_hash := Some h\<rparr>" by (simp add: set_links_def h(3))
  ultimately show ?case using h(1) unfolding list.map eq by simp
qed simp

lemma set_links_other: "ar_id r \<notin> set (map fst links) \<Longrightarrow> set_links links r = r"
  by (simp add: set_links_def map_of_eq_None_iff [THEN iffD2])

lemma summarize_rows_Inr:
  assumes "summarize_rows H ids anchors t = Inr (n, t')" "ids \<noteq> []"
  obtains links where "range_is_anchored (Max (set ids)) anchors" "n = length ids"
    "relink H (hash_before (Min (set ids)) (map (blank_row ids) t))
       (range_rows (Some (Min (set ids))) None (map (blank_row ids) t)) = Inr links"
    "t' = map (set_links links) (map (blank_row ids) t)"
  using assms by (auto simp: summarize_rows_def Let_def split: if_splits sum.splits)

lemma summarize_rows_linked:
  assumes "summarize_rows H ids anchors t = Inr (n, t')" "linked H None (by_id t)" "distinct (map ar_id t)"
  shows "linked H None (by_id t')"
proof (cases "ids = []")
  case True
  with assms show ?thesis by (simp add: summarize_rows_def)
next
  case False
  let ?first = "Min (set ids)"
  let ?b = "map (blank_row ids) t"
  let ?low = "by_id (filter (\<lambda>r. ar_id r < ?first) ?b)"
  let ?high = "by_id (filter (\<lambda>r. ?first \<le> ar_id r) ?b)"
  from assms(1) False obtain links where links: "relink H (hash_before ?first ?b) (range_rows (Some ?first) None ?b) = Inr links"
    "t' = map (set_links links) ?b" by (rule summarize_rows_Inr)
  have high: "range_rows (Some ?first) None ?b = ?high" by (simp add: range_rows_def)
  have low: "hash_before ?first ?b = tip_from None ?low"
    by (simp add: hash_before_def last_hash_def tip_from_def by_id_def del: map_is_Nil_conv)
  have d: "distinct (map ar_id ?b)" using assms(3) by (simp add: comp_def)
  then have dh: "distinct (map ar_id ?high)"
    unfolding distinct_by_id by (rule distinct_map_filter)
  have keys: "set (map fst links) = ar_id ` set ?high"
    using relink_keys [OF links(1)] by (simp add: high)
  have lowset: "set_links links r = r" if "r \<in> set ?low" for r
    by (rule set_links_other) (use that keys in \<open>auto simp: not_le [symmetric]\<close>)
  have lows: "?low = by_id (filter (\<lambda>r. ar_id r < ?first) t)"
  proof -
    have "blank_row ids r = r" if "ar_id r < ?first" for r
      using that False by (auto simp: blank_row_def not_le [symmetric])
    then have "filter (\<lambda>r. ar_id r < ?first) ?b = filter (\<lambda>r. ar_id r < ?first) t"
      by (induction t) auto
    then show ?thesis by simp
  qed
  have "by_id t' = map (set_links links) (by_id ?b)" by (simp add: links(2) by_id_map del: map_map)
  also have "\<dots> = map (set_links links) ?low @ map (set_links links) ?high"
    by (subst by_id_split [of _ ?first]) simp
  also have "map (set_links links) ?low = ?low" by (rule map_idI) (rule lowset)
  finally have eq: "by_id t' = ?low @ map (set_links links) ?high" .
  have "linked H None ?low"
    using assms(2) by_id_split [of t ?first] by (simp add: lows linked_append)
  moreover have "linked H (tip_from None ?low) (map (set_links links) ?high)"
    using links(1) dh unfolding high low by (rule relink_linked)
  ultimately show ?thesis by (simp add: eq linked_append)
qed

text \<open>Only the two snapshots of the named rows go; the trail keeps its rows, ids and attribution.\<close>

lemma summarize_rows_content:
  assumes "summarize_rows H ids anchors t = Inr (n, t')"
  shows "list_all2 (\<lambda>r s. s = (blank_row ids r)\<lparr>ar_hash := ar_hash s\<rparr>) t t'"
proof (cases "ids = []")
  case True
  with assms show ?thesis
    by (simp add: summarize_rows_def list_all2_same blank_row_def)
next
  case False
  from assms False show ?thesis
    by (rule summarize_rows_Inr) (auto simp: list_all2_conv_all_nth set_links_def split: option.splits)
qed

section \<open>Anchors prove membership\<close>

context digest_fn begin

text \<open>Every row of an anchored range has a proof of membership against the anchor's root.\<close>

lemma anchor_members:
  assumes "anchor_range H v pin actor s e t anchors = Inr (a, anchors')" "k < length (range_rows s e t)"
  shows "\<exists>pf b. row_bytes (range_rows s e t ! k) = Inr b \<and>
    verify_inclusion_proof H b (int k) (an_size a) pf (an_root a) = Inr True"
proof -
  let ?rows = "range_rows s e t"
  from assms(1) obtain leaves where leaves: "rmap anchor_leaf ?rows = Inr leaves"
    by (auto simp: anchor_range_def Let_def rbind_Inr_iff split: if_splits)
  from assms obtain root where root: "merkle_root H leaves = Inr root"
    by (cases "merkle_root H leaves") (auto simp: anchor_range_def Let_def leaves split: if_splits)
  with assms leaves have a: "an_root a = root" "an_size a = int (length ?rows)"
    by (auto simp: anchor_range_def Let_def split: if_splits)
  have len: "length leaves = length ?rows" using leaves by (rule rmap_Inr_length)
  have "anchor_leaf (?rows ! k) = Inr (leaves ! k)"
    using leaves assms(2) by (auto simp: rmap_Inr_iff list_all2_conv_all_nth)
  then have b: "row_bytes (?rows ! k) = Inr (leaves ! k)"
    by (auto simp: anchor_leaf_def row_bytes_def split: sum.splits if_splits)
  obtain pf where "verify_inclusion_proof H (leaves ! k) (int k) (int (length leaves)) pf root = Inr True"
    using inclusion_complete [of "int k" leaves] assms(2) len root by auto
  with b show ?thesis by (auto simp: a len)
qed

end

section \<open>Read tallies\<close>

text \<open>A recorded read counts once; a flush writes each tally and leaves none.\<close>

lemma sum_list_dset:
  "sum_list (map (\<lambda>(_, t). f t) (dset k y d)) =
   sum_list (map (\<lambda>(_, t). f t) d) + (f y - (case dget d k of None \<Rightarrow> 0 | Some x \<Rightarrow> f x) :: int)"
  if "dict_ok d"
  using that by (induction d) (auto simp: dict_ok_def split: option.splits)

lemma read_record_pending:
  assumes "read_record actor obj n ts = Inr ts'" "dict_ok ts"
  shows "read_pending ts' = read_pending ts + 1" "dict_ok ts'"
  using assms by (auto simp: read_record_def Let_def read_pending_def sum_list_dset split: if_splits option.splits)

lemma write_tallies_rows:
  "write_tallies H vs n ts t = Inr t' \<Longrightarrow>
   \<exists>new. t' = t @ new \<and> map ar_actor new = dkeys ts \<and>
     map ar_after new = map (\<lambda>(_, y). Some (tally_payload y)) ts \<and>
     (\<forall>r \<in> set new. ar_action r = AGENT_READ_ACTION \<and> ar_source r = lit ''mcp'')"
proof (induction H vs n ts t rule: write_tallies.induct)
  case (2 H vs n actor y ys t)
  then obtain r t1 where w: "audit_write H (vs n) actor AGENT_READ_ACTION (lit ''mcp'') None None (Some (tally_payload y)) t = Inr (r, t1)"
    "write_tallies H vs (Suc n) ys t1 = Inr t'"
    by (auto simp: rbind_Inr_iff)
  from "2.IH" [OF w(1) refl w(2)] obtain new where "t' = t1 @ new" "map ar_actor new = dkeys ys"
    "map ar_after new = map (\<lambda>(_, y). Some (tally_payload y)) ys"
    "\<forall>r \<in> set new. ar_action r = AGENT_READ_ACTION \<and> ar_source r = lit ''mcp''" by blast
  with audit_write_Inr [OF w(1)] show ?case by (intro exI [of _ "r # new"]) simp
qed simp

end
