(* ===== verification/Store.thy ===== *)
theory Store
  imports Complex_Main EventLog Apply Trail
begin

text \<open>
  The database of one replica: the event log, the collection tables, the sync cursors and the audit
  trail.  The sync engine and the domain services all work on this one record.
\<close>

record replica =
  rp_log :: log
  rp_tables :: tables
  rp_cursors :: "(pystr \<times> pystr, int) dict"
  rp_trail :: trail

end
