(* ===== verification/Engine.thy ===== *)
theory Engine
  imports Port Effects Store
begin

text \<open>
  One replica's sync loop (\<open>sync_engine/engine.py\<close>).  The engine's state is the replica's
  database (log, tables, cursors, audit trail), the memoized handshake, the supply of fresh
  identifiers, the notifications and sleeps it asked for, and the backend behind the port.  A
  session block is \<open>etrans\<close>: an exception rolls the database back, never the backend.  What
  the engine calls without reading (clock, ULID factory, Ed25519, digests, date parser) comes
  with the configuration.  Delays are exact rationals; the defaults are dyadic, so the source's
  floats are exact too.
\<close>

section \<open>State and configuration\<close>

record 'b engine =
  en_db :: replica
  en_session :: "session_init option"
  en_fresh :: nat
  en_notified :: "(pystr \<times> pystr) list"
  en_slept :: "rat list"
  en_backend :: 'b

record 'b config =
  cf_port :: "'b port"
  cf_actor :: pystr
  cf_workspace :: "pystr option"
  cf_signer :: "event_signer option"
  cf_bound :: bool
  cf_notify :: bool
  cf_ed :: ed25519
  cf_H :: "bytes \<Rightarrow> pystr"
  cf_D :: "bytes \<Rightarrow> bytes"
  cf_dt :: "pystr \<Rightarrow> int option"
  cf_env :: "nat \<Rightarrow> env"

datatype engine_error =
    EPort port_error
  | EApply apply_error
  | ELog log_error
  | EAudit audit_error
  | EProtocol protocol_error
  | EMerge merge_error
  | EVersion session_init
  | EValueError
  | EKeyError
  | ETypeError
  | EFuel

type_synonym ('b, 'a) act = "('b engine, engine_error, 'a) eff"

definition ALL_COLLECTIONS :: pystr where "ALL_COLLECTIONS = lit ''*''"

definition PROPOSAL_POLICY_AUTO_REBASE :: pystr where "PROPOSAL_POLICY_AUTO_REBASE = lit ''auto_rebase''"
definition PROPOSAL_POLICY_STRICT_REBASE :: pystr where "PROPOSAL_POLICY_STRICT_REBASE = lit ''strict_rebase''"
definition PROPOSAL_STALE_POLICIES :: "pystr list" where
  "PROPOSAL_STALE_POLICIES = [PROPOSAL_POLICY_AUTO_REBASE, PROPOSAL_POLICY_STRICT_REBASE]"

record push_result =
  pu_submitted :: nat
  pu_committed :: nat
  pu_already_known :: int

record pull_result =
  pl_received :: nat
  pl_applied :: nat
  pl_own_reconciled :: nat
  pl_cursor :: int

record backoff =
  bo_base :: rat
  bo_factor :: rat
  bo_cap :: rat
  bo_max_attempts :: int

definition default_backoff :: backoff where
  "default_backoff = \<lparr>bo_base = 1 / 2, bo_factor = 2, bo_cap = 30, bo_max_attempts = 6\<rparr>"

definition delay :: "backoff \<Rightarrow> int \<Rightarrow> rat" where
  "delay b attempt = min (bo_cap b) (bo_base b * bo_factor b ^ nat (attempt - 1))"

record counts =
  ct_submitted :: nat
  ct_committed :: nat
  ct_rejected :: nat
  ct_stale :: nat
  ct_minted :: nat
  ct_rebased :: nat

record flush_result =
  fl_counts :: counts
  fl_reconciled :: nat
  fl_attempts :: int
  fl_drained :: bool
  fl_withheld :: nat

record resolve_result =
  rr_conflict_id :: pystr
  rr_resolved :: bool
  rr_rebase_required :: bool

definition SYNC_VERSION_SKEW :: int where "SYNC_VERSION_SKEW = 1"

section \<open>Building blocks\<close>

definition db_get :: "(replica \<Rightarrow> 'a) \<Rightarrow> ('b, 'a) act" where
  "db_get f = eget (\<lambda>s. f (en_db s))"

definition db_mod :: "(replica \<Rightarrow> replica) \<Rightarrow> ('b, unit) act" where
  "db_mod f = emod (\<lambda>s. s\<lparr>en_db := f (en_db s)\<rparr>)"

definition session :: "('b, 'a) act \<Rightarrow> ('b, 'a) act" where
  "session m = etrans en_db (\<lambda>d s. s\<lparr>en_db := d\<rparr>) m"

definition fresh :: "'b config \<Rightarrow> ('b, env) act" where
  "fresh cf s = (Inr (cf_env cf (en_fresh s)), s\<lparr>en_fresh := Suc (en_fresh s)\<rparr>)"

definition call :: "('b \<Rightarrow> (port_error + 'a) \<times> 'b) \<Rightarrow> ('b, 'a) act" where
  "call f s = (case f (en_backend s) of
     (Inl x, b) \<Rightarrow> (Inl (EPort x), s\<lparr>en_backend := b\<rparr>)
   | (Inr y, b) \<Rightarrow> (Inr y, s\<lparr>en_backend := b\<rparr>))"

definition set_log :: "log \<Rightarrow> ('b, unit) act" where
  "set_log l = db_mod (\<lambda>d. d\<lparr>rp_log := l\<rparr>)"

definition log_insert :: "event \<Rightarrow> int \<Rightarrow> ('b, unit) act" where
  "log_insert e n = ebind (db_get rp_log) (\<lambda>l. ebind (elift ELog (insert_event e (Some n) None l)) set_log)"

definition audit :: "'b config \<Rightarrow> pystr \<Rightarrow> pystr \<Rightarrow> pystr \<Rightarrow> pystr \<Rightarrow> payload \<Rightarrow> ('b, unit) act" where
  "audit cf actor action source obj after =
     ebind (fresh cf) (\<lambda>v.
     ebind (db_get rp_trail) (\<lambda>t.
     ebind (elift EAudit (audit_write (cf_H cf) v actor action source (Some obj) None (Some after) t)) (\<lambda>(_, t').
     db_mod (\<lambda>d. d\<lparr>rp_trail := t'\<rparr>))))"

definition refold :: "'b config \<Rightarrow> pystr \<Rightarrow> pystr \<Rightarrow> ('b, unit) act" where
  "refold cf c e =
     ebind (fresh cf) (\<lambda>v.
     ebind (db_get id) (\<lambda>d.
     ebind (elift EApply (refold_entity (cf_dt cf) v (rp_log d) c e (rp_tables d))) (\<lambda>ts.
     db_mod (\<lambda>d. d\<lparr>rp_tables := ts\<rparr>))))"

definition refold_all :: "'b config \<Rightarrow> (pystr \<times> pystr) list \<Rightarrow> ('b, unit) act" where
  "refold_all cf touched = efor (\<lambda>(c, e). refold cf c e) touched"

definition add_touched :: "event \<Rightarrow> (pystr \<times> pystr) list \<Rightarrow> (pystr \<times> pystr) list" where
  "add_touched e touched =
     (if (collection e, entity_id e) \<in> set touched then touched else touched @ [(collection e, entity_id e)])"

text \<open>\<open>"a/b"\<close> and \<open>s.rstrip("s")\<close>\<close>

definition ref_str :: "pystr \<Rightarrow> pystr \<Rightarrow> pystr" where
  "ref_str c e = c @ lit ''/'' @ e"

definition rstrip_s :: "pystr \<Rightarrow> pystr" where
  "rstrip_s s = List.rev (dropWhile (\<lambda>c. c = 115) (List.rev s))"

definition mark_row :: "int \<Rightarrow> log_row \<Rightarrow> log_row" where
  "mark_row n r = r\<lparr>committed_rev := Some n, row_state := Committed\<rparr>"

definition mark_found :: "int \<Rightarrow> log_row option \<Rightarrow> log \<Rightarrow> log" where
  "mark_found n found l =
     (case found of
        None \<Rightarrow> l
      | Some r \<Rightarrow> if committed_rev r = None then update_row (event_id r) (mark_row n) l else l)"

definition mark_committed :: "event \<Rightarrow> int \<Rightarrow> ('b, unit) act" where
  "mark_committed e n =
     ebind (db_get rp_log) (\<lambda>l. set_log (mark_found n (event_row l (actor_id e) (actor_seq e)) l))"

definition mark_committed_by_id :: "pystr \<Rightarrow> int \<Rightarrow> ('b, unit) act" where
  "mark_committed_by_id i n = ebind (db_get rp_log) (\<lambda>l. set_log (mark_found n (event_by_id l i) l))"

definition set_state :: "sync_state \<Rightarrow> log_row \<Rightarrow> ('b, unit) act" where
  "set_state st r =
     ebind (db_get rp_log) (\<lambda>l. set_log (update_row (event_id r) (\<lambda>r. r\<lparr>row_state := st\<rparr>) l))"

section \<open>Cursors\<close>

definition cursor :: "'b config \<Rightarrow> pystr \<Rightarrow> ('b, int) act" where
  "cursor cf k =
     db_get (\<lambda>d. case dget (rp_cursors d) (k, cf_actor cf) of None \<Rightarrow> 0 | Some n \<Rightarrow> n)"

definition ack_cursor :: "'b config \<Rightarrow> pystr \<Rightarrow> int \<Rightarrow> ('b, unit) act" where
  "ack_cursor cf k n =
     db_mod (\<lambda>d. case dget (rp_cursors d) (k, cf_actor cf) of
         None \<Rightarrow> d\<lparr>rp_cursors := dset (k, cf_actor cf) n (rp_cursors d)\<rparr>
       | Some m \<Rightarrow> if n > m then d\<lparr>rp_cursors := dset (k, cf_actor cf) n (rp_cursors d)\<rparr> else d)"

definition collection_key :: "pystr option \<Rightarrow> pystr" where
  "collection_key c = (case c of None \<Rightarrow> ALL_COLLECTIONS | Some k \<Rightarrow> if k = [] then ALL_COLLECTIONS else k)"

definition ack :: "'b config \<Rightarrow> int \<Rightarrow> pystr option \<Rightarrow> ('b, unit) act" where
  "ack cf n c = session (ack_cursor cf (collection_key c) n)"

definition pending_count :: "('b, nat) act" where
  "pending_count = db_get (\<lambda>d. length (pending_rows (rp_log d)))"

section \<open>Handshake\<close>

definition versions_payload :: "session_init \<Rightarrow> payload" where
  "versions_payload peer =
     [(lit ''ours'', PDict [(PStr (lit ''sync''), PInt SYNC_VERSION), (PStr (lit ''schema''), PInt EXPECTED_SCHEMA_VERSION)]),
      (lit ''peer'', PDict [(PStr (lit ''sync''), PInt (si_sync_version peer)),
                            (PStr (lit ''schema''), PInt (si_schema_version peer))])]"

definition audit_version_reject :: "'b config \<Rightarrow> session_init \<Rightarrow> ('b, unit) act" where
  "audit_version_reject cf peer =
     session (audit cf (cf_actor cf) (lit ''sync.version_rejected'') (lit ''sync'') (lit ''sync/session'')
       (versions_payload peer))"

definition remember :: "session_init \<Rightarrow> ('b, session_init) act" where
  "remember p s = (Inr p, s\<lparr>en_session := Some p\<rparr>)"

definition negotiate_session :: "'b config \<Rightarrow> ('b, session_init) act" where
  "negotiate_session cf =
     ebind (eget en_session) (\<lambda>memo.
     case memo of
       Some p \<Rightarrow> eret p
     | None \<Rightarrow>
         (case pt_session_init (cf_port cf) of
            None \<Rightarrow> remember \<lparr>si_sync_version = SYNC_VERSION, si_schema_version = EXPECTED_SCHEMA_VERSION\<rparr>
          | Some init \<Rightarrow>
              ebind (call (init SYNC_VERSION EXPECTED_SCHEMA_VERSION)) (\<lambda>peer.
              if SYNC_VERSION_SKEW < \<bar>si_sync_version peer - SYNC_VERSION\<bar>
                then eseq (audit_version_reject cf peer) (eraise (EVersion peer))
                else remember peer)))"

section \<open>Push and pull\<close>

definition push :: "'b config \<Rightarrow> ('b, push_result) act" where
  "push cf =
     ebind (negotiate_session cf) (\<lambda>_. session (
       ebind (db_get (\<lambda>d. map row_to_event (pending_rows (rp_log d)))) (\<lambda>events.
       ebind (call (pt_push (cf_port cf) events)) (\<lambda>committed.
       eseq (efor (\<lambda>entry. mark_committed (cevent entry) (revision entry)) committed)
         (eret \<lparr>pu_submitted = length events, pu_committed = length committed,
                pu_already_known = int (length events) - int (length committed)\<rparr>)))))"

text \<open>The loop's counters: applied, own, touched, highest.\<close>

definition ingest_entry ::
    "'b config \<Rightarrow> committed_event \<Rightarrow> nat \<times> nat \<times> (pystr \<times> pystr) list \<times> int \<Rightarrow>
     ('b, nat \<times> nat \<times> (pystr \<times> pystr) list \<times> int) act" where
  "ingest_entry cf entry acc =
     (let (applied, own, touched, highest) = acc; e = cevent entry; highest = max highest (revision entry) in
      ebind (db_get rp_log) (\<lambda>l.
      if has_event l (actor_id e) (actor_seq e)
        then eseq (mark_committed e (revision entry)) (eret (applied, Suc own, touched, highest))
        else
          eseq (log_insert e (revision entry))
          (eseq (audit cf (actor_id e) (rstrip_s (collection e) @ lit ''.sync'') (lit ''sync'')
                   (ref_str (collection e) (entity_id e)) (payload e))
             (eret (Suc applied, own, add_touched e touched, highest)))))"

definition pull :: "'b config \<Rightarrow> pystr option \<Rightarrow> ('b, pull_result) act" where
  "pull cf c =
     ebind (negotiate_session cf) (\<lambda>_. session (
       ebind (cursor cf (collection_key c)) (\<lambda>since.
       ebind (call (pt_pull (cf_port cf) c since)) (\<lambda>batch.
       ebind (efold (ingest_entry cf) batch (0, 0, [], since)) (\<lambda>(applied, own, touched, highest).
       eseq (refold_all cf touched)
       (eseq (ack_cursor cf (collection_key c) highest)
         (eret \<lparr>pl_received = length batch, pl_applied = applied, pl_own_reconciled = own, pl_cursor = highest\<rparr>)))))))"

definition apply_inbox :: "'b config \<Rightarrow> pystr option \<Rightarrow> ('b, pull_result) act" where
  "apply_inbox cf c = pull cf c"

end
