(* ===== verification/Outbox.thy ===== *)
theory Outbox
  imports Engine
begin

text \<open>
  The durable outbox and conflict resolution (the rest of \<open>sync_engine/engine.py\<close>): draining
  through the atomic commit, bouncing stale agent proposals, minting conflict records, the
  bounded retry loop and the compare-and-swap resolution.  The drain loop goes round once per
  rejected event, so it takes fuel; one more than the number of pending rows is enough when
  the backend only rejects events it was given.
\<close>

section \<open>What is pushed\<close>

definition pushable_rows :: "'b config \<Rightarrow> log \<Rightarrow> log_row list" where
  "pushable_rows cf l =
     (if \<not> cf_bound cf then pending_rows l else filter (\<lambda>r. actor_id r = cf_actor cf) (pending_rows l))"

definition withheld_rows :: "'b config \<Rightarrow> log \<Rightarrow> log_row list" where
  "withheld_rows cf l =
     (if \<not> cf_bound cf then [] else filter (\<lambda>r. actor_id r \<noteq> cf_actor cf) (pending_rows l))"

section \<open>Rejection and dropped acknowledgements\<close>

definition reject :: "'b config \<Rightarrow> event \<Rightarrow> pystr \<Rightarrow> pystr \<Rightarrow> ('b, unit) act" where
  "reject cf e code prose =
     ebind (db_get rp_log) (\<lambda>l.
     case event_row l (actor_id e) (actor_seq e) of
       None \<Rightarrow> eret ()
     | Some r \<Rightarrow>
         eseq (set_state Rejected r)
         (eseq (refold cf (collection e) (entity_id e))
         (audit cf (actor_id e) (take 64 (rstrip_s (collection e) @ lit ''.sync_rejected'')) (lit ''sync'')
            (ref_str (collection e) (entity_id e))
            [(lit ''code'', PStr code), (lit ''reason'', PStr prose), (lit ''event_id'', PStr (event_id e))])))"

definition backfill_entry ::
    "'b config \<Rightarrow> committed_event \<Rightarrow> nat \<times> (pystr \<times> pystr) list \<Rightarrow> ('b, nat \<times> (pystr \<times> pystr) list) act" where
  "backfill_entry cf entry acc =
     (let (backfilled, touched) = acc; e = cevent entry in
      if actor_id e \<noteq> cf_actor cf then eret acc
      else
        ebind (db_get (\<lambda>d. event_row (rp_log d) (actor_id e) (actor_seq e))) (\<lambda>found.
        case found of
          None \<Rightarrow> eret acc
        | Some r \<Rightarrow>
            if committed_rev r = None
              then eseq (mark_committed e (revision entry)) (eret (Suc backfilled, add_touched e touched))
              else eret acc))"

definition reconcile_dropped_acks :: "'b config \<Rightarrow> ('b, nat) act" where
  "reconcile_dropped_acks cf =
     ebind (cursor cf ALL_COLLECTIONS) (\<lambda>since.
     ebind (call (pt_pull (cf_port cf) None since)) (\<lambda>batch.
     ebind (efold (backfill_entry cf) batch (0, [])) (\<lambda>(backfilled, touched).
     eseq (refold_all cf touched) (eret backfilled))))"

section \<open>Authoritative writes\<close>

definition sign_if :: "'b config \<Rightarrow> event \<Rightarrow> ('b, event) act" where
  "sign_if cf e =
     (case cf_signer cf of None \<Rightarrow> eret e | Some k \<Rightarrow> elift EProtocol (sign (cf_ed cf) e (signer_key k)))"

definition signed_event ::
    "'b config \<Rightarrow> pystr \<Rightarrow> pystr \<Rightarrow> payload \<Rightarrow> int option \<Rightarrow> int \<Rightarrow> ('b, event) act" where
  "signed_event cf c e p base n =
     ebind (fresh cf) (\<lambda>v. sign_if cf
       \<lparr>event_id = env_id v, collection = c, entity_id = e, actor_id = cf_actor cf, actor_seq = n, op = op_patch,
        base_rev = base, policy_ref = map_option signer_policy (cf_signer cf), payload = p, sig = None\<rparr>)"

definition insert_if_absent :: "event \<Rightarrow> int \<Rightarrow> ('b, unit) act" where
  "insert_if_absent e n =
     ebind (db_get rp_log) (\<lambda>l. if event_by_id l (event_id e) = None then log_insert e n else eret ())"

definition cell_val :: "cell \<Rightarrow> pyval" where
  "cell_val c = (case c of Cell v \<Rightarrow> v | Time _ \<Rightarrow> POther)"

definition bounce_audit :: "event \<Rightarrow> bool \<Rightarrow> row option \<Rightarrow> payload" where
  "bounce_audit e reverted proposal =
     [(lit ''ticket_id'', case proposal of None \<Rightarrow> PNone | Some r \<Rightarrow> cell_val (cell_of r (lit ''ticket_id''))),
      (lit ''collection'', PStr (collection e)), (lit ''entity_id'', PStr (entity_id e)),
      (lit ''fields'', PList (map PStr (sort (dkeys (payload e))))),
      (lit ''applied'', PBool (\<not> reverted))]"

definition take_out :: "'b config \<Rightarrow> event \<Rightarrow> ('b, unit) act" where
  "take_out cf e =
     ebind (db_get rp_log) (\<lambda>l.
     case event_row l (actor_id e) (actor_seq e) of
       None \<Rightarrow> eret ()
     | Some r \<Rightarrow> eseq (set_state RebaseRequiredState r) (refold cf (collection e) (entity_id e)))"

definition bounce_flip :: "'b config \<Rightarrow> event \<Rightarrow> pystr \<Rightarrow> bool \<Rightarrow> ('b, unit) act" where
  "bounce_flip cf e pid reverted =
     ebind (db_get rp_log) (\<lambda>l.
      ebind (signed_event cf (lit ''agent_proposals'') pid [(lit ''status'', PStr (lit ''rebase_required''))]
               (entity_base_rev l (lit ''agent_proposals'') pid) (next_actor_seq l (cf_actor cf))) (\<lambda>flip.
      ebind (call (pt_commit (cf_port cf) False [flip])) (\<lambda>rs.
      eseq (efor (\<lambda>r. insert_if_absent flip (cr_revision r)) rs)
      (eseq (refold cf (lit ''agent_proposals'') pid)
      (ebind (db_get (\<lambda>d. get_row (rp_tables d) AgentProposal pid)) (\<lambda>proposal.
       audit cf (cf_actor cf) (lit ''proposal.rebase_required'') (lit ''sync'')
         (ref_str (lit ''agent_proposals'') pid) (bounce_audit e reverted proposal)))))))"

definition bounce_proposal :: "'b config \<Rightarrow> event \<Rightarrow> pystr \<Rightarrow> bool \<Rightarrow> ('b, unit) act" where
  "bounce_proposal cf e pid reverted =
     eseq (if reverted then take_out cf e else eret ()) (bounce_flip cf e pid reverted)"

definition commit_proposal_write :: "'b config \<Rightarrow> log_row \<Rightarrow> pystr \<Rightarrow> pystr \<Rightarrow> ('b, nat) act" where
  "commit_proposal_write cf row pid policy =
     (let e = row_to_event row in
      ebind (etry (call (pt_commit (cf_port cf) True [e]))) (\<lambda>res.
      case res of
        Inl x \<Rightarrow>
          (case x of
             EPort (PortRebase _ _) \<Rightarrow> eseq (bounce_proposal cf e pid True) (eret 1)
           | _ \<Rightarrow> eraise x)
      | Inr rs \<Rightarrow>
          efold (\<lambda>r bounced.
            if bounced = 1 then eret bounced
            else eseq (mark_committed_by_id (cr_event_id r) (cr_revision r))
              (if policy = PROPOSAL_POLICY_STRICT_REBASE \<and> is_stale r
                 then eseq (bounce_proposal cf e pid False) (eret 1) else eret 0)) rs 0))"

section \<open>Conflict records\<close>

definition conflict_payload :: "pystr \<Rightarrow> log_row \<Rightarrow> commit_result \<Rightarrow> field_conflict \<Rightarrow> int list \<Rightarrow> payload" where
  "conflict_payload ws contended r fc revs =
     [(lit ''workspace_id'', PStr ws), (lit ''collection'', PStr (collection contended)),
      (lit ''entity_id'', PStr (entity_id contended)), (lit ''field'', PStr (fc_field fc)),
      (lit ''contending_revisions'', PList (map PInt revs)),
      (lit ''candidate_values'', PDict [(PStr (lit ''keep_a''), fc_head_value fc),
                                        (PStr (lit ''keep_b''), fc_incoming_value fc)]),
      (lit ''base_rev'', PInt (case cr_base_rev r of None \<Rightarrow> 0 | Some b \<Rightarrow> b)),
      (lit ''head_rev'', PInt (cr_revision r)), (lit ''actor'', PStr (actor_id contended)),
      (lit ''status'', PStr (lit ''open''))]"

definition mint_one ::
    "'b config \<Rightarrow> pystr \<Rightarrow> log_row \<Rightarrow> commit_result \<Rightarrow> field_conflict \<Rightarrow> nat \<Rightarrow> ('b, nat) act" where
  "mint_one cf ws contended r fc minted =
     (let revs = sort [cr_revision r, fc_contending fc] in
      ebind (elift EMerge (conflict_record_id (cf_D cf) (entity_id contended) (fc_field fc) revs)) (\<lambda>cid.
      ebind (fresh cf) (\<lambda>v.
      ebind (db_get (\<lambda>d. next_actor_seq (rp_log d) (cf_actor cf))) (\<lambda>n.
      ebind (sign_if cf \<lparr>event_id = env_id v, collection = lit ''conflict_records'', entity_id = cid,
          actor_id = cf_actor cf, actor_seq = n, op = op_patch, base_rev = None,
          policy_ref = map_option signer_policy (cf_signer cf),
          payload = conflict_payload ws contended r fc revs, sig = None\<rparr>) (\<lambda>e.
      ebind (call (pt_commit (cf_port cf) False [e])) (\<lambda>rs.
      eseq (efor (\<lambda>c. eseq (insert_if_absent e (cr_revision c)) (refold cf (lit ''conflict_records'') cid)) rs)
      (eseq (if cf_notify cf then emod (\<lambda>s. s\<lparr>en_notified := en_notified s @ [(cid, entity_id contended)]\<rparr>) else eret ())
        (eret (Suc minted)))))))))"

definition mint_conflict_records :: "'b config \<Rightarrow> commit_result \<Rightarrow> ('b, nat) act" where
  "mint_conflict_records cf r =
     (case cf_workspace cf of
        None \<Rightarrow> eret 0
      | Some ws \<Rightarrow>
          ebind (db_get (\<lambda>d. event_by_id (rp_log d) (cr_event_id r))) (\<lambda>found.
          case found of
            None \<Rightarrow> eret 0
          | Some contended \<Rightarrow> efold (mint_one cf ws contended r) (cr_conflicts r) 0))"

section \<open>Draining\<close>

definition count_result :: "'b config \<Rightarrow> commit_result \<Rightarrow> counts \<Rightarrow> ('b, counts) act" where
  "count_result cf r c =
     eseq (mark_committed_by_id (cr_event_id r) (cr_revision r))
     (let c1 = (if cr_status r = Committed_now then c\<lparr>ct_committed := ct_committed c + 1\<rparr> else c);
          c2 = (if cr_stale_base_rev r \<noteq> None then c1\<lparr>ct_stale := ct_stale c1 + 1\<rparr> else c1) in
      if cr_conflicts r = [] then eret c2
      else ebind (mint_conflict_records cf r) (\<lambda>n. eret (c2\<lparr>ct_minted := ct_minted c2 + n\<rparr>)))"

text \<open>The ordinary batch: \<open>Inl\<close> when an event of it was rejected and the loop continues.\<close>

definition commit_ordinary :: "'b config \<Rightarrow> log_row list \<Rightarrow> counts \<Rightarrow> ('b, counts + counts) act" where
  "commit_ordinary cf ordinary c =
     (if ordinary = [] then eret (Inr c)
      else
        ebind (etry (call (pt_commit (cf_port cf) False (map row_to_event ordinary)))) (\<lambda>res.
        case res of
          Inl x \<Rightarrow>
            (case x of
               EPort (PortRejected e code prose) \<Rightarrow>
                 eseq (reject cf e code prose) (eret (Inl (c\<lparr>ct_rejected := ct_rejected c + 1\<rparr>)))
             | _ \<Rightarrow> eraise x)
        | Inr rs \<Rightarrow>
            ebind (efold (count_result cf) rs (c\<lparr>ct_submitted := ct_submitted c + length ordinary\<rparr>))
              (\<lambda>c. eret (Inr c))))"

definition commit_proposals :: "'b config \<Rightarrow> pystr \<Rightarrow> log_row list \<Rightarrow> counts \<Rightarrow> ('b, counts) act" where
  "commit_proposals cf policy rows c =
     efold (\<lambda>row c.
       (case origin_proposal_id row of
          None \<Rightarrow> eraise EValueError
        | Some pid \<Rightarrow>
            ebind (commit_proposal_write cf row pid policy) (\<lambda>n.
            eret (c\<lparr>ct_submitted := ct_submitted c + 1, ct_rebased := ct_rebased c + n\<rparr>)))) rows c"

fun drain :: "'b config \<Rightarrow> pystr \<Rightarrow> nat \<Rightarrow> counts \<Rightarrow> ('b, counts) act" where
  "drain cf policy 0 c = eraise EFuel"
| "drain cf policy (Suc n) c =
     ebind (db_get (\<lambda>d. pushable_rows cf (rp_log d))) (\<lambda>pending.
     if pending = [] then eret c
     else
       ebind (commit_ordinary cf (filter (\<lambda>r. origin_proposal_id r = None) pending) c) (\<lambda>step.
       case step of
         Inl c \<Rightarrow> drain cf policy n c
       | Inr c \<Rightarrow> commit_proposals cf policy (filter (\<lambda>r. origin_proposal_id r \<noteq> None) pending) c))"

definition no_counts :: counts where
  "no_counts = \<lparr>ct_submitted = 0, ct_committed = 0, ct_rejected = 0, ct_stale = 0, ct_minted = 0, ct_rebased = 0\<rparr>"

section \<open>The retry loop\<close>

definition flush_attempt :: "'b config \<Rightarrow> pystr \<Rightarrow> int \<Rightarrow> ('b, flush_result) act" where
  "flush_attempt cf policy attempts = session (
     ebind (reconcile_dropped_acks cf) (\<lambda>reconciled.
     ebind (db_get (\<lambda>d. Suc (length (pending_rows (rp_log d))))) (\<lambda>fuel.
     ebind (drain cf policy fuel no_counts) (\<lambda>c.
     db_get (\<lambda>d. \<lparr>fl_counts = c, fl_reconciled = reconciled, fl_attempts = attempts,
       fl_drained = (pushable_rows cf (rp_log d) = []), fl_withheld = length (withheld_rows cf (rp_log d))\<rparr>)))))"

definition give_up :: "'b config \<Rightarrow> int \<Rightarrow> ('b, flush_result) act" where
  "give_up cf attempts =
     db_get (\<lambda>d. \<lparr>fl_counts = no_counts, fl_reconciled = 0, fl_attempts = attempts,
       fl_drained = (pushable_rows cf (rp_log d) = []), fl_withheld = length (withheld_rows cf (rp_log d))\<rparr>)"

function flush_loop :: "'b config \<Rightarrow> pystr \<Rightarrow> backoff \<Rightarrow> int \<Rightarrow> ('b, flush_result) act" where
  "flush_loop cf policy b done s =
     (case flush_attempt cf policy (done + 1) s of
        (Inr r, s') \<Rightarrow> (Inr r, s')
      | (Inl e, s') \<Rightarrow>
          if e \<noteq> EPort PortUnavailable then (Inl e, s')
          else if bo_max_attempts b \<le> done + 1 then give_up cf (done + 1) s'
          else flush_loop cf policy b (done + 1) (s'\<lparr>en_slept := en_slept s' @ [delay b (done + 1)]\<rparr>))"
  by pat_completeness auto
termination
  by (relation "measure (\<lambda>(cf, policy, b, n, s). nat (bo_max_attempts b - n))") auto

declare flush_loop.simps [simp del]

definition flush_outbox :: "'b config \<Rightarrow> backoff \<Rightarrow> pystr \<Rightarrow> ('b, flush_result) act" where
  "flush_outbox cf b policy =
     (if policy \<notin> set PROPOSAL_STALE_POLICIES then eraise EValueError
      else ebind (negotiate_session cf) (\<lambda>_. flush_loop cf policy b 0))"

section \<open>Resolution\<close>

definition resolve_choices :: "pystr list" where
  "resolve_choices = [lit ''keep-A'', lit ''keep-B'', lit ''new-value'']"

text \<open>The record's columns, by their declared types.\<close>

definition str_cell :: "row \<Rightarrow> string \<Rightarrow> engine_error + pystr" where
  "str_cell r f = (case cell_of r (lit f) of Cell (PStr s) \<Rightarrow> Inr s | _ \<Rightarrow> Inl ETypeError)"

definition int_cell :: "row \<Rightarrow> string \<Rightarrow> engine_error + int" where
  "int_cell r f = (case cell_of r (lit f) of Cell (PInt n) \<Rightarrow> Inr n | _ \<Rightarrow> Inl ETypeError)"

definition dict_cell :: "row \<Rightarrow> string \<Rightarrow> engine_error + (pyval \<times> pyval) list" where
  "dict_cell r f = (case cell_of r (lit f) of Cell (PDict d) \<Rightarrow> Inr d | _ \<Rightarrow> Inl ETypeError)"

definition get_or_none :: "(pyval \<times> pyval) list \<Rightarrow> string \<Rightarrow> pyval" where
  "get_or_none d k = (case dget d (PStr (lit k)) of None \<Rightarrow> PNone | Some v \<Rightarrow> v)"

definition resolved_value :: "row \<Rightarrow> pystr \<Rightarrow> pyval \<Rightarrow> engine_error + pyval" where
  "resolved_value r choice new_value =
     (if choice = lit ''keep-A'' then rbind (dict_cell r ''candidate_values'') (\<lambda>d. Inr (get_or_none d ''keep_a''))
      else if choice = lit ''keep-B'' then rbind (dict_cell r ''candidate_values'') (\<lambda>d. Inr (get_or_none d ''keep_b''))
      else Inr new_value)"

definition resolution_payload :: "pystr \<Rightarrow> pystr \<Rightarrow> pystr \<Rightarrow> payload" where
  "resolution_payload by choice stamp =
     [(lit ''status'', PStr (lit ''resolved'')), (lit ''resolved_by'', PStr by),
      (lit ''resolved_choice'', PStr choice), (lit ''resolved_at'', PStr stamp)]"

definition apply_resolution :: "'b config \<Rightarrow> commit_result list \<Rightarrow> event \<Rightarrow> ('b, unit) act" where
  "apply_resolution cf committed e =
     (case List.find (\<lambda>r. cr_event_id r = event_id e) (List.rev committed) of
        None \<Rightarrow> eret ()
      | Some r \<Rightarrow> eseq (insert_if_absent e (cr_revision r)) (refold cf (collection e) (entity_id e)))"

text \<open>\<open>by\<close> is the resolver or the actor, \<open>stamp\<close> the ISO form of the present.\<close>

definition resolve_record ::
    "'b config \<Rightarrow> pystr \<Rightarrow> row \<Rightarrow> pystr \<Rightarrow> pyval \<Rightarrow> pystr \<Rightarrow> pystr \<Rightarrow> ('b, resolve_result) act" where
  "resolve_record cf cid r choice new_value resolver stamp =
     ebind (elift id (resolved_value r choice new_value)) (\<lambda>value.
     ebind (db_get (\<lambda>d. next_actor_seq (rp_log d) (cf_actor cf))) (\<lambda>n.
     ebind (elift id (str_cell r ''collection'')) (\<lambda>c.
     ebind (elift id (str_cell r ''entity_id'')) (\<lambda>eid.
     ebind (elift id (str_cell r ''field'')) (\<lambda>fld.
     ebind (elift id (int_cell r ''head_rev'')) (\<lambda>head.
     ebind (signed_event cf c eid [(fld, value)] (Some head) n) (\<lambda>field_event.
     ebind (signed_event cf (lit ''conflict_records'') cid (resolution_payload resolver choice stamp) None (n + 1)) (\<lambda>flip_event.
     ebind (etry (call (pt_commit (cf_port cf) True [field_event, flip_event]))) (\<lambda>res.
     case res of
       Inl x \<Rightarrow>
         (case x of
            EPort (PortRebase _ _) \<Rightarrow> eret \<lparr>rr_conflict_id = cid, rr_resolved = False, rr_rebase_required = True\<rparr>
          | _ \<Rightarrow> eraise x)
     | Inr committed \<Rightarrow>
         eseq (efor (apply_resolution cf committed) [field_event, flip_event])
         (eseq (audit cf resolver (lit ''conflict.resolved'') (lit ''app'') (ref_str (lit ''conflict_records'') cid)
            [(lit ''collection'', PStr c), (lit ''entity_id'', PStr eid), (lit ''field'', PStr fld),
             (lit ''choice'', PStr choice), (lit ''resolved_value'', value)])
           (eret \<lparr>rr_conflict_id = cid, rr_resolved = True, rr_rebase_required = False\<rparr>)))))))))))"

definition resolve_conflict ::
    "'b config \<Rightarrow> pystr \<Rightarrow> pystr \<Rightarrow> pyval \<Rightarrow> pystr option \<Rightarrow> pystr \<Rightarrow> ('b, resolve_result) act" where
  "resolve_conflict cf cid choice new_value resolved_by stamp =
     (if choice \<notin> set resolve_choices then eraise EValueError
      else
        let resolver = (case resolved_by of None \<Rightarrow> cf_actor cf | Some s \<Rightarrow> if s = [] then cf_actor cf else s) in
        session (
          ebind (db_get (\<lambda>d. get_row (rp_tables d) ConflictRecord cid)) (\<lambda>found.
          case found of
            None \<Rightarrow> eraise EKeyError
          | Some r \<Rightarrow>
              if cell_of r (lit ''status'') = Cell (PStr (lit ''resolved''))
                then eret \<lparr>rr_conflict_id = cid, rr_resolved = True, rr_rebase_required = False\<rparr>
                else resolve_record cf cid r choice new_value resolver stamp)))"

end
