(* ===== verification/Steps.thy ===== *)
theory Steps
  imports Outbox
begin

text \<open>
  What every operation of the engine has in common.  A relation between the states before and
  after that holds for each primitive change (one row marked, one row inserted, a backend call, a
  rolled back session, ...) holds for every operation, however it ends.  The locale
  \<open>engine_steps\<close> says what the primitives are and proves the operations once; the growth of a
  replica, the cursors that stay and the history that extends are instances.
\<close>

definition put_log :: "log \<Rightarrow> 'b engine \<Rightarrow> 'b engine" where
  "put_log l s = s\<lparr>en_db := (en_db s)\<lparr>rp_log := l\<rparr>\<rparr>"

lemma put_log_simps [simp]:
  "rp_log (en_db (put_log l s)) = l" "rp_tables (en_db (put_log l s)) = rp_tables (en_db s)"
  "rp_cursors (en_db (put_log l s)) = rp_cursors (en_db s)" "rp_trail (en_db (put_log l s)) = rp_trail (en_db s)"
  "en_backend (put_log l s) = en_backend s" "en_session (put_log l s) = en_session s"
  "en_notified (put_log l s) = en_notified s" "en_slept (put_log l s) = en_slept s"
  "en_fresh (put_log l s) = en_fresh s"
  by (simp_all add: put_log_def)

lemma event_row_Some: "event_row l a n = Some r \<Longrightarrow> r \<in> set l \<and> actor_id r = a \<and> actor_seq r = n"
  by (auto simp: event_row_def find_Some_iff)

lemma event_by_id_Some: "event_by_id l i = Some r \<Longrightarrow> r \<in> set l \<and> event_id r = i"
  by (auto simp: event_by_id_def find_Some_iff)

text \<open>The retry loop keeps what one attempt and one sleep keep.\<close>

lemma flush_loop_keeps:
  assumes a: "\<And>k. keeps P (flush_attempt cf policy k)" and sl: "\<And>s ds. P s \<Longrightarrow> P (s\<lparr>en_slept := ds\<rparr>)"
  shows "keeps P (flush_loop cf policy b n)"
proof (rule keepsI)
  fix s r s' assume "P s" "flush_loop cf policy b n s = (r, s')"
  then show "P s'" using a
  proof (induction cf policy b n s arbitrary: r s' rule: flush_loop.induct)
    case (1 cf policy b n s)
    obtain q t where at: "flush_attempt cf policy (n + 1) s = (q, t)" by (cases "flush_attempt cf policy (n + 1) s")
    have t: "P t" using keepsD [OF "1.prems"(3) at "1.prems"(1)] .
    note run = "1.prems"(2) [unfolded flush_loop.simps [of cf policy b n s] at]
    show ?case
    proof (cases q)
      case (Inl e)
      with "1.IH" [OF at [symmetric] Inl _ _ sl [OF t] _ "1.prems"(3)] run t show ?thesis
        by (auto simp: give_up_def db_get_def eget_def split: if_splits)
    qed (use run t in simp)
  qed
qed

locale engine_steps = progress R for R :: "'b engine \<Rightarrow> 'b engine \<Rightarrow> bool" +
  assumes R_fresh: "R s (s\<lparr>en_fresh := Suc (en_fresh s)\<rparr>)"
    and R_backend: "R s (s\<lparr>en_backend := b\<rparr>)"
    and R_session: "R s (s\<lparr>en_session := m\<rparr>)"
    and R_notified: "R s (s\<lparr>en_notified := ns\<rparr>)"
    and R_slept: "R s (s\<lparr>en_slept := ds\<rparr>)"
    and R_tables: "R s (s\<lparr>en_db := (en_db s)\<lparr>rp_tables := ts\<rparr>\<rparr>)"
    and R_trail: "R s (s\<lparr>en_db := (en_db s)\<lparr>rp_trail := rp_trail (en_db s) @ rs\<rparr>\<rparr>)"
    and R_insert: "insert_event e (Some k) None (rp_log (en_db s)) = Inr l \<Longrightarrow> R s (put_log l s)"
    and R_mark: "r \<in> set (rp_log (en_db s)) \<Longrightarrow> R s (put_log (mark_found k (Some r) (rp_log (en_db s))) s)"
    and R_state: "st \<noteq> Pending \<Longrightarrow>
      R s (put_log (update_row i (\<lambda>r. r\<lparr>row_state := st\<rparr>) (rp_log (en_db s))) s)"
    and R_rollback: "R s t \<Longrightarrow> R s (t\<lparr>en_db := en_db s\<rparr>)"
begin

lemma steps_get [moves_intros]: "moves R (db_get f)"
  unfolding db_get_def by (rule moves_eget)

lemma steps_fresh [moves_intros]: "moves R (fresh cf)"
  by (simp add: moves_def fresh_def R_fresh)

lemma steps_call [moves_intros]: "moves R (call f)"
  by (simp add: moves_def call_def R_backend split: prod.splits sum.splits)

lemma steps_remember [moves_intros]: "moves R (remember p)"
  by (simp add: moves_def remember_def R_session)

lemma steps_notify [moves_intros]: "moves R (emod (\<lambda>s. s\<lparr>en_notified := f s\<rparr>))"
  by (simp add: moves_def emod_def R_notified)

lemma steps_session [moves_intros]: "moves R m \<Longrightarrow> moves R (session m)"
  unfolding session_def
  by (rule movesI) (auto simp: etrans_def split: prod.splits sum.splits dest: movesD intro: R_rollback)

lemma steps_mark_found:
  "(\<And>r. found = Some r \<Longrightarrow> r \<in> set (rp_log (en_db s))) \<Longrightarrow> R s (put_log (mark_found n found (rp_log (en_db s))) s)"
  using R_mark R_tables [of s "rp_tables (en_db s)"]
  by (cases found) (simp_all add: mark_found_def put_log_def R_refl)

lemma steps_mark [moves_intros]: "moves R (mark_committed e n)" "moves R (mark_committed_by_id i n)"
  using steps_mark_found event_row_Some event_by_id_Some
  by (simp_all add: moves_def mark_committed_def mark_committed_by_id_def ebind_def db_get_def eget_def set_log_def
      db_mod_def emod_def put_log_def)

lemma steps_set_state [moves_intros]: "st \<noteq> Pending \<Longrightarrow> moves R (set_state st r)"
  using R_state
  by (simp add: moves_def set_state_def ebind_def db_get_def eget_def set_log_def db_mod_def emod_def put_log_def)

lemma steps_log_insert [moves_intros]: "moves R (log_insert e n)"
  using R_insert
  by (auto simp: moves_def log_insert_def ebind_def db_get_def eget_def elift_def set_log_def db_mod_def emod_def
      put_log_def R_refl split: sum.splits)

lemma steps_audit [moves_intros]: "moves R (audit cf a act src obj after)"
proof (rule movesI)
  fix s r s' assume run: "audit cf a act src obj after s = (r, s')"
  let ?t = "s\<lparr>en_fresh := Suc (en_fresh s)\<rparr>"
  from run consider "s' = ?t"
    | row t where "audit_write (cf_H cf) (cf_env cf (en_fresh s)) a act src (Some obj) None (Some after)
        (rp_trail (en_db s)) = Inr (row, t)" "s' = ?t\<lparr>en_db := (en_db s)\<lparr>rp_trail := t\<rparr>\<rparr>"
    by (auto simp: audit_def ebind_def fresh_def db_get_def eget_def elift_def db_mod_def emod_def
        split: sum.splits prod.splits)
  then show "R s s'"
  proof cases
    case 1
    then show ?thesis by (simp add: R_fresh)
  next
    case (2 row t)
    from audit_write_Inr(1) [OF 2(1)] R_trail [of ?t "[row]"] have "R ?t s'" by (simp add: 2(2))
    with R_fresh show ?thesis by (rule R_trans)
  qed
qed

lemma steps_refold [moves_intros]: "moves R (refold cf c e)"
proof -
  have "moves R (db_mod (\<lambda>d. d\<lparr>rp_tables := ts\<rparr>))" for ts
    by (simp add: moves_def db_mod_def emod_def R_tables)
  then show ?thesis unfolding refold_def by (intro moves_intros)
qed

lemma steps_refold_all [moves_intros]: "moves R (refold_all cf touched)"
  unfolding refold_all_def by (intro moves_intros)

lemma steps_cursor [moves_intros]: "moves R (cursor cf k)"
  unfolding cursor_def by (rule moves_intros)

lemma steps_negotiate [moves_intros]: "moves R (negotiate_session cf)"
  unfolding negotiate_session_def audit_version_reject_def by (intro moves_intros)

lemma steps_push: "moves R (Engine.push cf)"
  unfolding Engine.push_def by (intro moves_intros)

lemma steps_ingest_entry [moves_intros]: "moves R (ingest_entry cf ce acc)"
  unfolding ingest_entry_def by (intro moves_intros)

lemma steps_sign_if [moves_intros]: "moves R (sign_if cf e)"
  unfolding sign_if_def by (intro moves_intros)

lemma steps_signed_event [moves_intros]: "moves R (signed_event cf c e p base n)"
  unfolding signed_event_def by (intro moves_intros)

lemma steps_insert_if_absent [moves_intros]: "moves R (insert_if_absent e n)"
  unfolding insert_if_absent_def by (intro moves_intros)

lemma steps_reject [moves_intros]: "moves R (reject cf e code prose)"
  unfolding reject_def by (intro moves_intros) simp_all

lemma steps_take_out [moves_intros]: "moves R (take_out cf e)"
  unfolding take_out_def by (intro moves_intros) simp_all

lemma steps_bounce_flip [moves_intros]: "moves R (bounce_flip cf e pid reverted)"
  unfolding bounce_flip_def by (intro moves_intros)

lemma steps_bounce [moves_intros]: "moves R (bounce_proposal cf e pid reverted)"
  unfolding bounce_proposal_def by (intro moves_intros)

lemma steps_mint [moves_intros]: "moves R (mint_conflict_records cf r)"
  unfolding mint_conflict_records_def mint_one_def Let_def by (intro moves_intros)

lemma steps_commit_proposal [moves_intros]: "moves R (commit_proposal_write cf row pid policy)"
  unfolding commit_proposal_write_def Let_def
  by (intro moves_intros) (auto split: engine_error.split port_error.split intro!: moves_intros)

lemma steps_count_result [moves_intros]: "moves R (count_result cf r c)"
  unfolding count_result_def by (intro moves_intros)

lemma steps_commit_ordinary [moves_intros]: "moves R (commit_ordinary cf ordinary c)"
  unfolding commit_ordinary_def
  by (intro moves_intros) (auto split: engine_error.split port_error.split intro!: moves_intros)

lemma steps_drain [moves_intros]: "moves R (drain cf policy n c)"
proof (induction n arbitrary: c)
  case (Suc n)
  show ?case unfolding drain.simps commit_proposals_def by (intro moves_intros Suc.IH)
qed (simp add: moves_intros)

lemma steps_reconcile [moves_intros]: "moves R (reconcile_dropped_acks cf)"
  unfolding reconcile_dropped_acks_def backfill_entry_def Let_def by (intro moves_intros)

lemma steps_flush_attempt: "moves R (flush_attempt cf policy n)"
  unfolding flush_attempt_def by (intro moves_intros)

lemma steps_flush_loop: "moves R (flush_loop cf policy b n)"
proof (rule movesI)
  fix s r s' assume run: "flush_loop cf policy b n s = (r, s')"
  have "keeps (R s) (flush_attempt cf policy k)" for k
    by (rule keepsI) (blast intro: R_trans movesD [OF steps_flush_attempt])
  from keepsD [OF flush_loop_keeps [OF this] run R_refl] show "R s s'" using R_trans [OF _ R_slept] by blast
qed

lemma steps_flush_outbox: "moves R (flush_outbox cf b policy)"
  unfolding flush_outbox_def by (intro moves_intros steps_flush_loop)

lemma steps_resolve: "moves R (resolve_conflict cf cid choice v by stamp)"
  unfolding resolve_conflict_def resolve_record_def apply_resolution_def Let_def
  by (intro moves_intros) (auto split: engine_error.split port_error.split intro!: moves_intros)

end

text \<open>A pull and an explicit ack also move a cursor, never backwards.\<close>

locale reader_steps = engine_steps R for R :: "'b engine \<Rightarrow> 'b engine \<Rightarrow> bool" +
  assumes R_ack: "ack_cursor cf k n s = (r, s') \<Longrightarrow> R s s'"
begin

lemma steps_ack_cursor [moves_intros]: "moves R (ack_cursor cf k n)"
  by (rule movesI) (rule R_ack)

lemma steps_pull: "moves R (Engine.pull cf c)"
  unfolding Engine.pull_def by (intro moves_intros)

lemma steps_ack: "moves R (ack cf n c)"
  unfolding ack_def by (intro moves_intros)

end

end
