(* ===== verification/Synced.thy ===== *)
theory Synced
  imports Steps
begin

text \<open>
  What every operation of the engine preserves.  \<open>db_grows\<close>: the log is append-only, a row's
  event and commit order never change once set and a row that left the outbox never returns;
  cursors and the audit trail only move forward.  \<open>synced\<close>: keys are unique, states agree with
  commit orders, and every commit order the replica recorded is the one the backend's history
  holds for that event.  The second is proved inside \<open>backend_port\<close>, for any backend that
  meets the contract.
\<close>

section \<open>Growth\<close>

definition row_step :: "log_row \<Rightarrow> log_row \<Rightarrow> bool" where
  "row_step r r' \<longleftrightarrow> row_to_event r' = row_to_event r \<and> origin_proposal_id r' = origin_proposal_id r \<and>
     (committed_rev r \<noteq> None \<longrightarrow> committed_rev r' = committed_rev r) \<and>
     (row_state r \<noteq> Pending \<longrightarrow> row_state r' \<noteq> Pending)"

definition log_grows :: "log \<Rightarrow> log \<Rightarrow> bool" where
  "log_grows l l' \<longleftrightarrow> (\<exists>m new. l' = m @ new \<and> list_all2 row_step l m \<and>
     (\<forall>r \<in> set new. row_state r \<noteq> Pending))"

definition cursors_grow :: "('k, int) dict \<Rightarrow> ('k, int) dict \<Rightarrow> bool" where
  "cursors_grow c c' \<longleftrightarrow> (\<forall>k n. dget c k = Some n \<longrightarrow> (\<exists>m \<ge> n. dget c' k = Some m))"

definition db_grows :: "replica \<Rightarrow> replica \<Rightarrow> bool" where
  "db_grows d d' \<longleftrightarrow> log_grows (rp_log d) (rp_log d') \<and> cursors_grow (rp_cursors d) (rp_cursors d') \<and>
     (\<exists>new. rp_trail d' = rp_trail d @ new)"

definition engine_grows :: "'b engine \<Rightarrow> 'b engine \<Rightarrow> bool" where
  "engine_grows s s' \<longleftrightarrow> en_fresh s \<le> en_fresh s' \<and>
     (keyed (rp_log (en_db s)) \<longrightarrow> keyed (rp_log (en_db s')) \<and> db_grows (en_db s) (en_db s'))"

lemma row_step_refl [simp]: "row_step r r"
  by (simp add: row_step_def)

lemma row_step_trans: "row_step r s \<Longrightarrow> row_step s t \<Longrightarrow> row_step r t"
  by (auto simp: row_step_def)

lemma log_grows_refl [simp]: "log_grows l l"
  unfolding log_grows_def by (rule exI [of _ l]) (simp add: list_all2_same)

lemma log_grows_append: "\<forall>r \<in> set new. row_state r \<noteq> Pending \<Longrightarrow> log_grows l (l @ new)"
  unfolding log_grows_def by (intro exI [of _ l] exI [of _ new]) (simp add: list_all2_same)

lemma log_grows_map: "(\<And>r. r \<in> set l \<Longrightarrow> row_step r (f r)) \<Longrightarrow> log_grows l (map f l)"
  unfolding log_grows_def by (intro exI [of _ "map f l"] exI [of _ "[]"]) (simp add: list_all2_map2 list_all2_same)

lemma log_grows_trans:
  assumes "log_grows l m" "log_grows m n"
  shows "log_grows l n"
proof -
  from assms obtain a x b y where l: "m = a @ x" "list_all2 row_step l a" "\<forall>r \<in> set x. row_state r \<noteq> Pending"
    and m: "n = b @ y" "list_all2 row_step m b" "\<forall>r \<in> set y. row_state r \<noteq> Pending"
    by (auto simp: log_grows_def)
  from m(2) obtain c d where b: "b = c @ d" "list_all2 row_step a c" "list_all2 row_step x d"
    by (auto simp: l(1) list_all2_append1)
  from l(2) b(2) have lc: "list_all2 row_step l c" by (rule list_all2_trans [rotated]) (rule row_step_trans)
  have "\<forall>r \<in> set d. row_state r \<noteq> Pending"
    using b(3) l(3) by (induction rule: list_all2_induct) (auto simp: row_step_def)
  with lc m(3) show ?thesis
    unfolding log_grows_def by (intro exI [of _ c] exI [of _ "d @ y"]) (auto simp: m(1) b(1))
qed

text \<open>What growth keeps of one row.\<close>

lemma log_grows_row: "log_grows l l' \<Longrightarrow> r \<in> set l \<Longrightarrow> \<exists>r' \<in> set l'. row_step r r'"
  unfolding log_grows_def by (fastforce simp: list_all2_conv_all_nth in_set_conv_nth)

lemma log_grows_pending:
  "log_grows l l' \<Longrightarrow> r' \<in> set l' \<Longrightarrow> row_state r' = Pending \<Longrightarrow> \<exists>r \<in> set l. row_step r r' \<and> row_state r = Pending"
  unfolding log_grows_def row_step_def by (fastforce simp: list_all2_conv_all_nth in_set_conv_nth)

lemma cursors_grow_refl [simp]: "cursors_grow c c"
  by (simp add: cursors_grow_def)

lemma cursors_grow_trans: "cursors_grow c d \<Longrightarrow> cursors_grow d e \<Longrightarrow> cursors_grow c e"
  unfolding cursors_grow_def by (meson order_trans)

lemma db_grows_refl [simp]: "db_grows d d"
  by (simp add: db_grows_def)

lemma db_grows_trans: "db_grows d e \<Longrightarrow> db_grows e f \<Longrightarrow> db_grows d f"
  by (fastforce simp: db_grows_def intro: log_grows_trans cursors_grow_trans)

lemma engine_grows_refl: "engine_grows s s"
  by (simp add: engine_grows_def)

lemma engine_grows_trans: "engine_grows s t \<Longrightarrow> engine_grows t u \<Longrightarrow> engine_grows s u"
  unfolding engine_grows_def by (metis db_grows_trans order_trans)

lemma row_to_event_simps [simp]:
  "row_to_event (r\<lparr>row_state := st\<rparr>) = row_to_event r"
  "row_to_event (r\<lparr>committed_rev := n\<rparr>) = row_to_event r"
  "row_to_event (mark_row k r) = row_to_event r"
  by (simp_all add: row_to_event_def event.defs mark_row_def)

lemma row_to_event_fields [simp]:
  "event_id (row_to_event r) = event_id r" "actor_id (row_to_event r) = actor_id r"
  "actor_seq (row_to_event r) = actor_seq r" "collection (row_to_event r) = collection r"
  "entity_id (row_to_event r) = entity_id r" "dedup_key (row_to_event r) = dedup_key r"
  by (simp_all add: row_to_event_def event.defs dedup_key_def)

lemma update_row_grows: "(\<And>r. r \<in> set l \<Longrightarrow> event_id r = i \<Longrightarrow> row_step r (f r)) \<Longrightarrow> log_grows l (update_row i f l)"
  unfolding update_row_def by (rule log_grows_map) simp

definition coherent :: "log_row \<Rightarrow> bool" where
  "coherent r \<longleftrightarrow> (row_state r = Committed \<longrightarrow> committed_rev r \<noteq> None) \<and> (row_state r = Pending \<longrightarrow> committed_rev r = None)"

definition log_keys :: "log \<Rightarrow> bool" where
  "log_keys l \<longleftrightarrow> keyed l \<and> (\<forall>r \<in> set l. coherent r)"

lemma log_ok_keys: "log_ok l \<Longrightarrow> log_keys l"
  by (auto simp: log_ok_def log_keys_def keyed_def coherent_def)

definition commits_held :: "committed_event list \<Rightarrow> log \<Rightarrow> bool" where
  "commits_held ces l \<longleftrightarrow> (\<forall>r \<in> set l. \<forall>n. committed_rev r = Some n \<longrightarrow> held_at ces (row_to_event r) n)"

lemma commits_held_append: "commits_held ces l \<Longrightarrow> commits_held (ces @ new) l"
  by (auto simp: commits_held_def intro: held_at_append)

text \<open>An update of one row, seen from the invariant.\<close>

lemma keyed_update:
  assumes "keyed l" "\<And>r. r \<in> set l \<Longrightarrow> event_id r = i \<Longrightarrow> row_to_event (f r) = row_to_event r"
  shows "keyed (update_row i f l)"
proof -
  have e: "event_id (f r) = event_id r" "dedup_key (f r) = dedup_key r" if "r \<in> set l" "event_id r = i" for r
    using assms(2) [OF that] by (metis row_to_event_fields(1), metis row_to_event_fields(6))
  then have "map event_id (update_row i f l) = map event_id l" "map dedup_key (update_row i f l) = map dedup_key l"
    by (auto simp: update_row_def)
  with assms(1) show ?thesis unfolding keyed_def by argo
qed

lemma update_row_keys:
  assumes "log_keys l" "\<And>r. r \<in> set l \<Longrightarrow> event_id r = i \<Longrightarrow> row_to_event (f r) = row_to_event r \<and> coherent (f r)"
  shows "log_keys (update_row i f l)"
  using assms keyed_update [of l i f] by (auto simp: log_keys_def update_row_def)

lemma set_update_row: "set (update_row i f l) = (\<lambda>r. if event_id r = i then f r else r) ` set l"
  by (simp add: update_row_def)

lemma update_row_held:
  assumes "commits_held ces l"
    and "\<And>r n. r \<in> set l \<Longrightarrow> event_id r = i \<Longrightarrow> committed_rev (f r) = Some n \<Longrightarrow>
      held_at ces (row_to_event (f r)) n"
  shows "commits_held ces (update_row i f l)"
  using assms by (auto simp: commits_held_def set_update_row)

lemma update_row_events:
  "(\<And>r. r \<in> set l \<Longrightarrow> event_id r = i \<Longrightarrow> row_to_event (f r) = row_to_event r) \<Longrightarrow>
   row_to_event ` set (update_row i f l) = row_to_event ` set l"
  unfolding set_update_row image_image by (rule image_cong) auto

definition log_inv :: "committed_event list \<Rightarrow> log \<Rightarrow> bool" where
  "log_inv ces l \<longleftrightarrow> log_keys l \<and> commits_held ces l"

text \<open>The four ways the engine changes its log.\<close>

lemma log_inv_mark:
  assumes "log_inv ces l" "\<And>r. found = Some r \<Longrightarrow> r \<in> set l \<and> held_at ces (row_to_event r) n"
  shows "log_inv ces (mark_found n found l)" "log_grows l (mark_found n found l)"
    "row_to_event ` set (mark_found n found l) = row_to_event ` set l"
proof -
  have "log_inv ces (mark_found n found l) \<and> log_grows l (mark_found n found l) \<and>
    row_to_event ` set (mark_found n found l) = row_to_event ` set l"
  proof (cases found)
    case None
    with assms(1) show ?thesis by (simp add: mark_found_def)
  next
    case (Some r)
    show ?thesis
    proof (cases "committed_rev r")
      case (Some m)
      with \<open>found = Some r\<close> assms(1) show ?thesis by (simp add: mark_found_def)
    next
      case None
      note r = assms(2) [OF \<open>found = Some r\<close>]
      have one: "s = r" if "s \<in> set l" "event_id s = event_id r" for s
        using keyed_id [of l s r] that r assms(1) by (simp add: log_inv_def log_keys_def)
      have m: "mark_found n found l = update_row (event_id r) (mark_row n) l"
        using \<open>found = Some r\<close> None by (simp add: mark_found_def)
      have "log_keys (update_row (event_id r) (mark_row n) l)"
        using assms(1) by (intro update_row_keys) (auto simp: log_inv_def coherent_def mark_row_def)
      moreover have "commits_held ces (update_row (event_id r) (mark_row n) l)"
        using assms(1) r one by (intro update_row_held) (auto simp: log_inv_def mark_row_def)
      moreover have "log_grows l (update_row (event_id r) (mark_row n) l)"
        using None one by (intro update_row_grows) (force simp: row_step_def mark_row_def)
      moreover have "row_to_event ` set (update_row (event_id r) (mark_row n) l) = row_to_event ` set l"
        by (rule update_row_events) simp
      ultimately show ?thesis by (simp add: m log_inv_def)
    qed
  qed
  then show "log_inv ces (mark_found n found l)" "log_grows l (mark_found n found l)"
    "row_to_event ` set (mark_found n found l) = row_to_event ` set l" by blast+
qed

lemma log_inv_state:
  assumes "log_inv ces l" "st \<in> {Rejected, RebaseRequiredState}"
  shows "log_inv ces (update_row i (\<lambda>r. r\<lparr>row_state := st\<rparr>) l)"
    "row_to_event ` set (update_row i (\<lambda>r. r\<lparr>row_state := st\<rparr>) l) = row_to_event ` set l"
proof -
  have "log_keys (update_row i (\<lambda>r. r\<lparr>row_state := st\<rparr>) l)"
    using assms by (intro update_row_keys) (auto simp: log_inv_def coherent_def)
  moreover have "commits_held ces (update_row i (\<lambda>r. r\<lparr>row_state := st\<rparr>) l)"
    using assms(1) by (intro update_row_held) (auto simp: log_inv_def commits_held_def)
  ultimately show "log_inv ces (update_row i (\<lambda>r. r\<lparr>row_state := st\<rparr>) l)" by (simp add: log_inv_def)
  show "row_to_event ` set (update_row i (\<lambda>r. r\<lparr>row_state := st\<rparr>) l) = row_to_event ` set l"
    by (rule update_row_events) simp
qed

lemma state_grows: "st \<noteq> Pending \<Longrightarrow> log_grows l (update_row i (\<lambda>r. r\<lparr>row_state := st\<rparr>) l)"
  by (rule update_row_grows) (simp add: row_step_def)

lemma log_inv_insert:
  assumes "log_inv ces l" "insert_event e (Some n) None l = Inr l'" "held_at ces e n"
  shows "log_inv ces l'" "row_to_event ` set l' = insert e (row_to_event ` set l)"
  using assms
  by (auto simp: log_inv_def log_keys_def keyed_def coherent_def commits_held_def insert_event_Inr)

lemma insert_grows: "insert_event e (Some n) orig l = Inr l' \<Longrightarrow> log_grows l l'"
  by (auto simp: insert_event_Inr intro!: log_grows_append)

section \<open>Every operation grows\<close>

lemma mark_found_grows:
  assumes "keyed l" "\<And>r. found = Some r \<Longrightarrow> r \<in> set l"
  shows "log_grows l (mark_found n found l)" "keyed (mark_found n found l)"
proof -
  have "log_grows l (mark_found n found l) \<and> keyed (mark_found n found l)"
  proof (cases found)
    case (Some r)
    show ?thesis
    proof (cases "committed_rev r")
      case None
      have one: "s = r" if "s \<in> set l" "event_id s = event_id r" for s
        using keyed_id [OF assms(1) that(1) assms(2) [OF Some] that(2)] .
      have "log_grows l (update_row (event_id r) (mark_row n) l)"
        using None one by (intro update_row_grows) (force simp: row_step_def mark_row_def)
      moreover have "keyed (update_row (event_id r) (mark_row n) l)"
        using assms(1) by (rule keyed_update) simp
      ultimately show ?thesis using None Some by (simp add: mark_found_def)
    qed (simp add: mark_found_def Some assms(1))
  qed (simp add: mark_found_def assms(1))
  then show "log_grows l (mark_found n found l)" "keyed (mark_found n found l)" by blast+
qed

lemma keyed_state: "keyed l \<Longrightarrow> keyed (update_row i (\<lambda>r. r\<lparr>row_state := st\<rparr>) l)"
  by (erule keyed_update) simp

interpretation grow: reader_steps engine_grows
proof unfold_locales
  fix s t u :: "'b engine"
  show "engine_grows s s" by (rule engine_grows_refl)
  show "engine_grows s t \<Longrightarrow> engine_grows t u \<Longrightarrow> engine_grows s u" by (rule engine_grows_trans)
next
  fix s :: "'b engine" and e k l
  assume "insert_event e (Some k) None (rp_log (en_db s)) = Inr l"
  then show "engine_grows s (put_log l s)"
    by (auto simp: engine_grows_def put_log_def db_grows_def insert_event_Inr keyed_def intro!: log_grows_append)
next
  fix s :: "'b engine" and r k
  assume "r \<in> set (rp_log (en_db s))"
  then show "engine_grows s (put_log (mark_found k (Some r) (rp_log (en_db s))) s)"
    using mark_found_grows [of "rp_log (en_db s)" "Some r" k] by (auto simp: engine_grows_def db_grows_def)
next
  fix s s' :: "'b engine" and cf k n r
  assume "ack_cursor cf k n s = (r, s')"
  then show "engine_grows s s'"
    by (auto simp: engine_grows_def ack_cursor_def db_mod_def emod_def db_grows_def cursors_grow_def split: option.splits)
qed (auto simp: engine_grows_def db_grows_def put_log_def keyed_state state_grows)

section \<open>Steps that leave log and backend alone\<close>

definition still :: "'b engine \<Rightarrow> 'b engine \<Rightarrow> bool" where
  "still s s' \<longleftrightarrow> rp_log (en_db s') = rp_log (en_db s) \<and> en_backend s' = en_backend s"

interpretation quiet: progress still
  by unfold_locales (auto simp: still_def)

lemma still_db [moves_intros]: "(\<And>d. rp_log (f d) = rp_log d) \<Longrightarrow> moves still (db_mod f)"
  by (simp add: moves_def db_mod_def emod_def still_def)

lemma still_get [moves_intros]: "moves still (db_get f)"
  unfolding db_get_def by (rule quiet.moves_eget)

lemma still_fresh [moves_intros]: "moves still (fresh cf)"
  by (simp add: moves_def fresh_def still_def)

lemma still_remember [moves_intros]: "moves still (remember p)"
  by (simp add: moves_def remember_def still_def)

lemma still_audit [moves_intros]: "moves still (audit cf a act src obj after)"
  unfolding audit_def by (intro moves_intros) simp

lemma still_refold [moves_intros]: "moves still (refold cf c e)"
  unfolding refold_def by (intro moves_intros) simp

lemma still_refold_all [moves_intros]: "moves still (refold_all cf touched)"
  unfolding refold_all_def by (intro moves_intros)

lemma still_cursor [moves_intros]: "moves still (cursor cf k)"
  unfolding cursor_def by (rule moves_intros)

lemma still_ack_cursor [moves_intros]: "moves still (ack_cursor cf k n)"
  unfolding ack_cursor_def by (intro moves_intros) (simp split: option.splits)

lemma still_sign_if [moves_intros]: "moves still (sign_if cf e)"
  unfolding sign_if_def by (intro moves_intros)

lemma still_signed_event [moves_intros]: "moves still (signed_event cf c e p base n)"
  unfolding signed_event_def by (intro moves_intros)

lemma still_notify [moves_intros]: "moves still (emod (\<lambda>s. s\<lparr>en_notified := f s\<rparr>))"
  by (simp add: moves_def emod_def still_def)

section \<open>Agreement with the backend\<close>

text \<open>\<open>at_least h E\<close>: the backend is well formed and its history extends \<open>h\<close>; the log's keys and states
  are in order, its commit orders are the backend's, and the events of \<open>E\<close> are in it.\<close>

definition at_least ::
    "('b \<Rightarrow> committed_event list) \<Rightarrow> ('b \<Rightarrow> bool) \<Rightarrow> committed_event list \<Rightarrow> event set \<Rightarrow> 'b engine \<Rightarrow> bool" where
  "at_least hist ok h E s \<longleftrightarrow> ok (en_backend s) \<and> (\<exists>new. hist (en_backend s) = h @ new) \<and>
     log_inv (hist (en_backend s)) (rp_log (en_db s)) \<and> E \<subseteq> row_to_event ` set (rp_log (en_db s))"

definition synced :: "('b \<Rightarrow> committed_event list) \<Rightarrow> ('b \<Rightarrow> bool) \<Rightarrow> 'b engine \<Rightarrow> bool" where
  "synced hist ok s \<longleftrightarrow> ok (en_backend s) \<and> log_keys (rp_log (en_db s)) \<and>
     commits_held (hist (en_backend s)) (rp_log (en_db s))"

lemma synced_at_least: "synced hist ok s \<longleftrightarrow> at_least hist ok [] {} s"
  by (auto simp: synced_def at_least_def log_inv_def)

lemma at_least_still: "still s s' \<Longrightarrow> at_least hist ok h E s \<Longrightarrow> at_least hist ok h E s'"
  by (simp add: at_least_def still_def)

lemma keeps_still: "moves still m \<Longrightarrow> keeps (at_least hist ok h E) m"
  by (rule keepsI) (blast intro: at_least_still dest: movesD)

lemma at_least_weaken: "at_least hist ok (h @ new) E s \<Longrightarrow> at_least hist ok h E s"
  by (auto simp: at_least_def)

lemma held_at_later: "held_at h e n \<Longrightarrow> at_least hist ok h E s \<Longrightarrow> held_at (hist (en_backend s)) e n"
  by (auto simp: at_least_def held_at_append)

lemma keeps_set_log:
  assumes "\<And>s. at_least hist ok h E s \<Longrightarrow>
      log_inv (hist (en_backend s)) (f (rp_log (en_db s))) \<and> E \<subseteq> row_to_event ` set (f (rp_log (en_db s)))"
  shows "keeps (at_least hist ok h E) (ebind (db_get rp_log) (\<lambda>l. set_log (f l)))"
  using assms
  by (auto simp: keeps_def ebind_def db_get_def eget_def set_log_def db_mod_def emod_def) (simp add: at_least_def)

lemma keeps_mark_committed:
  assumes "held_at h e n"
  shows "keeps (at_least hist ok h E) (mark_committed e n)"
  unfolding mark_committed_def
proof (rule keeps_set_log)
  fix s assume s: "at_least hist ok h E s"
  let ?l = "rp_log (en_db s)" and ?ces = "hist (en_backend s)"
  have held: "r \<in> set ?l \<and> held_at ?ces (row_to_event r) n" if "event_row ?l (actor_id e) (actor_seq e) = Some r" for r
    using event_row_Some [OF that] held_at_later [OF assms s] by (simp add: held_at_def dedup_key_def)
  have inv: "log_inv ?ces ?l" using s by (simp add: at_least_def)
  show "log_inv ?ces (mark_found n (event_row ?l (actor_id e) (actor_seq e)) ?l) \<and>
      E \<subseteq> row_to_event ` set (mark_found n (event_row ?l (actor_id e) (actor_seq e)) ?l)"
    using log_inv_mark(1,3) [OF inv held] s by (simp add: at_least_def)
qed

lemma keeps_mark_by_id:
  assumes "e \<in> E" "event_id e = i" "held_at h e n"
  shows "keeps (at_least hist ok h E) (mark_committed_by_id i n)"
  unfolding mark_committed_by_id_def
proof (rule keeps_set_log)
  fix s assume s: "at_least hist ok h E s"
  let ?l = "rp_log (en_db s)" and ?ces = "hist (en_backend s)"
  have inv: "log_inv ?ces ?l" using s by (simp add: at_least_def)
  from s assms(1) obtain q where q: "q \<in> set ?l" "e = row_to_event q" by (auto simp: at_least_def)
  have held: "r \<in> set ?l \<and> held_at ?ces (row_to_event r) n" if "event_by_id ?l i = Some r" for r
  proof -
    have r: "r \<in> set ?l" "event_id r = i" using event_by_id_Some [OF that] by simp_all
    with q assms(2) keyed_id [of ?l r q] inv have "r = q" by (simp add: log_inv_def log_keys_def)
    with r(1) q(2) held_at_later [OF assms(3) s] show ?thesis by simp
  qed
  show "log_inv ?ces (mark_found n (event_by_id ?l i) ?l) \<and>
      E \<subseteq> row_to_event ` set (mark_found n (event_by_id ?l i) ?l)"
    using log_inv_mark(1,3) [OF inv held] s by (simp add: at_least_def)
qed

lemma keeps_set_state:
  assumes "st \<in> {Rejected, RebaseRequiredState}"
  shows "keeps (at_least hist ok h E) (set_state st r)"
  unfolding set_state_def
proof (rule keeps_set_log)
  fix s assume s: "at_least hist ok h E s"
  then have inv: "log_inv (hist (en_backend s)) (rp_log (en_db s))" by (simp add: at_least_def)
  show "log_inv (hist (en_backend s)) (update_row (event_id r) (\<lambda>r. r\<lparr>row_state := st\<rparr>) (rp_log (en_db s))) \<and>
      E \<subseteq> row_to_event ` set (update_row (event_id r) (\<lambda>r. r\<lparr>row_state := st\<rparr>) (rp_log (en_db s)))"
    using log_inv_state [OF inv assms] s by (simp add: at_least_def)
qed

lemma keeps_log_insert:
  assumes "held_at h e n"
  shows "keeps (at_least hist ok h E) (log_insert e n)"
proof (rule keepsI)
  fix s r s' assume s: "at_least hist ok h E s" and run: "log_insert e n s = (r, s')"
  have inv: "log_inv (hist (en_backend s)) (rp_log (en_db s))" using s by (simp add: at_least_def)
  show "at_least hist ok h E s'"
  proof (cases "insert_event e (Some n) None (rp_log (en_db s))")
    case (Inl x)
    with run s show ?thesis by (auto simp: log_insert_def ebind_def db_get_def eget_def elift_def)
  next
    case (Inr l)
    with run have s': "s' = s\<lparr>en_db := (en_db s)\<lparr>rp_log := l\<rparr>\<rparr>"
      by (simp add: log_insert_def ebind_def db_get_def eget_def elift_def set_log_def db_mod_def emod_def)
    from log_inv_insert [OF inv Inr held_at_later [OF assms s]] s show ?thesis
      by (auto simp: s' at_least_def)
  qed
qed

lemma keeps_insert_if_absent: "held_at h e n \<Longrightarrow> keeps (at_least hist ok h E) (insert_if_absent e n)"
  unfolding insert_if_absent_def
  by (intro keeps_intros keeps_log_insert keeps_still moves_intros)

lemma keeps_pending:
  assumes "\<And>pending. keeps (at_least hist ok h (E \<union> row_to_event ` set pending)) (k pending)"
  shows "keeps (at_least hist ok h E) (ebind (db_get (\<lambda>d. pushable_rows cf (rp_log d))) k)"
proof (rule keepsI)
  fix s r s' assume s: "at_least hist ok h E s"
    and run: "ebind (db_get (\<lambda>d. pushable_rows cf (rp_log d))) k s = (r, s')"
  let ?p = "pushable_rows cf (rp_log (en_db s))"
  have "set ?p \<subseteq> set (rp_log (en_db s))" by (auto simp: pushable_rows_def set_pending_rows)
  with s have "at_least hist ok h (E \<union> row_to_event ` set ?p) s" by (auto simp: at_least_def)
  moreover have "k ?p s = (r, s')" using run by (simp add: ebind_def db_get_def eget_def)
  ultimately have "at_least hist ok h (E \<union> row_to_event ` set ?p) s'" using keepsD [OF assms] by blast
  then show "at_least hist ok h E s'" by (simp add: at_least_def)
qed

lemma keeps_reject: "keeps (at_least hist ok h E) (reject cf e code prose)"
  unfolding reject_def by (intro keeps_intros keeps_set_state keeps_still moves_intros) simp

lemma keeps_take_out: "keeps (at_least hist ok h E) (take_out cf e)"
  unfolding take_out_def by (intro keeps_intros keeps_set_state keeps_still moves_intros) simp

end
