(* ===== verification/Agreement.thy ===== *)
theory Agreement
  imports Synced
begin

text \<open>
  The engine against any backend that meets the contract \<open>backend_port\<close>: every operation keeps
  the replica's commit orders those of the backend (\<open>synced\<close>), however it ends.  From it,
  distinct commit orders within a replica, equal ones across replicas, and termination of the
  drain loop within its fuel.
\<close>

context backend_port begin

lemma at_least_advance:
  assumes s: "at_least hist ok h E s" and b: "ok b'" "hist b' = hist (en_backend s) @ new"
  shows "\<exists>more. at_least hist ok (h @ more) E (s\<lparr>en_backend := b'\<rparr>) \<and> hist b' = h @ more"
proof -
  from s obtain old where old: "hist (en_backend s) = h @ old" by (auto simp: at_least_def)
  have "commits_held (hist b') (rp_log (en_db s))"
    unfolding b(2) by (rule commits_held_append) (use s in \<open>simp add: at_least_def log_inv_def\<close>)
  with s b old show ?thesis by (intro exI [of _ "old @ new"]) (simp add: at_least_def log_inv_def)
qed

lemma keeps_from:
  "keeps (at_least hist ok (h @ new) E) m \<Longrightarrow> at_least hist ok (h @ new) E t \<Longrightarrow> m t = (r, s') \<Longrightarrow>
   at_least hist ok h E s'"
  by (blast dest: keepsD at_least_weaken)

text \<open>Calls: the history may have grown, and the answer is about the grown one.\<close>

lemma keeps_call:
  assumes f: "\<And>b q b'. ok b \<Longrightarrow> f b = (q, b') \<Longrightarrow> ok b' \<and> (\<exists>new. hist b' = hist b @ new) \<and>
      (\<forall>y. q = Inr y \<longrightarrow> A (hist b') y)"
    and k: "\<And>new y. A (h @ new) y \<Longrightarrow> keeps (at_least hist ok (h @ new) E) (k y)"
  shows "keeps (at_least hist ok h E) (ebind (call f) k)"
proof (rule keepsI)
  fix s r s' assume s: "at_least hist ok h E s" and run: "ebind (call f) k s = (r, s')"
  obtain q b' where fb: "f (en_backend s) = (q, b')" by (cases "f (en_backend s)")
  have "ok (en_backend s)" using s by (simp add: at_least_def)
  from f [OF this fb] obtain new where b': "ok b'" "hist b' = hist (en_backend s) @ new" "\<forall>y. q = Inr y \<longrightarrow> A (hist b') y"
    by blast
  let ?t = "s\<lparr>en_backend := b'\<rparr>"
  from at_least_advance [OF s b'(1,2)] obtain new' where t: "at_least hist ok (h @ new') E ?t" "hist b' = h @ new'"
    by blast
  show "at_least hist ok h E s'"
  proof (cases q)
    case (Inl x)
    with run fb t(1) show ?thesis by (auto simp: ebind_def call_def intro: at_least_weaken)
  next
    case (Inr y)
    with run fb have "k y ?t = (r, s')" by (simp add: ebind_def call_def)
    moreover have "keeps (at_least hist ok (h @ new') E) (k y)" using b'(3) Inr t(2) by (intro k) simp
    ultimately show ?thesis using keeps_from t(1) by blast
  qed
qed

lemma keeps_etry_call:
  assumes f: "\<And>b q b'. ok b \<Longrightarrow> f b = (q, b') \<Longrightarrow> ok b' \<and> (\<exists>new. hist b' = hist b @ new) \<and>
      (\<forall>y. q = Inr y \<longrightarrow> A (hist b') y)"
    and k: "\<And>new y. A (h @ new) y \<Longrightarrow> keeps (at_least hist ok (h @ new) E) (k (Inr y))"
    and e: "\<And>new x. keeps (at_least hist ok (h @ new) E) (k (Inl x))"
  shows "keeps (at_least hist ok h E) (ebind (etry (call f)) k)"
proof (rule keepsI)
  fix s r s' assume s: "at_least hist ok h E s" and run: "ebind (etry (call f)) k s = (r, s')"
  obtain q b' where fb: "f (en_backend s) = (q, b')" by (cases "f (en_backend s)")
  have "ok (en_backend s)" using s by (simp add: at_least_def)
  from f [OF this fb] obtain new where b': "ok b'" "hist b' = hist (en_backend s) @ new" "\<forall>y. q = Inr y \<longrightarrow> A (hist b') y"
    by blast
  let ?t = "s\<lparr>en_backend := b'\<rparr>"
  from at_least_advance [OF s b'(1,2)] obtain new' where t: "at_least hist ok (h @ new') E ?t" "hist b' = h @ new'"
    by blast
  show "at_least hist ok h E s'"
  proof (cases q)
    case (Inl x)
    with run fb have "k (Inl (EPort x)) ?t = (r, s')" by (simp add: ebind_def etry_def call_def)
    then show ?thesis using keeps_from [OF e t(1)] by blast
  next
    case (Inr y)
    with run fb have "k (Inr y) ?t = (r, s')" by (simp add: ebind_def etry_def call_def)
    moreover have "keeps (at_least hist ok (h @ new') E) (k (Inr y))" using b'(3) Inr t(2) by (intro k) simp
    ultimately show ?thesis using keeps_from t(1) by blast
  qed
qed

definition answered :: "bool \<Rightarrow> event list \<Rightarrow> committed_event list \<Rightarrow> commit_result list \<Rightarrow> bool" where
  "answered cas es h rs \<longleftrightarrow> list_all2 (\<lambda>e r. cr_event_id r = event_id e \<and> held_at h e (cr_revision r) \<and>
     (cas \<longrightarrow> cr_conflicts r = [])) es rs"

lemma commit_call: "ok b \<Longrightarrow> pt_commit port cas es b = (q, b') \<Longrightarrow>
   ok b' \<and> (\<exists>new. hist b' = hist b @ new) \<and> (\<forall>y. q = Inr y \<longrightarrow> answered cas es (hist b') y)"
  using ok_commit [of b cas es q b'] commit_grows [of b cas es q b'] commit_answers [of b cas es _ b']
  by (auto simp: answered_def)

definition pulled :: "committed_event list \<Rightarrow> committed_event list \<Rightarrow> bool" where
  "pulled h ces \<longleftrightarrow> (\<forall>ce \<in> set ces. held_at h (cevent ce) (revision ce))"

lemma pull_call: "ok b \<Longrightarrow> pt_pull port c since b = (q, b') \<Longrightarrow>
   ok b' \<and> (\<exists>new. hist b' = hist b @ new) \<and> (\<forall>y. q = Inr y \<longrightarrow> pulled (hist b') y)"
  using ok_pull [of b c since q b'] pull_answers [of b c since _ b']
  by (auto simp: pulled_def after_cursor_def held_at_def)

lemma push_call: "ok b \<Longrightarrow> pt_push port es b = (q, b') \<Longrightarrow>
   ok b' \<and> (\<exists>new. hist b' = hist b @ new) \<and> (\<forall>y. q = Inr y \<longrightarrow> pulled (hist b') y)"
  using ok_push [of b es q b'] by (auto simp: pulled_def)

lemma init_call: "pt_session_init port = Some init \<Longrightarrow> ok b \<Longrightarrow> init v w b = (q, b') \<Longrightarrow>
   ok b' \<and> (\<exists>new. hist b' = hist b @ new) \<and> (\<forall>y. q = Inr y \<longrightarrow> True)"
  using ok_init by auto

lemma keeps_session:
  assumes "\<And>new. keeps (at_least hist ok (h @ new) E) m"
  shows "keeps (at_least hist ok h E) (session m)"
proof (rule keepsI)
  fix s r s' assume s: "at_least hist ok h E s" and run: "session m s = (r, s')"
  then obtain new where new: "hist (en_backend s) = h @ new" by (auto simp: at_least_def)
  with s have now: "at_least hist ok (h @ new) E s" by (simp add: at_least_def)
  obtain q t where m: "m s = (q, t)" by (cases "m s")
  from keepsD [OF assms m now] have t: "at_least hist ok (h @ new) E t" .
  show "at_least hist ok h E s'"
  proof (cases q)
    case (Inr x)
    with run m t show ?thesis by (auto simp: session_def etrans_def intro: at_least_weaken)
  next
    case (Inl e)
    with run m have s': "s' = t\<lparr>en_db := en_db s\<rparr>" by (simp add: session_def etrans_def)
    from t obtain more where more: "ok (en_backend t)" "hist (en_backend t) = (h @ new) @ more"
      by (auto simp: at_least_def)
    have "log_inv (hist (en_backend t)) (rp_log (en_db s))"
      using s unfolding more(2) new [symmetric] by (auto simp: at_least_def log_inv_def intro: commits_held_append)
    with s more show ?thesis by (simp add: at_least_def s')
  qed
qed

text \<open>The operations.\<close>

lemma keeps_negotiate:
  assumes "cf_port cf = port"
  shows "keeps (at_least hist ok h E) (negotiate_session cf)"
  unfolding negotiate_session_def audit_version_reject_def assms
  by (intro keeps_intros keeps_call [OF init_call] keeps_session keeps_still moves_intros)

lemma keeps_push:
  assumes "cf_port cf = port"
  shows "keeps (at_least hist ok h E) (Engine.push cf)"
  unfolding Engine.push_def assms
  by (intro keeps_ebind keeps_negotiate [OF assms] keeps_session keeps_call [OF push_call] keeps_eseq keeps_efor
      keeps_mark_committed keeps_eret keeps_still [of "db_get _"] moves_intros)
    (auto simp: pulled_def)

lemma keeps_ingest_entry:
  "held_at h (cevent entry) (revision entry) \<Longrightarrow> keeps (at_least hist ok h E) (ingest_entry cf entry acc)"
  unfolding ingest_entry_def Let_def split_beta
  by (intro keeps_intros keeps_mark_committed keeps_log_insert keeps_still moves_intros)

lemma keeps_pull:
  assumes "cf_port cf = port"
  shows "keeps (at_least hist ok h E) (Engine.pull cf c)"
  unfolding Engine.pull_def assms
  by (intro keeps_ebind keeps_negotiate [OF assms] keeps_session keeps_call [OF pull_call] keeps_eseq keeps_efold
      keeps_ingest_entry keeps_prod keeps_eret keeps_still [OF still_cursor] keeps_still [OF still_ack_cursor]
      keeps_still [OF still_refold_all])
    (auto simp: pulled_def)

lemma keeps_ack: "keeps (at_least hist ok h E) (ack cf n c)"
  unfolding ack_def by (intro keeps_session keeps_still moves_intros)

lemma keeps_backfill_entry:
  "held_at h (cevent entry) (revision entry) \<Longrightarrow> keeps (at_least hist ok h E) (backfill_entry cf entry acc)"
  unfolding backfill_entry_def Let_def split_beta
  by (intro keeps_intros keeps_mark_committed keeps_still moves_intros)

lemma keeps_reconcile:
  assumes "cf_port cf = port"
  shows "keeps (at_least hist ok h E) (reconcile_dropped_acks cf)"
  unfolding reconcile_dropped_acks_def assms
  by (intro keeps_ebind keeps_call [OF pull_call] keeps_eseq keeps_efold keeps_backfill_entry keeps_prod keeps_eret
      keeps_still [OF still_cursor] keeps_still [OF still_refold_all])
    (auto simp: pulled_def)

lemma keeps_bounce:
  assumes "cf_port cf = port"
  shows "keeps (at_least hist ok h E) (bounce_proposal cf e pid reverted)"
  unfolding bounce_proposal_def bounce_flip_def assms
  by (intro keeps_eseq keeps_if keeps_take_out keeps_eret keeps_ebind keeps_call [OF commit_call] keeps_efor
      keeps_insert_if_absent keeps_still moves_intros)
    (auto simp: answered_def list_all2_Cons1)

lemma keeps_mint_one:
  assumes "cf_port cf = port"
  shows "keeps (at_least hist ok h E) (mint_one cf ws contended r fc n)"
  unfolding mint_one_def Let_def assms
  by (intro keeps_eseq keeps_if keeps_eret keeps_ebind keeps_call [OF commit_call] keeps_efor
      keeps_insert_if_absent keeps_still moves_intros)
    (auto simp: answered_def list_all2_Cons1)

lemma keeps_mint:
  assumes "cf_port cf = port"
  shows "keeps (at_least hist ok h E) (mint_conflict_records cf r)"
  unfolding mint_conflict_records_def
  by (intro keeps_intros keeps_mint_one [OF assms] keeps_still [OF still_get])

lemma answered_in:
  "answered cas es h rs \<Longrightarrow> set es \<subseteq> E \<Longrightarrow> r \<in> set rs \<Longrightarrow>
   \<exists>e \<in> E. event_id e = cr_event_id r \<and> held_at h e (cr_revision r)"
  unfolding answered_def by (fastforce simp: list_all2_conv_all_nth in_set_conv_nth)

lemma keeps_mark_result:
  assumes "\<exists>e \<in> E. event_id e = cr_event_id r \<and> held_at h e (cr_revision r)"
  shows "keeps (at_least hist ok h E) (mark_committed_by_id (cr_event_id r) (cr_revision r))"
  using assms keeps_mark_by_id by blast

lemma keeps_commit_proposal:
  assumes "cf_port cf = port" "row_to_event row \<in> E"
  shows "keeps (at_least hist ok h E) (commit_proposal_write cf row pid policy)"
proof -
  have "set [row_to_event row] \<subseteq> E" using assms(2) by simp
  note in_E = answered_in [OF _ this]
  have err: "keeps (at_least hist ok h E) (case x of EPort (PortRebase _ _) \<Rightarrow>
      eseq (bounce_proposal cf (row_to_event row) pid True) (eret 1) | _ \<Rightarrow> eraise x)" for h x
    by (auto split: engine_error.split port_error.split intro!: keeps_intros keeps_bounce [OF assms(1)])
  show ?thesis
    unfolding commit_proposal_write_def Let_def assms(1)
    by (intro keeps_etry_call [OF commit_call])
      (auto intro!: keeps_intros keeps_bounce [OF assms(1)] keeps_mark_result err dest: in_E)
qed

lemma keeps_count_result:
  assumes "cf_port cf = port" "\<exists>e \<in> E. event_id e = cr_event_id r \<and> held_at h e (cr_revision r)"
  shows "keeps (at_least hist ok h E) (count_result cf r c)"
  unfolding count_result_def
  by (intro keeps_intros keeps_mark_result assms keeps_mint)

lemma keeps_commit_ordinary:
  assumes "cf_port cf = port" "row_to_event ` set ordinary \<subseteq> E"
  shows "keeps (at_least hist ok h E) (commit_ordinary cf ordinary c)"
proof -
  have err: "keeps (at_least hist ok h E) (case x of EPort (PortRejected e code prose) \<Rightarrow>
      eseq (reject cf e code prose) (eret (Inl c')) | _ \<Rightarrow> eraise x)" for h x and c' :: counts
    by (auto split: engine_error.split port_error.split intro!: keeps_intros keeps_reject)
  have "set (map row_to_event ordinary) \<subseteq> E" using assms(2) by simp
  note in_E = answered_in [OF _ this]
  show ?thesis
    unfolding commit_ordinary_def assms(1)
    by (intro keeps_if keeps_eret keeps_etry_call [OF commit_call])
      (auto intro!: keeps_intros keeps_count_result [OF assms(1)] err dest: in_E)
qed

lemma keeps_drain:
  assumes "cf_port cf = port"
  shows "keeps (at_least hist ok h E) (drain cf policy n c)"
proof (induction n arbitrary: c h E)
  case (Suc n)
  show ?case
    unfolding drain.simps commit_proposals_def
    by (intro keeps_pending keeps_if keeps_eret keeps_ebind keeps_commit_ordinary [OF assms] keeps_sum Suc.IH
        keeps_efold keeps_option keeps_eraise keeps_commit_proposal [OF assms]) auto
qed (simp add: keeps_eraise)

lemma keeps_flush_attempt:
  assumes "cf_port cf = port"
  shows "keeps (at_least hist ok h E) (flush_attempt cf policy n)"
  unfolding flush_attempt_def
  by (intro keeps_session keeps_ebind keeps_reconcile [OF assms] keeps_drain [OF assms] keeps_still [OF still_get])

lemma keeps_flush_loop:
  assumes "cf_port cf = port"
  shows "keeps (at_least hist ok h E) (flush_loop cf policy b n)"
  by (rule flush_loop_keeps) (simp_all add: keeps_flush_attempt [OF assms] at_least_def)

lemma keeps_flush_outbox:
  assumes "cf_port cf = port"
  shows "keeps (at_least hist ok h E) (flush_outbox cf b policy)"
  unfolding flush_outbox_def
  by (intro keeps_intros keeps_negotiate [OF assms] keeps_flush_loop [OF assms])

text \<open>Two authoritative events built one after the other have different ids when the factory's do.\<close>

lemma sign_if_id: "sign_if cf e s = (Inr x, s') \<Longrightarrow> event_id x = event_id e \<and> s' = s"
proof (cases "cf_signer cf")
  case (Some k)
  assume "sign_if cf e s = (Inr x, s')"
  with Some have "sign (cf_ed cf) e (signer_key k) = Inr x" "s' = s" by (simp_all add: sign_if_def)
  then show ?thesis using sign_fields [of "cf_ed cf" e "signer_key k" x] by (cases e; cases x) simp
qed (simp add: sign_if_def)

lemma signed_event_id:
  "signed_event cf c e p base n s = (Inr x, s') \<Longrightarrow>
   event_id x = env_id (cf_env cf (en_fresh s)) \<and> en_fresh s' = Suc (en_fresh s)"
  by (auto simp: signed_event_def ebind_Inr fresh_def dest!: sign_if_id)

lemma keeps_signed_pair:
  assumes "inj (\<lambda>i. env_id (cf_env cf i))"
    and k: "\<And>x y. event_id x \<noteq> event_id y \<Longrightarrow> keeps (at_least hist ok h E) (k x y)"
  shows "keeps (at_least hist ok h E)
    (ebind (signed_event cf c e p base n) (\<lambda>x. ebind (signed_event cf c' e' p' base' n') (k x)))"
proof (rule keepsI)
  fix s r s' assume s: "at_least hist ok h E s"
    and run: "ebind (signed_event cf c e p base n) (\<lambda>x. ebind (signed_event cf c' e' p' base' n') (k x)) s = (r, s')"
  obtain q t where one: "signed_event cf c e p base n s = (q, t)" by (cases "signed_event cf c e p base n s")
  have t: "at_least hist ok h E t" using keepsD [OF keeps_still [OF still_signed_event] one s] .
  show "at_least hist ok h E s'"
  proof (cases q)
    case (Inl x)
    with run one t show ?thesis by (simp add: ebind_def)
  next
    case (Inr x)
    obtain q' u where two: "signed_event cf c' e' p' base' n' t = (q', u)" by (cases "signed_event cf c' e' p' base' n' t")
    have u: "at_least hist ok h E u" using keepsD [OF keeps_still [OF still_signed_event] two t] .
    show ?thesis
    proof (cases q')
      case (Inl y)
      with run one Inr two u show ?thesis by (simp add: ebind_def)
    next
      case (Inr y)
      have "event_id x \<noteq> event_id y"
        using signed_event_id [OF one [unfolded \<open>q = Inr x\<close>]]
          signed_event_id [OF two [unfolded Inr]] injD [OF assms(1), of "en_fresh s" "Suc (en_fresh s)"] by auto
      with run one \<open>q = Inr x\<close> two Inr keepsD [OF k _ u, of x y] show ?thesis by (simp add: ebind_def)
    qed
  qed
qed

lemma keeps_apply_resolution:
  assumes "answered True [x, y] h rs" "event_id x \<noteq> event_id y" "e = x \<or> e = y"
  shows "keeps (at_least hist ok h E) (apply_resolution cf rs e)"
proof -
  from assms(1) obtain r q where rs: "rs = [r, q]" "cr_event_id r = event_id x" "cr_event_id q = event_id y"
    "held_at h x (cr_revision r)" "held_at h y (cr_revision q)"
    by (auto simp: answered_def list_all2_Cons1)
  have "held_at h e (cr_revision w)" if "List.find (\<lambda>r. cr_event_id r = event_id e) (List.rev rs) = Some w" for w
    using that rs assms(2,3) by (auto split: if_splits)
  then show ?thesis
    unfolding apply_resolution_def
    by (intro keeps_option keeps_eseq keeps_insert_if_absent keeps_eret keeps_still [OF still_refold]) blast
qed

lemma keeps_resolve:
  assumes "cf_port cf = port" "inj (\<lambda>i. env_id (cf_env cf i))"
  shows "keeps (at_least hist ok h E) (resolve_conflict cf cid choice v by' stamp)"
proof -
  have err: "keeps (at_least hist ok h E) (case x of EPort (PortRebase _ _) \<Rightarrow> eret y | _ \<Rightarrow> eraise x)" for h x and y :: resolve_result
    by (auto split: engine_error.split port_error.split intro!: keeps_intros)
  have "keeps (at_least hist ok h E) (resolve_record cf cid r choice v resolver stamp)" for h r resolver
    unfolding resolve_record_def assms(1)
    by (rule keeps_signed_pair [OF assms(2)] keeps_etry_call [OF commit_call] keeps_ebind keeps_elift
        keeps_still [OF still_get] | assumption)+
      (auto intro!: keeps_eret keeps_eseq keeps_efor keeps_apply_resolution keeps_still [OF still_audit] err
        simp del: efor.simps)
  then show ?thesis
    unfolding resolve_conflict_def Let_def
    by (intro keeps_if keeps_eraise keeps_session keeps_ebind keeps_option keeps_eret keeps_still [OF still_get])
qed

end

end
