(* ===== verification/Delivery.thy ===== *)
theory Delivery
  imports Agreement
begin

text \<open>
  What the engine delivers, for any backend that meets the contract: commit orders are distinct
  in a replica and equal across replicas, the drain loop ends within its fuel, a second pull
  brings nothing new, a version refusal and a refused resolution change nothing, a bounced
  proposal never reaches the team's history, and the retry loop is bounded.
\<close>

section \<open>Runs out of fuel only if the backend misbehaves\<close>

lemma avoids_db [avoids_intros]: "avoids x (db_get f)" "avoids x (db_mod g)" "avoids x (set_log l)"
  by (simp_all add: db_get_def db_mod_def set_log_def avoids_intros)

lemma avoids_fresh [avoids_intros]: "avoids x (fresh cf)"
  by (simp add: avoids_def fresh_def)

lemma avoids_call [avoids_intros]: "avoids EFuel (call f)"
  by (auto simp: avoids_def call_def split: prod.splits sum.splits)

lemma avoids_session [avoids_intros]: "avoids x m \<Longrightarrow> avoids x (session m)"
  unfolding session_def by (rule avoids_etrans)

lemma avoids_etry_call:
  "(\<And>y. avoids x (k (Inr y))) \<Longrightarrow> (\<And>y. avoids x (k (Inl (EPort y)))) \<Longrightarrow> avoids x (ebind (etry (call f)) k)"
  by (auto simp: avoids_def ebind_Inl call_def split: prod.splits sum.splits)

lemma avoids_audit [avoids_intros]: "avoids EFuel (audit cf a act src obj after)"
  unfolding audit_def by (intro avoids_intros) simp

lemma avoids_refold [avoids_intros]: "avoids EFuel (refold cf c e)" "avoids EFuel (refold_all cf touched)"
  unfolding refold_all_def refold_def by (intro avoids_intros; simp)+

lemma avoids_mark [avoids_intros]: "avoids EFuel (mark_committed e n)" "avoids EFuel (mark_committed_by_id i n)"
  "avoids EFuel (set_state st r)"
  unfolding mark_committed_def mark_committed_by_id_def set_state_def by (intro avoids_intros)+

lemma avoids_insert [avoids_intros]: "avoids EFuel (log_insert e n)" "avoids EFuel (insert_if_absent e n)"
  unfolding insert_if_absent_def log_insert_def by (intro avoids_intros; simp)+

lemma avoids_sign [avoids_intros]: "avoids EFuel (sign_if cf e)" "avoids EFuel (signed_event cf c i p base n)"
  unfolding signed_event_def sign_if_def by (intro avoids_intros; simp)+

lemma avoids_reject [avoids_intros]: "avoids EFuel (reject cf e code prose)"
  unfolding reject_def by (intro avoids_intros)

lemma avoids_bounce [avoids_intros]: "avoids EFuel (bounce_proposal cf e pid reverted)"
  unfolding bounce_proposal_def bounce_flip_def take_out_def by (intro avoids_intros)

lemma avoids_mint [avoids_intros]: "avoids EFuel (mint_conflict_records cf r)"
  unfolding mint_conflict_records_def mint_one_def Let_def by (intro avoids_intros) simp

lemma avoids_commit_proposal [avoids_intros]: "avoids EFuel (commit_proposal_write cf row pid policy)"
  unfolding commit_proposal_write_def Let_def
  by (intro avoids_etry_call) (auto intro!: avoids_intros split: port_error.split)

lemma avoids_count_result [avoids_intros]: "avoids EFuel (count_result cf r c)"
  unfolding count_result_def by (intro avoids_intros)

lemma avoids_commit_ordinary [avoids_intros]: "avoids EFuel (commit_ordinary cf ordinary c)"
  unfolding commit_ordinary_def
  by (intro avoids_if avoids_eret avoids_etry_call) (auto intro!: avoids_intros split: port_error.split)

lemma avoids_commit_proposals [avoids_intros]: "avoids EFuel (commit_proposals cf policy rows c)"
  unfolding commit_proposals_def by (intro avoids_intros) simp

lemma avoids_reconcile [avoids_intros]: "avoids EFuel (reconcile_dropped_acks cf)"
  unfolding reconcile_dropped_acks_def backfill_entry_def cursor_def Let_def by (intro avoids_intros)

lemma avoids_negotiate [avoids_intros]: "avoids EFuel (negotiate_session cf)"
  unfolding negotiate_session_def audit_version_reject_def
  by (intro avoids_intros) (simp_all add: avoids_def remember_def)

text \<open>Every rejection takes a row out of the outbox.\<close>

definition is_pending :: "log_row \<Rightarrow> bool" where
  "is_pending r \<longleftrightarrow> committed_rev r = None \<and> row_state r = Pending"

definition pend :: "'b engine \<Rightarrow> nat" where
  "pend s = length (pending_rows (rp_log (en_db s)))"

lemma length_pending: "length (pending_rows l) = length (filter is_pending l)"
  by (simp add: pending_rows_def is_pending_def [abs_def])

lemma pend_still: "moves still m \<Longrightarrow> m s = (r, s') \<Longrightarrow> pend s' = pend s"
  by (drule (1) movesD) (simp add: pend_def still_def)

lemma event_row_keyed: "keyed l \<Longrightarrow> r \<in> set l \<Longrightarrow> event_row l (actor_id r) (actor_seq r) = Some r"
proof (cases "event_row l (actor_id r) (actor_seq r)")
  case None
  moreover assume "r \<in> set l"
  ultimately show ?thesis by (auto simp: event_row_def find_None_iff)
next
  case (Some q)
  moreover assume "keyed l" "r \<in> set l"
  ultimately show ?thesis using event_row_Some [OF Some] keyed_dedup [of l q r] by (simp add: dedup_key_def)
qed

lemma pending_reject:
  assumes "r \<in> set l" "is_pending r"
  shows "length (pending_rows (update_row (event_id r) (\<lambda>r. r\<lparr>row_state := Rejected\<rparr>) l)) < length (pending_rows l)"
proof -
  let ?f = "\<lambda>s. if event_id s = event_id r then s\<lparr>row_state := Rejected\<rparr> else s"
  have "length (filter (is_pending \<circ> ?f) l) < length (filter is_pending l)"
    using assms by (intro length_filter_less [of r]) (auto simp: is_pending_def split: if_splits)
  then show ?thesis by (simp add: length_pending update_row_def filter_map)
qed

lemma reject_pend:
  assumes "reject cf (row_to_event r) code prose s = (Inr u, s')" "keyed (rp_log (en_db s))"
    and "r \<in> set (rp_log (en_db s))" "is_pending r"
  shows "pend s' < pend s"
proof -
  from assms obtain t where t: "set_state Rejected r s = (Inr (), t)"
    and rest: "eseq (refold cf (collection r) (entity_id r)) (audit cf (actor_id r)
      (take 64 (rstrip_s (collection r) @ lit ''.sync_rejected'')) (lit ''sync'')
      (ref_str (collection r) (entity_id r))
      [(lit ''code'', PStr code), (lit ''reason'', PStr prose), (lit ''event_id'', PStr (event_id r))]) t = (Inr u, s')"
    by (auto simp: reject_def ebind_Inr db_get_def event_row_keyed eseq_Inr)
  have "pend t < pend s"
    using t pending_reject [OF assms(3,4)]
    by (auto simp: set_state_def ebind_Inr db_get_def set_log_def db_mod_def pend_def)
  moreover have "pend s' = pend t" using rest by (rule pend_still [rotated]) (intro moves_intros)
  ultimately show ?thesis by simp
qed

context backend_port begin

lemma commit_ordinary_rejected:
  assumes "commit_ordinary cf ordinary c s = (Inr (Inl c'), s')" "cf_port cf = port"
    and "at_least hist ok h E s" "set ordinary \<subseteq> set (pending_rows (rp_log (en_db s)))"
  shows "pend s' < pend s"
proof -
  let ?es = "map row_to_event ordinary"
  obtain q b where run: "pt_commit port False ?es (en_backend s) = (q, b)"
    by (cases "pt_commit port False ?es (en_backend s)")
  from assms(1,2) run obtain e code prose where q: "q = Inl (PortRejected e code prose)"
    and rej: "reject cf e code prose (s\<lparr>en_backend := b\<rparr>) = (Inr (), s')"
    by (auto simp: commit_ordinary_def ebind_Inr eseq_Inr call_def split: if_splits sum.splits port_error.splits)
  have "ok (en_backend s)" using assms(3) by (simp add: at_least_def)
  from commit_rejects [OF this run [unfolded q]] obtain r where r: "r \<in> set ordinary" "e = row_to_event r" by auto
  with assms(4) have "r \<in> set (rp_log (en_db s))" "is_pending r" by (auto simp: set_pending_rows is_pending_def)
  with reject_pend [OF rej [unfolded r(2)]] assms(3) show ?thesis
    by (simp add: pend_def at_least_def log_inv_def log_keys_def)
qed

lemma drain_fuel:
  assumes "cf_port cf = port"
  shows "at_least hist ok h E s \<Longrightarrow> pend s < n \<Longrightarrow> drain cf policy n c s \<noteq> (Inl EFuel, s')"
proof (induction n arbitrary: c s h E)
  case (Suc n)
  let ?p = "pushable_rows cf (rp_log (en_db s))"
  let ?o = "filter (\<lambda>r. origin_proposal_id r = None) ?p"
  have sub: "set ?o \<subseteq> set (pending_rows (rp_log (en_db s)))" by (auto simp: pushable_rows_def)
  obtain q t where o: "commit_ordinary cf ?o c s = (q, t)" by (cases "commit_ordinary cf ?o c s")
  have q: "q \<noteq> Inl EFuel" using avoids_commit_ordinary [of cf ?o c] o by (auto simp: avoids_def)
  have run: "drain cf policy (Suc n) c s = (if ?p = [] then (Inr c, s) else
      case q of Inl e \<Rightarrow> (Inl e, t) | Inr (Inl c') \<Rightarrow> drain cf policy n c' t
      | Inr (Inr c') \<Rightarrow> commit_proposals cf policy (filter (\<lambda>r. origin_proposal_id r \<noteq> None) ?p) c' t)"
    by (simp add: ebind_def db_get_def eget_def eret_def o del: not_None_eq split: sum.split)
  show ?case
  proof (cases "\<exists>c'. q = Inr (Inl c')")
    case True
    then obtain c' where c': "q = Inr (Inl c')" by blast
    have "at_least hist ok h (E \<union> row_to_event ` set ?o) s"
      using Suc.prems(1) sub by (auto simp: at_least_def set_pending_rows)
    then have t: "at_least hist ok h (E \<union> row_to_event ` set ?o) t"
      using keepsD [OF keeps_commit_ordinary [OF assms] o] by blast
    have "pend t < n" using commit_ordinary_rejected [OF o [unfolded c'] assms Suc.prems(1) sub] Suc.prems(2) by simp
    from Suc.IH [OF t this] show ?thesis by (simp only: run c' sum.case) simp
  next
    case False
    have "commit_proposals cf policy rows c' t \<noteq> (Inl EFuel, s')" for rows c'
      using avoids_commit_proposals [of cf policy rows c'] by (simp add: avoids_def)
    with False q show ?thesis by (simp only: run) (auto split: sum.split)
  qed
qed simp

lemma flush_attempt_fuel:
  assumes "cf_port cf = port" "at_least hist ok h E s"
  shows "flush_attempt cf policy n s \<noteq> (Inl EFuel, s')"
proof
  assume "flush_attempt cf policy n s = (Inl EFuel, s')"
  then obtain t where "flush_attempt cf policy n s = (Inl EFuel, s')"
    and run: "ebind (reconcile_dropped_acks cf) (\<lambda>reconciled.
     ebind (db_get (\<lambda>d. Suc (length (pending_rows (rp_log d))))) (\<lambda>fuel.
     ebind (drain cf policy fuel no_counts) (\<lambda>c.
     db_get (\<lambda>d. \<lparr>fl_counts = c, fl_reconciled = reconciled, fl_attempts = n,
       fl_drained = (pushable_rows cf (rp_log d) = []), fl_withheld = length (withheld_rows cf (rp_log d))\<rparr>)))) s = (Inl EFuel, t)"
    by (auto simp: flush_attempt_def session_def etrans_Inl)
  then obtain u k where u: "reconcile_dropped_acks cf s = (Inr k, u)" "drain cf policy (Suc (pend u)) no_counts u = (Inl EFuel, t)"
    using avoids_reconcile avoidsD by (fastforce simp: ebind_Inl db_get_def pend_def)
  have "at_least hist ok h E u" using keepsD [OF keeps_reconcile [OF assms(1)] u(1) assms(2)] .
  then show False using drain_fuel [OF assms(1) _ lessI] u(2) by blast
qed

lemma flush_fuel:
  assumes "cf_port cf = port" "at_least hist ok h E s"
  shows "flush_outbox cf b policy s \<noteq> (Inl EFuel, s')"
proof -
  have loop: "flush_loop cf policy b n s \<noteq> (Inl EFuel, s')" if "at_least hist ok h E s" for n s
    using that assms(1)
  proof (induction cf policy b n s rule: flush_loop.induct)
    case (1 cf policy b n s)
    obtain q t where a: "flush_attempt cf policy (n + 1) s = (q, t)" by (cases "flush_attempt cf policy (n + 1) s")
    have t: "at_least hist ok h E t" using keepsD [OF keeps_flush_attempt [OF "1.prems"(2)] a "1.prems"(1)] .
    show ?case
    proof (cases q)
      case (Inr x)
      with a show ?thesis by (simp add: flush_loop.simps)
    next
      case (Inl e)
      have e: "e \<noteq> EFuel" using flush_attempt_fuel [OF "1.prems"(2,1)] a Inl by blast
      let ?t = "t\<lparr>en_slept := en_slept t @ [delay b (n + 1)]\<rparr>"
      have "at_least hist ok h E ?t" using t by (simp add: at_least_def)
      with "1.IH" [OF a [symmetric] Inl _ _ this "1.prems"(2)] a Inl e show ?thesis
        by (auto simp: flush_loop.simps [of cf policy b n s] give_up_def db_get_def eget_def)
    qed
  qed
  show ?thesis
  proof
    assume "flush_outbox cf b policy s = (Inl EFuel, s')"
    then obtain p t where "negotiate_session cf s = (Inr p, t)" "flush_loop cf policy b 0 t = (Inl EFuel, s')"
      using avoids_negotiate avoidsD by (fastforce simp: flush_outbox_def ebind_Inl split: if_splits)
    with loop keepsD [OF keeps_negotiate [OF assms(1)] _ assms(2)] show False by blast
  qed
qed

text \<open>Commit orders: distinct in a replica, equal across replicas.\<close>

lemma synced_revs_distinct:
  assumes "synced hist ok s"
  shows "revs_distinct (rp_log (en_db s))"
proof -
  let ?l = "rp_log (en_db s)" and ?h = "hist (en_backend s)"
  have k: "keyed ?l" and held: "commits_held ?h ?l" and b: "ok (en_backend s)"
    using assms by (auto simp: synced_def log_keys_def)
  have "inj_on (the \<circ> committed_rev) (set (filter (\<lambda>r. committed_rev r \<noteq> None) ?l))"
  proof (rule inj_onI)
    fix x y assume "x \<in> set (filter (\<lambda>r. committed_rev r \<noteq> None) ?l)" "y \<in> set (filter (\<lambda>r. committed_rev r \<noteq> None) ?l)"
      and "(the \<circ> committed_rev) x = (the \<circ> committed_rev) y"
    then obtain n where xy: "x \<in> set ?l" "y \<in> set ?l" "committed_rev x = Some n" "committed_rev y = Some n" by auto
    with held have "held_at ?h (row_to_event x) n" "held_at ?h (row_to_event y) n" by (auto simp: commits_held_def)
    then obtain cx cy where c: "cx \<in> set ?h" "cy \<in> set ?h" "revision cx = n" "revision cy = n"
      "dedup_key (cevent cx) = dedup_key x" "dedup_key (cevent cy) = dedup_key y"
      by (auto simp: held_at_def)
    moreover have "distinct (map revision ?h)"
      using ok_hist [OF b] strict_sorted_iff by blast
    ultimately have "cx = cy" by (auto simp: distinct_map inj_on_def)
    with c keyed_dedup [OF k xy(1,2)] show "x = y" by simp
  qed
  moreover have "distinct ?l" using k by (auto simp: keyed_def distinct_map)
  ultimately show ?thesis by (simp add: revs_distinct_def List.map_filter_def distinct_map)
qed

lemma synced_agree:
  assumes "synced hist ok s" "synced hist ok t" "en_backend s = en_backend t"
    and "x \<in> set (rp_log (en_db s))" "y \<in> set (rp_log (en_db t))" "dedup_key x = dedup_key y"
    and "committed_rev x = Some m" "committed_rev y = Some n"
  shows "m = n"
proof -
  have "held_at (hist (en_backend s)) (row_to_event x) m" "held_at (hist (en_backend s)) (row_to_event y) n"
    using assms by (auto simp: synced_def commits_held_def)
  then have "held_at (hist (en_backend s)) (row_to_event x) m" "held_at (hist (en_backend s)) (row_to_event x) n"
    using assms(6) by (simp_all add: held_at_def)
  with held_unique assms(1) show ?thesis by (auto simp: synced_def)
qed

lemma synced_keyed: "synced hist ok s \<Longrightarrow> keyed (rp_log (en_db s))"
  by (simp add: synced_def log_keys_def)

end

section \<open>Nothing stays in the outbox\<close>

definition settled :: "pystr \<Rightarrow> 'b engine \<Rightarrow> bool" where
  "settled i s \<longleftrightarrow> (\<exists>r \<in> set (rp_log (en_db s)). event_id r = i \<and> row_state r \<noteq> Pending)"

lemma row_step_id: "row_step r r' \<Longrightarrow> event_id r' = event_id r"
  by (metis row_step_def row_to_event_fields(1))

lemma settled_grows: "settled i s \<Longrightarrow> engine_grows s s' \<Longrightarrow> keyed (rp_log (en_db s)) \<Longrightarrow> settled i s'"
  unfolding settled_def engine_grows_def db_grows_def
  by (metis row_step_def row_step_id log_grows_row)

lemma grows_keyed: "engine_grows s s' \<Longrightarrow> keyed (rp_log (en_db s)) \<Longrightarrow> keyed (rp_log (en_db s'))"
  by (simp add: engine_grows_def)

text \<open>A loop settles what its body settles.\<close>

lemma efold_settles:
  assumes mv: "\<And>x a. moves engine_grows (f x a)" and kd: "\<And>s. P s \<Longrightarrow> keyed (rp_log (en_db s))"
    and body: "\<And>x a s y s'. x \<in> S \<Longrightarrow> f x a s = (Inr y, s') \<Longrightarrow> P s \<Longrightarrow> settled (g x) s'"
    and stable: "\<And>x a. x \<in> S \<Longrightarrow> keeps P (f x a)"
  shows "efold f xs a s = (Inr y, s') \<Longrightarrow> set xs \<subseteq> S \<Longrightarrow> P s \<Longrightarrow> x \<in> set xs \<Longrightarrow> settled (g x) s'"
proof (induction xs arbitrary: a s)
  case (Cons z xs)
  from Cons.prems(1) obtain b t where one: "f z a s = (Inr b, t)" and rest: "efold f xs b t = (Inr y, s')"
    by (auto simp: ebind_Inr)
  have z: "z \<in> S" using Cons.prems(2) by simp
  have P: "P t" using keepsD [OF stable [OF z] one Cons.prems(3)] .
  show ?case
  proof (cases "x = z")
    case True
    have "settled (g z) t" by (rule body [OF z one Cons.prems(3)])
    moreover have "engine_grows t s'" using movesD [OF grow.moves_efold [OF mv] rest] .
    ultimately show ?thesis using settled_grows [of "g z" t s'] kd [OF P] True by simp
  next
    case False
    with Cons.prems(2,4) have "set xs \<subseteq> S" "x \<in> set xs" by simp_all
    with Cons.IH [OF rest _ P] show ?thesis by simp
  qed
qed simp

lemma mark_by_id_settles:
  assumes "mark_committed_by_id i n s = (Inr u, s')" "keyed (rp_log (en_db s))"
    and "\<exists>r \<in> set (rp_log (en_db s)). event_id r = i \<and> coherent r"
  shows "settled i s'"
proof -
  let ?l = "rp_log (en_db s)"
  from assms(3) obtain r where r: "r \<in> set ?l" "event_id r = i" "coherent r" by blast
  then obtain q where q: "event_by_id ?l i = Some q" by (cases "event_by_id ?l i") (auto simp: event_by_id_def find_None_iff)
  have qr: "q = r" using event_by_id_Some [OF q] keyed_id [OF assms(2)] r by blast
  have s': "rp_log (en_db s') = mark_found n (Some r) ?l"
    using assms(1) q by (auto simp: mark_committed_by_id_def ebind_Inr db_get_def set_log_def db_mod_def qr)
  show ?thesis
  proof (cases "committed_rev r")
    case None
    have "mark_row n r \<in> set (update_row (event_id r) (mark_row n) ?l)"
      using r(1) unfolding set_update_row by (rule rev_image_eqI) simp
    with r None show ?thesis
      by (auto simp: settled_def s' mark_found_def mark_row_def intro!: bexI [of _ "mark_row n r"])
  next
    case (Some m)
    with r show ?thesis by (auto simp: settled_def s' mark_found_def coherent_def)
  qed
qed

lemma set_state_settles:
  assumes "set_state st r s = (Inr u, s')" "r \<in> set (rp_log (en_db s))" "st \<noteq> Pending"
  shows "settled (event_id r) s'"
proof -
  have "r\<lparr>row_state := st\<rparr> \<in> set (update_row (event_id r) (\<lambda>r. r\<lparr>row_state := st\<rparr>) (rp_log (en_db s)))"
    using assms(2) unfolding set_update_row by (rule rev_image_eqI) simp
  with assms(1,3) show ?thesis
    by (auto simp: settled_def set_state_def ebind_Inr db_get_def set_log_def db_mod_def
        intro!: bexI [of _ "r\<lparr>row_state := st\<rparr>"])
qed

context backend_port begin

lemma at_least_keyed: "at_least hist ok h E s \<Longrightarrow> keyed (rp_log (en_db s))"
  by (simp add: at_least_def log_inv_def log_keys_def)

lemma at_least_row:
  "at_least hist ok h E s \<Longrightarrow> e \<in> E \<Longrightarrow> \<exists>r \<in> set (rp_log (en_db s)). row_to_event r = e \<and> coherent r"
  by (auto simp: at_least_def log_inv_def log_keys_def)

lemma mark_result_settles:
  assumes "mark_committed_by_id i n s = (Inr u, s')" "at_least hist ok h E s" "e \<in> E" "event_id e = i"
  shows "settled i s'"
proof -
  from at_least_row [OF assms(2,3)] assms(4) have "\<exists>r \<in> set (rp_log (en_db s)). event_id r = i \<and> coherent r"
    by (metis row_to_event_fields(1))
  then show ?thesis using mark_by_id_settles [OF assms(1) at_least_keyed [OF assms(2)]] by blast
qed

lemma count_result_settles:
  assumes "count_result cf r c s = (Inr y, s')" "at_least hist ok h E s" "e \<in> E" "event_id e = cr_event_id r"
    and "held_at h e (cr_revision r)"
  shows "settled (cr_event_id r) s'"
proof -
  from assms(1) obtain t where t: "mark_committed_by_id (cr_event_id r) (cr_revision r) s = (Inr (), t)"
    and rest: "(let c1 = (if cr_status r = Committed_now then c\<lparr>ct_committed := ct_committed c + 1\<rparr> else c);
          c2 = (if cr_stale_base_rev r \<noteq> None then c1\<lparr>ct_stale := ct_stale c1 + 1\<rparr> else c1) in
      if cr_conflicts r = [] then eret c2
      else ebind (mint_conflict_records cf r) (\<lambda>n. eret (c2\<lparr>ct_minted := ct_minted c2 + n\<rparr>))) t = (Inr y, s')"
    by (auto simp: count_result_def eseq_Inr)
  have "keeps (at_least hist ok h E) (mark_committed_by_id (cr_event_id r) (cr_revision r))"
    using assms(3-5) by (intro keeps_mark_result) blast
  from keepsD [OF this t assms(2)] have "keyed (rp_log (en_db t))" by (rule at_least_keyed)
  moreover have "engine_grows t s'" using rest by (rule movesD [rotated]) (intro moves_intros)
  ultimately show ?thesis using settled_grows mark_result_settles [OF t assms(2-4)] by blast
qed

lemma commit_ordinary_settles:
  assumes run: "commit_ordinary cf ordinary c s = (Inr (Inr c'), s')" and port: "cf_port cf = port"
    and s: "at_least hist ok h E s" and E: "row_to_event ` set ordinary \<subseteq> E" and r: "r \<in> set ordinary"
  shows "settled (event_id r) s'"
proof -
  let ?es = "map row_to_event ordinary"
  obtain q b where call: "pt_commit port False ?es (en_backend s) = (q, b)"
    by (cases "pt_commit port False ?es (en_backend s)")
  let ?t = "s\<lparr>en_backend := b\<rparr>"
  from run r port call obtain rs y where q: "q = Inr rs"
    and fold: "efold (count_result cf) rs (c\<lparr>ct_submitted := ct_submitted c + length ordinary\<rparr>) ?t = (Inr y, s')"
    by (auto simp: commit_ordinary_def ebind_Inr eseq_Inr call_def split: if_splits sum.splits port_error.splits)
  have "ok (en_backend s)" using s by (simp add: at_least_def)
  from commit_call [OF this call] q obtain new where b: "ok b" "hist b = hist (en_backend s) @ new"
    "answered False ?es (hist b) rs" by auto
  from at_least_advance [OF s b(1,2)] obtain more where t: "at_least hist ok (h @ more) E ?t" "hist b = h @ more" by blast
  have "set ?es \<subseteq> E" using E by simp
  note in_E = answered_in [OF b(3) [unfolded t(2)] this]
  from b(3) r obtain w where w: "w \<in> set rs" "cr_event_id w = event_id r"
    by (fastforce simp: answered_def list_all2_conv_all_nth in_set_conv_nth)
  have "settled (cr_event_id w) s'"
  proof (rule efold_settles [where P = "at_least hist ok (h @ more) E" and S = "set rs" and g = cr_event_id,
        OF grow.steps_count_result at_least_keyed _ _ fold _ t(1) w(1)])
    fix x a s y s' assume x: "x \<in> set rs" and run: "count_result cf x a s = (Inr y, s')" and s: "at_least hist ok (h @ more) E s"
    from in_E [OF x] obtain e where "e \<in> E" "event_id e = cr_event_id x" "held_at (h @ more) e (cr_revision x)" by blast
    then show "settled (cr_event_id x) s'" by (rule count_result_settles [OF run s])
  next
    fix x a assume "x \<in> set rs"
    then show "keeps (at_least hist ok (h @ more) E) (count_result cf x a)"
      by (intro keeps_count_result [OF port] in_E)
  qed simp_all
  with w(2) show ?thesis by simp
qed

lemma bounce_settles:
  assumes "bounce_proposal cf (row_to_event r) pid True s = (Inr u, s')" "keyed (rp_log (en_db s))" "r \<in> set (rp_log (en_db s))"
  shows "settled (event_id r) s'"
proof -
  from assms(1) obtain t where t: "take_out cf (row_to_event r) s = (Inr (), t)"
    and g: "bounce_flip cf (row_to_event r) pid True t = (Inr u, s')"
    by (auto simp: bounce_proposal_def eseq_Inr)
  from t assms(2,3) obtain v where v: "set_state RebaseRequiredState r s = (Inr (), v)"
    and g': "refold cf (collection r) (entity_id r) v = (Inr (), t)"
    by (auto simp: take_out_def ebind_Inr db_get_def event_row_keyed eseq_Inr)
  have "settled (event_id r) v" by (rule set_state_settles [OF v assms(3)]) simp
  moreover have "engine_grows v s'"
    using movesD [OF grow.steps_refold g'] movesD [OF grow.steps_bounce_flip g] by (rule grow.R_trans)
  moreover have "keyed (rp_log (en_db v))" using grows_keyed [OF movesD [OF grow.steps_set_state v] assms(2)] by simp
  ultimately show ?thesis by (rule settled_grows)
qed

lemma commit_proposal_settles:
  assumes run: "commit_proposal_write cf r pid policy s = (Inr n, s')" and port: "cf_port cf = port"
    and s: "at_least hist ok h E s" and r: "row_to_event r \<in> E"
  shows "settled (event_id r) s'"
proof -
  let ?e = "row_to_event r"
  obtain q b where call: "pt_commit port True [?e] (en_backend s) = (q, b)"
    by (cases "pt_commit port True [?e] (en_backend s)")
  let ?t = "s\<lparr>en_backend := b\<rparr>"
  have "ok (en_backend s)" using s by (simp add: at_least_def)
  note c = commit_call [OF this call]
  from c at_least_advance [OF s] obtain more where t: "at_least hist ok (h @ more) E ?t" by blast
  from at_least_row [OF t r] obtain r' where r': "r' \<in> set (rp_log (en_db ?t))" "row_to_event r' = ?e" by blast
  then have i: "event_id r' = event_id r" by (metis row_to_event_fields(1))
  have k: "keyed (rp_log (en_db ?t))" using at_least_keyed [OF t] .
  note def = run [unfolded commit_proposal_write_def Let_def port ebind_def etry_def call_def call prod.case]
  show ?thesis
  proof (cases q)
    case (Inl x)
    with def obtain u where "bounce_proposal cf ?e pid True ?t = (Inr u, s')"
      by (cases x) (auto simp: eraise_def eseq_Inr)
    then have "settled (event_id r') s'" unfolding r'(2) [symmetric] by (rule bounce_settles) (use k r' in simp_all)
    with i show ?thesis by simp
  next
    case (Inr rs)
    with c obtain w where w: "rs = [w]" "cr_event_id w = event_id r" by (auto simp: answered_def list_all2_Cons1)
    with def Inr obtain v where v: "mark_committed_by_id (event_id r) (cr_revision w) ?t = (Inr (), v)"
      and rest: "(if policy = PROPOSAL_POLICY_STRICT_REBASE \<and> is_stale w
        then eseq (bounce_proposal cf ?e pid False) (eret 1) else eret 0) v = (Inr n, s')"
      by (auto simp: ebind_Inr eseq_Inr)
    have "settled (event_id r) v" by (rule mark_result_settles [OF v t r]) simp
    moreover have "engine_grows v s'" using rest by (rule movesD [rotated]) (intro moves_intros)
    moreover have "keyed (rp_log (en_db v))" using grows_keyed [OF movesD [OF grow.steps_mark(2) v] k] .
    ultimately show ?thesis by (rule settled_grows)
  qed
qed

lemma commit_proposals_settles:
  assumes run: "commit_proposals cf policy rows c s = (Inr c', s')" and port: "cf_port cf = port"
    and s: "at_least hist ok h E s" and E: "row_to_event ` set rows \<subseteq> E" and r: "r \<in> set rows"
  shows "settled (event_id r) s'"
proof (rule efold_settles [where P = "at_least hist ok h E" and S = "set rows" and g = event_id,
      OF _ at_least_keyed _ _ run [unfolded commit_proposals_def] subset_refl s r])
  fix x :: log_row and a s y s'
  assume x: "x \<in> set rows" and s: "at_least hist ok h E s"
    and "(case origin_proposal_id x of None \<Rightarrow> eraise EValueError
      | Some pid \<Rightarrow> ebind (commit_proposal_write cf x pid policy) (\<lambda>n.
          eret (a\<lparr>ct_submitted := ct_submitted a + 1, ct_rebased := ct_rebased a + n\<rparr>))) s = (Inr y, s')"
  then obtain pid n where "commit_proposal_write cf x pid policy s = (Inr n, s')"
    by (auto simp: ebind_Inr split: option.splits)
  then show "settled (event_id x) s'" by (rule commit_proposal_settles [OF _ port s]) (use E x in auto)
next
  fix x a assume "x \<in> set rows"
  then show "keeps (at_least hist ok h E) (case origin_proposal_id x of None \<Rightarrow> eraise EValueError
      | Some pid \<Rightarrow> ebind (commit_proposal_write cf x pid policy) (\<lambda>n.
          eret (a\<lparr>ct_submitted := ct_submitted a + 1, ct_rebased := ct_rebased a + n\<rparr>)))"
    using E by (intro keeps_intros keeps_commit_proposal [OF port]) auto
next
  show "moves engine_grows (case origin_proposal_id x of None \<Rightarrow> eraise EValueError
      | Some pid \<Rightarrow> ebind (commit_proposal_write cf x pid policy) (\<lambda>n.
          eret (a\<lparr>ct_submitted := ct_submitted a + 1, ct_rebased := ct_rebased a + n\<rparr>)))" for x a
    by (intro moves_intros)
qed

text \<open>A row pending at the end was pending at the start, so what the round settled it cannot be.\<close>

lemma settled_not_pushable:
  assumes g: "engine_grows s s'" and s: "at_least hist ok h E s"
    and all: "\<And>r. r \<in> set (pushable_rows cf (rp_log (en_db s))) \<Longrightarrow> settled (event_id r) s'"
  shows "pushable_rows cf (rp_log (en_db s')) = []"
proof -
  let ?l = "rp_log (en_db s)" and ?l' = "rp_log (en_db s')"
  have k: "keyed ?l" "keyed ?l'" using at_least_keyed [OF s] grows_keyed [OF g] by simp_all
  have grows: "log_grows ?l ?l'" using g k(1) by (simp add: engine_grows_def db_grows_def)
  have False if q: "q \<in> set (pushable_rows cf ?l')" for q
  proof -
    from q have q': "q \<in> set ?l'" "row_state q = Pending" "cf_bound cf \<longrightarrow> actor_id q = cf_actor cf"
      by (auto simp: pushable_rows_def set_pending_rows split: if_splits)
    from log_grows_pending [OF grows q'(1,2)] obtain r where r: "r \<in> set ?l" "row_step r q" "row_state r = Pending" by blast
    have "coherent r" using s r(1) by (simp add: at_least_def log_inv_def log_keys_def)
    with r(3) have "committed_rev r = None" by (simp add: coherent_def)
    moreover have "actor_id r = actor_id q" using r(2) by (metis row_step_def row_to_event_fields(2))
    ultimately have "r \<in> set (pushable_rows cf ?l)"
      using r q'(3) by (auto simp: pushable_rows_def set_pending_rows)
    from all [OF this] obtain x where x: "x \<in> set ?l'" "event_id x = event_id r" "row_state x \<noteq> Pending"
      by (auto simp: settled_def)
    with keyed_id [OF k(2) x(1) q'(1)] row_step_id [OF r(2)] q'(2) show False by simp
  qed
  then show ?thesis by (cases "pushable_rows cf ?l'") auto
qed

lemma drain_settles:
  assumes "cf_port cf = port"
  shows "at_least hist ok h E s \<Longrightarrow> drain cf policy n c s = (Inr c', s') \<Longrightarrow> pushable_rows cf (rp_log (en_db s')) = []"
proof (induction n arbitrary: c s h E)
  case (Suc n)
  let ?l = "rp_log (en_db s)"
  let ?p = "pushable_rows cf ?l"
  let ?o = "filter (\<lambda>r. origin_proposal_id r = None) ?p"
  let ?q = "filter (\<lambda>r. origin_proposal_id r \<noteq> None) ?p"
  let ?E = "E \<union> row_to_event ` set ?p"
  have sub: "set ?p \<subseteq> set ?l" by (auto simp: pushable_rows_def set_pending_rows)
  with Suc.prems(1) have s: "at_least hist ok h ?E s" by (auto simp: at_least_def)
  show ?case
  proof (cases "?p = []")
    case True
    with Suc.prems(2) show ?thesis by (simp add: ebind_Inr db_get_def)
  next
    case False
    with Suc.prems(2) obtain x t where o: "commit_ordinary cf ?o c s = (Inr x, t)"
      and rest: "(case x of Inl c \<Rightarrow> drain cf policy n c | Inr c \<Rightarrow> commit_proposals cf policy ?q c) t = (Inr c', s')"
      by (auto simp: ebind_Inr db_get_def simp del: not_None_eq)
    have t: "at_least hist ok h ?E t"
      by (rule keepsD [OF keeps_commit_ordinary [OF assms] o s]) auto
    show ?thesis
    proof (cases x)
      case (Inl c1)
      with rest Suc.IH [OF t] show ?thesis by simp
    next
      case (Inr c1)
      with rest have props: "commit_proposals cf policy ?q c1 t = (Inr c', s')" by simp
      have gt: "engine_grows s t" using movesD [OF grow.steps_commit_ordinary o] .
      have gs: "engine_grows t s'"
        using props unfolding commit_proposals_def by (rule movesD [rotated]) (intro moves_intros)
      have "settled (event_id r) s'" if r: "r \<in> set ?p" for r
      proof (cases "origin_proposal_id r = None")
        case True
        with r have ro: "r \<in> set ?o" by simp
        have "settled (event_id r) t"
          by (rule commit_ordinary_settles [OF o [unfolded Inr] assms s _ ro]) auto
        then show ?thesis using gs at_least_keyed [OF t] by (rule settled_grows)
      next
        case False
        with r have rq: "r \<in> set ?q" by simp
        show ?thesis by (rule commit_proposals_settles [OF props assms t _ rq]) auto
      qed
      with settled_not_pushable [OF grow.R_trans [OF gt gs] s] show ?thesis by blast
    qed
  qed
qed simp

lemma flush_attempt_drained:
  assumes "cf_port cf = port" "at_least hist ok h E s" "flush_attempt cf policy n s = (Inr r, s')"
  shows "fl_drained r"
proof -
  from assms(3) obtain t k c where t: "reconcile_dropped_acks cf s = (Inr k, t)"
    and d: "drain cf policy (Suc (length (pending_rows (rp_log (en_db t))))) no_counts t = (Inr c, s')"
    and r: "fl_drained r = (pushable_rows cf (rp_log (en_db s')) = [])"
    by (auto simp: flush_attempt_def session_def ebind_Inr db_get_def)
  have "at_least hist ok h E t" using keepsD [OF keeps_reconcile [OF assms(1)] t assms(2)] .
  with drain_settles [OF assms(1) this d] r show ?thesis by simp
qed

text \<open>The retry loop: as many sleeps as retries, none longer than the cap, and a result that says the
  outbox is empty or that every attempt was used.\<close>

lemma flush_loop_result:
  assumes "cf_port cf = port"
  shows "flush_loop cf policy b n s = (Inr r, s') \<Longrightarrow> at_least hist ok h E s \<Longrightarrow>
    n < fl_attempts r \<and> fl_attempts r \<le> max (n + 1) (bo_max_attempts b) \<and>
    (fl_drained r \<or> bo_max_attempts b \<le> fl_attempts r)"
  using assms
proof (induction cf policy b n s arbitrary: r s' rule: flush_loop.induct)
  case (1 cf policy b n s)
  obtain q t where a: "flush_attempt cf policy (n + 1) s = (q, t)" by (cases "flush_attempt cf policy (n + 1) s")
  have t: "at_least hist ok h E t" using keepsD [OF keeps_flush_attempt [OF "1.prems"(3)] a "1.prems"(2)] .
  note run = "1.prems"(1) [unfolded flush_loop.simps [of cf policy b n s] a prod.case]
  show ?case
  proof (cases q)
    case (Inr x)
    with run have "r = x" by simp
    moreover have "fl_attempts x = n + 1"
      using a Inr by (auto simp: flush_attempt_def session_def ebind_Inr db_get_def)
    moreover have "fl_drained x" using flush_attempt_drained [OF "1.prems"(3,2)] a Inr by blast
    ultimately show ?thesis by simp
  next
    case (Inl e)
    show ?thesis
    proof (cases "e = EPort PortUnavailable \<and> \<not> bo_max_attempts b \<le> n + 1")
      case True
      let ?t = "t\<lparr>en_slept := en_slept t @ [delay b (n + 1)]\<rparr>"
      have "at_least hist ok h E ?t" using t by (simp add: at_least_def)
      from "1.IH" [OF a [symmetric] Inl _ _ _ this "1.prems"(3)] True run Inl show ?thesis by auto
    next
      case False
      with run Inl show ?thesis by (auto simp: give_up_def db_get_def split: if_splits)
    qed
  qed
qed

lemma flush_outbox_result:
  assumes "cf_port cf = port" "flush_outbox cf b policy s = (Inr r, s')" "at_least hist ok h E s"
  shows "1 \<le> fl_attempts r \<and> fl_attempts r \<le> max 1 (bo_max_attempts b) \<and>
    (fl_drained r \<or> bo_max_attempts b \<le> fl_attempts r)"
proof -
  from assms(2) obtain p t where t: "negotiate_session cf s = (Inr p, t)" "flush_loop cf policy b 0 t = (Inr r, s')"
    by (auto simp: flush_outbox_def ebind_Inr split: if_splits)
  have "at_least hist ok h E t" using keepsD [OF keeps_negotiate [OF assms(1)] t(1) assms(3)] .
  from flush_loop_result [OF assms(1) t(2) this] show ?thesis by simp
qed

end

lemma delay_cap: "delay b n \<le> bo_cap b"
  by (simp add: delay_def)

end
