(* ===== verification/Inbox.thy ===== *)
theory Inbox
  imports Delivery
begin

text \<open>
  What a pull delivers: every committed event above the cursor ends up in the log with the
  backend's own commit order, the cursor ends on the highest of them, and pulling again changes
  nothing.  A peer too far away is refused before anything but the audit row is written, and a
  compare-and-swap the backend refuses leaves the replica as it was.
\<close>

section \<open>What the engine keeps to itself\<close>

text \<open>Nothing but the handshake touches the memo, nothing but the retry loop sleeps.\<close>

definition outside :: "'b engine \<Rightarrow> 'b engine \<Rightarrow> bool" where
  "outside s s' \<longleftrightarrow> en_session s' = en_session s \<and> en_slept s' = en_slept s"

interpretation outer: progress outside
  by unfold_locales (auto simp: outside_def)

lemma outside_db [moves_intros]: "moves outside (db_mod f)" "moves outside (db_get g)" "moves outside (set_log l)"
  by (simp_all add: moves_def db_mod_def emod_def outside_def db_get_def eget_def set_log_def)

lemma outside_fresh [moves_intros]: "moves outside (fresh cf)"
  by (simp add: moves_def fresh_def outside_def)

lemma outside_call [moves_intros]: "moves outside (call f)"
  by (simp add: moves_def call_def outside_def split: prod.splits sum.splits)

lemma outside_session [moves_intros]: "moves outside m \<Longrightarrow> moves outside (session m)"
  unfolding session_def by (rule outer.moves_etrans) (simp_all add: outside_def)

lemma outside_audit [moves_intros]: "moves outside (audit cf a act src obj after)"
  unfolding audit_def by (intro moves_intros)

lemma outside_refold [moves_intros]: "moves outside (refold cf c e)" "moves outside (refold_all cf touched)"
  unfolding refold_all_def refold_def by (intro moves_intros)+

lemma outside_mark [moves_intros]: "moves outside (mark_committed e n)"
  unfolding mark_committed_def by (intro moves_intros)

lemma outside_insert [moves_intros]: "moves outside (log_insert e n)"
  unfolding log_insert_def by (intro moves_intros)

lemma outside_cursor [moves_intros]: "moves outside (cursor cf k)" "moves outside (ack_cursor cf k n)"
  unfolding cursor_def ack_cursor_def by (intro moves_intros)+

section \<open>A successful pull\<close>

lemma negotiated: "en_session s = Some p \<Longrightarrow> negotiate_session cf s = (Inr p, s)"
  by (simp add: negotiate_session_def ebind_def eget_def eret_def)

lemma pull_parts:
  assumes "Engine.pull cf c s = (Inr r, s')" "en_session s = Some p"
  obtains since batch b applied own touched high t u v where
    "cursor cf (collection_key c) s = (Inr since, s)"
    "pt_pull (cf_port cf) c since (en_backend s) = (Inr batch, b)"
    "t = s\<lparr>en_backend := b\<rparr>"
    "efold (ingest_entry cf) batch (0, 0, [], since) t = (Inr (applied, own, touched, high), u)"
    "refold_all cf touched u = (Inr (), v)"
    "ack_cursor cf (collection_key c) high v = (Inr (), s')"
    "r = \<lparr>pl_received = length batch, pl_applied = applied, pl_own_reconciled = own, pl_cursor = high\<rparr>"
proof -
  have "session (
       ebind (cursor cf (collection_key c)) (\<lambda>since.
       ebind (call (pt_pull (cf_port cf) c since)) (\<lambda>batch.
       ebind (efold (ingest_entry cf) batch (0, 0, [], since)) (\<lambda>(applied, own, touched, highest).
       eseq (refold_all cf touched)
       (eseq (ack_cursor cf (collection_key c) highest)
         (eret \<lparr>pl_received = length batch, pl_applied = applied, pl_own_reconciled = own, pl_cursor = highest\<rparr>)))))) s
     = (Inr r, s')"
    using assms(1) unfolding Engine.pull_def ebind_def [of "negotiate_session cf"] negotiated [OF assms(2)] by simp
  then show thesis using that
    by (fastforce simp: session_def ebind_Inr eseq_Inr call_def cursor_def db_get_def split: prod.splits sum.splits)
qed

definition has_committed :: "event \<Rightarrow> log \<Rightarrow> bool" where
  "has_committed e l \<longleftrightarrow> (\<exists>r \<in> set l. dedup_key r = dedup_key e \<and> committed_rev r \<noteq> None)"

lemma has_committed_grows: "has_committed e l \<Longrightarrow> log_grows l l' \<Longrightarrow> has_committed e l'"
  unfolding has_committed_def by (metis log_grows_row row_step_def row_to_event_fields(6))

lemma ingest_entry_commits:
  assumes "ingest_entry cf entry acc s = (Inr acc', s')" "keyed (rp_log (en_db s))"
  shows "has_committed (cevent entry) (rp_log (en_db s'))"
    "snd (snd (snd acc')) = max (snd (snd (snd acc))) (revision entry)"
proof -
  let ?e = "cevent entry" and ?l = "rp_log (en_db s)"
  obtain applied own touched high where acc: "acc = (applied, own, touched, high)" by (cases acc)
  note run = assms(1) [unfolded ingest_entry_def acc Let_def prod.case ebind_def db_get_def eget_def]
  show "snd (snd (snd acc')) = max (snd (snd (snd acc))) (revision entry)"
    using run by (auto simp: acc eseq_Inr split: if_splits)
  show "has_committed ?e (rp_log (en_db s'))"
  proof (cases "has_event ?l (actor_id ?e) (actor_seq ?e)")
    case True
    with run have "mark_committed ?e (revision entry) s = (Inr (), s')" by (auto simp: eseq_Inr)
    then have s': "rp_log (en_db s') = mark_found (revision entry) (event_row ?l (actor_id ?e) (actor_seq ?e)) ?l"
      by (auto simp: mark_committed_def ebind_Inr db_get_def set_log_def db_mod_def)
    from True obtain r where r: "event_row ?l (actor_id ?e) (actor_seq ?e) = Some r"
      by (cases "event_row ?l (actor_id ?e) (actor_seq ?e)") (auto simp: event_row_def has_event_def find_None_iff)
    note f = event_row_Some [OF r]
    show ?thesis
    proof (cases "committed_rev r")
      case None
      have "mark_row (revision entry) r \<in> set (update_row (event_id r) (mark_row (revision entry)) ?l)"
        using f unfolding set_update_row by (intro rev_image_eqI [of r]) simp_all
      with None r f show ?thesis
        by (auto simp: has_committed_def s' mark_found_def dedup_key_def mark_row_def
            intro!: bexI [of _ "mark_row (revision entry) r"])
    next
      case (Some m)
      with r f show ?thesis by (auto simp: has_committed_def s' mark_found_def dedup_key_def)
    qed
  next
    case False
    with run obtain t where t: "log_insert ?e (revision entry) s = (Inr (), t)"
      and rest: "audit cf (actor_id ?e) (rstrip_s (collection ?e) @ lit ''.sync'') (lit ''sync'')
        (ref_str (collection ?e) (entity_id ?e)) (payload ?e) t = (Inr (), s')"
      by (auto simp: eseq_Inr)
    have "rp_log (en_db t) = ?l @ [make_row ?e (Some (revision entry)) None]"
      using t by (auto simp: log_insert_def ebind_Inr db_get_def set_log_def db_mod_def insert_event_Inr)
    moreover have "rp_log (en_db s') = rp_log (en_db t)" using movesD [OF still_audit rest] by (simp add: still_def)
    ultimately show ?thesis by (simp add: has_committed_def)
  qed
qed

lemma ingest_batch:
  "efold (ingest_entry cf) batch acc s = (Inr acc', s') \<Longrightarrow> keyed (rp_log (en_db s)) \<Longrightarrow>
   (\<forall>ce \<in> set batch. has_committed (cevent ce) (rp_log (en_db s'))) \<and>
   snd (snd (snd acc)) \<le> snd (snd (snd acc')) \<and> (\<forall>ce \<in> set batch. revision ce \<le> snd (snd (snd acc')))"
proof (induction batch arbitrary: acc s)
  case (Cons ce batch)
  then obtain acc1 t where one: "ingest_entry cf ce acc s = (Inr acc1, t)"
    and rest: "efold (ingest_entry cf) batch acc1 t = (Inr acc', s')"
    by (auto simp: ebind_Inr)
  have m: "moves engine_grows (ingest_entry cf ce acc)" for ce acc unfolding ingest_entry_def by (intro moves_intros)
  have k: "keyed (rp_log (en_db t))" using grows_keyed [OF movesD [OF m one] Cons.prems(2)] .
  note IH = Cons.IH [OF rest k] and here = ingest_entry_commits [OF one Cons.prems(2)]
  have "log_grows (rp_log (en_db t)) (rp_log (en_db s'))"
    using movesD [OF grow.moves_efold [OF m] rest] k by (simp add: engine_grows_def db_grows_def)
  with IH here has_committed_grows show ?case by auto
qed simp

lemma ack_cursor_reads:
  assumes "ack_cursor cf k n s = (Inr u, s')" "cursor cf k s = (Inr m, s)" "m \<le> n"
  shows "dget (rp_cursors (en_db s')) (k, cf_actor cf) = Some n" "rp_log (en_db s') = rp_log (en_db s)"
  using assms by (auto simp: ack_cursor_def cursor_def db_mod_def db_get_def split: option.splits if_splits)

text \<open>Ingest touches neither the backend nor the cursors.\<close>

definition local :: "'b engine \<Rightarrow> 'b engine \<Rightarrow> bool" where
  "local s s' \<longleftrightarrow> en_backend s' = en_backend s \<and> rp_cursors (en_db s') = rp_cursors (en_db s)"

interpretation inner: progress local
  by unfold_locales (auto simp: local_def)

lemma local_db [moves_intros]: "(\<And>d. rp_cursors (f d) = rp_cursors d) \<Longrightarrow> moves local (db_mod f)"
  "moves local (db_get g)" "moves local (set_log l)"
  by (simp_all add: moves_def db_mod_def emod_def local_def db_get_def eget_def set_log_def)

lemma local_fresh [moves_intros]: "moves local (fresh cf)"
  by (simp add: moves_def fresh_def local_def)

lemma local_audit [moves_intros]: "moves local (audit cf a act src obj after)"
  unfolding audit_def by (intro moves_intros) simp

lemma local_refold [moves_intros]: "moves local (refold cf c e)" "moves local (refold_all cf touched)"
  unfolding refold_all_def refold_def by (intro moves_intros; simp)+

lemma local_ingest [moves_intros]: "moves local (ingest_entry cf ce acc)"
  unfolding ingest_entry_def mark_committed_def log_insert_def by (intro moves_intros)

lemma cursor_local: "local s s' \<Longrightarrow> cursor cf k s = (Inr n, s) \<Longrightarrow> cursor cf k s' = (Inr n, s')"
  by (simp add: local_def cursor_def db_get_def)

context backend_port begin

lemma pull_complete:
  assumes port: "cf_port cf = port" and s: "at_least hist ok h E s" and memo: "en_session s = Some p"
    and run: "Engine.pull cf c s = (Inr r, s')" and since: "cursor cf (collection_key c) s = (Inr since, s)"
  shows "\<forall>ce \<in> set (after_cursor c since (hist (en_backend s))). revision ce \<le> pl_cursor r \<and>
      (\<exists>row \<in> set (rp_log (en_db s')). dedup_key row = dedup_key (cevent ce) \<and> committed_rev row = Some (revision ce))"
    and "dget (rp_cursors (en_db s')) (collection_key c, cf_actor cf) = Some (pl_cursor r)" and "since \<le> pl_cursor r"
    and "hist (en_backend s') = hist (en_backend s)"
    and "pl_received r = length (after_cursor c since (hist (en_backend s)))"
proof -
  obtain since' batch b applied own touched high t u v where
    since': "cursor cf (collection_key c) s = (Inr since', s)"
    and call': "pt_pull (cf_port cf) c since' (en_backend s) = (Inr batch, b)" and t: "t = s\<lparr>en_backend := b\<rparr>"
    and ing': "efold (ingest_entry cf) batch (0, 0, [], since') t = (Inr (applied, own, touched, high), u)"
    and ref: "refold_all cf touched u = (Inr (), v)" and ack: "ack_cursor cf (collection_key c) high v = (Inr (), s')"
    and r: "r = \<lparr>pl_received = length batch, pl_applied = applied, pl_own_reconciled = own, pl_cursor = high\<rparr>"
    by (rule pull_parts [OF run memo])
  have "since' = since" using since' since by simp
  note call = call' [unfolded port this] and ing = ing' [unfolded this]
  have okb: "ok (en_backend s)" using s by (simp add: at_least_def)
  have batch: "batch = after_cursor c since (hist (en_backend s))" using pull_answers [OF okb call] .
  have b: "hist b = hist (en_backend s)" using ok_pull [OF okb call] by auto
  have k: "keyed (rp_log (en_db t))" using at_least_keyed [OF s] by (simp add: t)
  note ib = ingest_batch [OF ing k]
  have loc: "local t v" using movesD [OF inner.moves_efold [OF local_ingest] ing] movesD [OF local_refold(2) ref]
    by (rule inner.R_trans)
  show high: "since \<le> pl_cursor r" using ib by (simp add: r)
  show "pl_received r = length (after_cursor c since (hist (en_backend s)))" by (simp add: r batch)
  have "cursor cf (collection_key c) t = (Inr since, t)"
    using since by (simp add: t cursor_def db_get_def)
  note cur = ack_cursor_reads [OF ack cursor_local [OF loc this]]
  show "dget (rp_cursors (en_db s')) (collection_key c, cf_actor cf) = Some (pl_cursor r)" using cur(1) high by (simp add: r)
  have "en_backend s' = en_backend v" using movesD [OF still_ack_cursor ack] by (simp add: still_def)
  with loc show hist: "hist (en_backend s') = hist (en_backend s)" by (simp add: local_def t b)
  have s': "at_least hist ok h E s'" using keepsD [OF keeps_pull [OF port] run s] .
  show "\<forall>ce \<in> set (after_cursor c since (hist (en_backend s))). revision ce \<le> pl_cursor r \<and>
      (\<exists>row \<in> set (rp_log (en_db s')). dedup_key row = dedup_key (cevent ce) \<and> committed_rev row = Some (revision ce))"
  proof
    fix ce assume ce: "ce \<in> set (after_cursor c since (hist (en_backend s)))"
    have "rp_log (en_db s') = rp_log (en_db u)"
      using cur(2) high movesD [OF still_refold_all ref] by (simp add: r still_def)
    with ib ce obtain row n where row: "row \<in> set (rp_log (en_db s'))" "dedup_key row = dedup_key (cevent ce)"
      "committed_rev row = Some n"
      by (fastforce simp: batch has_committed_def)
    from row s' have "held_at (hist (en_backend s')) (row_to_event row) n"
      by (auto simp: at_least_def log_inv_def commits_held_def)
    then have "held_at (hist (en_backend s')) (cevent ce) n" by (simp add: held_at_def row(2))
    moreover have "held_at (hist (en_backend s')) (cevent ce) (revision ce)"
      using ce by (auto simp: hist after_cursor_def held_at_def)
    ultimately have "n = revision ce" using held_unique s' by (auto simp: at_least_def)
    with row ib ce show "revision ce \<le> pl_cursor r \<and>
      (\<exists>row \<in> set (rp_log (en_db s')). dedup_key row = dedup_key (cevent ce) \<and> committed_rev row = Some (revision ce))"
      by (auto simp: batch r)
  qed
qed

lemma pull_keeps_memo:
  assumes "Engine.pull cf c s = (r, s')" "en_session s = Some p"
  shows "en_session s' = Some p"
proof -
  have i: "moves outside (ingest_entry cf ce acc)" for ce acc
    unfolding ingest_entry_def by (intro moves_intros)
  have "outside s s'"
    using assms(1) unfolding Engine.pull_def ebind_def [of "negotiate_session cf"] negotiated [OF assms(2)] prod.case sum.case
    by (rule movesD [rotated]) (intro moves_intros i)
  with assms(2) show ?thesis by (simp add: outside_def)
qed

lemma pull_twice:
  assumes port: "cf_port cf = port" and s: "at_least hist ok h E s" and memo: "en_session s = Some p"
    and one: "Engine.pull cf c s = (Inr r, s')" and two: "Engine.pull cf c s' = (Inr r', s'')"
  shows "pl_received r' = 0" "pl_cursor r' = pl_cursor r" "en_db s'' = en_db s'"
proof -
  obtain since where since: "cursor cf (collection_key c) s = (Inr since, s)" by (simp add: cursor_def db_get_def)
  note first = pull_complete [OF port s memo one since]
  have s': "at_least hist ok h E s'" using keepsD [OF keeps_pull [OF port] one s] .
  have memo': "en_session s' = Some p" using pull_keeps_memo [OF one memo] .
  have at: "cursor cf (collection_key c) s' = (Inr (pl_cursor r), s')"
    using first(2) by (simp add: cursor_def db_get_def)
  note second = pull_complete [OF port s' memo' two at]
  have "after_cursor c (pl_cursor r) (hist (en_backend s')) = []"
    using first(1,3,4) by (fastforce simp: after_cursor_def filter_empty_conv)
  with second show "pl_received r' = 0" by simp
  obtain since' batch b applied own touched high t u v where
    since': "cursor cf (collection_key c) s' = (Inr since', s')"
    and "pt_pull (cf_port cf) c since' (en_backend s') = (Inr batch, b)" and t: "t = s'\<lparr>en_backend := b\<rparr>"
    and ing: "efold (ingest_entry cf) batch (0, 0, [], since') t = (Inr (applied, own, touched, high), u)"
    and ref: "refold_all cf touched u = (Inr (), v)" and ack: "ack_cursor cf (collection_key c) high v = (Inr (), s'')"
    and r': "r' = \<lparr>pl_received = length batch, pl_applied = applied, pl_own_reconciled = own, pl_cursor = high\<rparr>"
    by (rule pull_parts [OF two memo'])
  have "since' = pl_cursor r" using since' at by simp
  note ing = ing [unfolded this]
  from \<open>pl_received r' = 0\<close> r' have "batch = []" by simp
  with ing ref have e: "high = pl_cursor r" "v = t" by (auto simp: refold_all_def)
  then show "pl_cursor r' = pl_cursor r" by (simp add: r')
  show "en_db s'' = en_db s'"
    using ack first(2) by (simp add: e t ack_cursor_def db_mod_def)
qed

end

section \<open>Refusals\<close>

definition same_data :: "'b engine \<Rightarrow> 'b engine \<Rightarrow> bool" where
  "same_data s s' \<longleftrightarrow> rp_log (en_db s') = rp_log (en_db s) \<and> rp_tables (en_db s') = rp_tables (en_db s) \<and>
     rp_cursors (en_db s') = rp_cursors (en_db s)"

text \<open>A peer out of range: the handshake fails with nothing but the audit row written.\<close>

lemma negotiate_refused:
  assumes "en_session s = None" "pt_session_init (cf_port cf) = Some init"
    and "init SYNC_VERSION EXPECTED_SCHEMA_VERSION (en_backend s) = (Inr peer, b)"
    and "SYNC_VERSION_SKEW < \<bar>si_sync_version peer - SYNC_VERSION\<bar>"
  shows "\<exists>e s'. negotiate_session cf s = (Inl e, s') \<and> same_data s s' \<and> en_backend s' = b \<and>
    (e = EVersion peer \<and> (\<exists>row. rp_trail (en_db s') = rp_trail (en_db s) @ [row] \<and>
        ar_action row = lit ''sync.version_rejected'') \<or>
     (\<exists>x. e = EAudit x) \<and> en_db s' = en_db s)"
proof -
  let ?t = "s\<lparr>en_backend := b\<rparr>"
  obtain q u where a: "audit_version_reject cf peer ?t = (q, u)" by (cases "audit_version_reject cf peer ?t")
  let ?w = "audit_write (cf_H cf) (cf_env cf (en_fresh s)) (cf_actor cf) (lit ''sync.version_rejected'') (lit ''sync'')
    (Some (lit ''sync/session'')) None (Some (versions_payload peer)) (rp_trail (en_db s))"
  have n: "negotiate_session cf s = (case q of Inl e \<Rightarrow> (Inl e, u) | Inr _ \<Rightarrow> (Inl (EVersion peer), u))"
    using assms a by (simp add: negotiate_session_def ebind_def eget_def call_def eseq_def eraise_def split: sum.split)
  show ?thesis
  proof (cases ?w)
    case (Inl x)
    with a have "q = Inl (EAudit x)" "en_db u = en_db s" "en_backend u = b"
      by (auto simp: audit_version_reject_def session_def etrans_def audit_def ebind_def fresh_def db_get_def eget_def elift_def)
    with n show ?thesis by (simp add: same_data_def)
  next
    case (Inr rt)
    obtain row t' where rt: "rt = (row, t')" by (cases rt)
    note w = audit_write_Inr [OF Inr [unfolded rt]]
    from a Inr rt have "q = Inr ()" "en_db u = (en_db s)\<lparr>rp_trail := t'\<rparr>" "en_backend u = b"
      by (auto simp: audit_version_reject_def session_def etrans_def audit_def ebind_def fresh_def db_get_def eget_def
          elift_def db_mod_def emod_def)
    with n w(1,4) show ?thesis by (simp add: same_data_def)
  qed
qed

lemma operations_refused:
  assumes "negotiate_session cf s = (Inl e, s')"
  shows "Engine.pull cf c s = (Inl e, s')" "Engine.push cf s = (Inl e, s')"
    "policy \<in> set PROPOSAL_STALE_POLICIES \<Longrightarrow> flush_outbox cf b policy s = (Inl e, s')"
  using assms by (simp_all add: Engine.pull_def Engine.push_def flush_outbox_def ebind_def)

text \<open>Building a signed event only uses up an identifier.\<close>

definition same_world :: "'b engine \<Rightarrow> 'b engine \<Rightarrow> bool" where
  "same_world s s' \<longleftrightarrow> en_db s' = en_db s \<and> en_backend s' = en_backend s"

interpretation world: progress same_world
  by unfold_locales (auto simp: same_world_def)

lemma world_signed_event: "moves same_world (signed_event cf c e p base n)"
  unfolding signed_event_def sign_if_def
  by (intro moves_intros) (simp_all add: moves_def fresh_def same_world_def)

context backend_port begin

text \<open>A refused resolution changes neither the replica nor the history.\<close>

lemma resolve_refused:
  assumes "resolve_conflict cf cid choice v by' stamp s = (Inr r, s')" "rr_rebase_required r"
    and "cf_port cf = port" "ok (en_backend s)"
  shows "en_db s' = en_db s" "hist (en_backend s') = hist (en_backend s)" "\<not> rr_resolved r"
proof -
  obtain rec resolver where "resolve_record cf cid rec choice v resolver stamp s = (Inr r, s')"
    using assms(1,2)
    by (auto simp: resolve_conflict_def Let_def session_def ebind_Inr db_get_def split: if_splits option.splits)
  then obtain c eid fld head val n x t y u where x: "signed_event cf c eid [(fld, val)] (Some head) n s = (Inr x, t)"
    and y: "signed_event cf (lit ''conflict_records'') cid (resolution_payload resolver choice stamp) None (n + 1) t = (Inr y, u)"
    and rest: "ebind (etry (call (pt_commit port True [x, y]))) (\<lambda>res.
      case res of
       Inl x \<Rightarrow>
         (case x of
            EPort (PortRebase _ _) \<Rightarrow> eret \<lparr>rr_conflict_id = cid, rr_resolved = False, rr_rebase_required = True\<rparr>
          | _ \<Rightarrow> eraise x)
     | Inr committed \<Rightarrow>
         eseq (efor (apply_resolution cf committed) [x, y])
         (eseq (audit cf resolver (lit ''conflict.resolved'') (lit ''app'') (ref_str (lit ''conflict_records'') cid)
            [(lit ''collection'', PStr c), (lit ''entity_id'', PStr eid), (lit ''field'', PStr fld),
             (lit ''choice'', PStr choice), (lit ''resolved_value'', val)])
           (eret \<lparr>rr_conflict_id = cid, rr_resolved = True, rr_rebase_required = False\<rparr>))) u = (Inr r, s')"
    unfolding resolve_record_def ebind_Inr elift_Inr db_get_def eget_Inr assms(3) by blast
  have w: "en_db u = en_db s" "en_backend u = en_backend s"
    using movesD [OF world_signed_event x] movesD [OF world_signed_event y] by (simp_all add: same_world_def)
  obtain q b where call: "pt_commit port True [x, y] (en_backend s) = (q, b)" by (cases "pt_commit port True [x, y] (en_backend s)")
  have "(\<exists>e. q = Inl e) \<and> s' = u\<lparr>en_backend := b\<rparr> \<and> \<not> rr_resolved r"
    using rest call w(2) assms(2)
    by (cases q) (auto simp: ebind_Inr eseq_Inr call_def eret_def split: port_error.splits)
  with w commit_error [OF assms(4)] call show "en_db s' = en_db s" "hist (en_backend s') = hist (en_backend s)" "\<not> rr_resolved r"
    by auto
qed

end

section \<open>Stale proposals\<close>

lemma sign_if_event: "sign_if cf e s = (Inr x, s') \<Longrightarrow> x = e\<lparr>sig := sig x\<rparr>"
proof (cases "cf_signer cf")
  case (Some k)
  assume "sign_if cf e s = (Inr x, s')"
  with Some have "sign (cf_ed cf) e (signer_key k) = Inr x" by (simp add: sign_if_def)
  then show ?thesis by (rule sign_fields)
qed (simp add: sign_if_def)

lemma signed_event_fields:
  assumes "signed_event cf c i p base n s = (Inr x, s')"
  shows "collection x = c" "entity_id x = i" "payload x = p" "actor_id x = cf_actor cf" "actor_seq x = n"
    "base_rev x = base"
proof -
  from assms obtain v :: env and t where "sign_if cf \<lparr>event_id = env_id v, collection = c, entity_id = i, actor_id = cf_actor cf,
      actor_seq = n, op = op_patch, base_rev = base, policy_ref = map_option signer_policy (cf_signer cf),
      payload = p, sig = None\<rparr> t = (Inr x, s')"
    by (auto simp only: signed_event_def ebind_Inr)
  note x = sign_if_event [OF this]
  show "collection x = c" "entity_id x = i" "payload x = p" "actor_id x = cf_actor cf" "actor_seq x = n"
    "base_rev x = base" using x by (cases x; simp)+
qed

lemma local_take_out [moves_intros]: "moves local (take_out cf e)"
  unfolding take_out_def set_state_def by (intro moves_intros)

lemma local_insert_if_absent [moves_intros]: "moves local (insert_if_absent e n)"
  unfolding insert_if_absent_def log_insert_def by (intro moves_intros)

definition rebase_flip :: "payload" where
  "rebase_flip = [(lit ''status'', PStr (lit ''rebase_required''))]"

context backend_port begin

lemma bounce_history:
  assumes run: "bounce_proposal cf e pid reverted s = (Inr u, s')" and port: "cf_port cf = port" and b: "ok (en_backend s)"
  shows "\<exists>new. hist (en_backend s') = hist (en_backend s) @ new \<and> (\<forall>ce \<in> set new.
    collection (cevent ce) = lit ''agent_proposals'' \<and> entity_id (cevent ce) = pid \<and> payload (cevent ce) = rebase_flip)"
proof -
  from run obtain t where t: "(if reverted then take_out cf e else eret ()) s = (Inr (), t)"
    and flip: "bounce_flip cf e pid reverted t = (Inr u, s')"
    by (auto simp: bounce_proposal_def eseq_Inr)
  have "local s t" using t by (rule movesD [rotated]) (intro moves_intros)
  then have bt: "en_backend t = en_backend s" by (simp add: local_def)
  from flip obtain x base n v rs w where x: "signed_event cf (lit ''agent_proposals'') pid rebase_flip base n t = (Inr x, v)"
    and call: "call (pt_commit port False [x]) v = (Inr rs, w)"
    and rest: "eseq (efor (\<lambda>r. insert_if_absent x (cr_revision r)) rs)
      (eseq (refold cf (lit ''agent_proposals'') pid)
      (ebind (db_get (\<lambda>d. get_row (rp_tables d) AgentProposal pid)) (\<lambda>proposal.
       audit cf (cf_actor cf) (lit ''proposal.rebase_required'') (lit ''sync'')
         (ref_str (lit ''agent_proposals'') pid) (bounce_audit e reverted proposal)))) w = (Inr u, s')"
    unfolding bounce_flip_def ebind_Inr db_get_def eget_Inr port rebase_flip_def by blast
  have bv: "en_backend v = en_backend s" using movesD [OF world_signed_event x] bt by (simp add: same_world_def)
  from call have run: "pt_commit port False [x] (en_backend s) = (Inr rs, en_backend w)"
    by (auto simp: call_def bv split: prod.splits sum.splits)
  have "local w s'" using rest by (rule movesD [rotated]) (intro moves_intros)
  moreover from commit_answers [OF b run] obtain new where "hist (en_backend w) = hist (en_backend s) @ new"
    "set (map cevent new) \<subseteq> {x}" by auto
  ultimately show ?thesis using signed_event_fields [OF x] by (auto simp: local_def)
qed

lemma stale_proposal_never_lands:
  assumes run: "commit_proposal_write cf row pid policy s = (Inr n, s')" and port: "cf_port cf = port"
    and b: "ok (en_backend s)" and stale: "pt_commit port True [row_to_event row] (en_backend s) = (Inl (PortRebase e cs), b')"
  shows "n = 1" "\<exists>new. hist (en_backend s') = hist (en_backend s) @ new \<and> (\<forall>ce \<in> set new.
    collection (cevent ce) = lit ''agent_proposals'' \<and> entity_id (cevent ce) = pid \<and> payload (cevent ce) = rebase_flip)"
proof -
  have *: "eseq (bounce_proposal cf (row_to_event row) pid True) (eret 1) (s\<lparr>en_backend := b'\<rparr>) = (Inr n, s')"
    using run by (simp add: commit_proposal_write_def Let_def port ebind_def etry_def call_def stale)
  then show "n = 1" by (auto simp: eseq_Inr)
  from * have "bounce_proposal cf (row_to_event row) pid True (s\<lparr>en_backend := b'\<rparr>) = (Inr (), s')" by (auto simp: eseq_Inr)
  from bounce_history [OF this port] show "\<exists>new. hist (en_backend s') = hist (en_backend s) @ new \<and> (\<forall>ce \<in> set new.
    collection (cevent ce) = lit ''agent_proposals'' \<and> entity_id (cevent ce) = pid \<and> payload (cevent ce) = rebase_flip)"
    using ok_commit [OF b stale] commit_error [OF b stale] by simp
qed

end

section \<open>Two holes\<close>

text \<open>The rejection of a proposal's write is not caught: the flush raises and rolls back, every time.\<close>

lemma rejected_proposal_raises:
  assumes "en_session s = Some p" "policy \<in> set PROPOSAL_STALE_POLICIES"
    and "pushable_rows cf (rp_log (en_db s)) = row # rows" "\<forall>r \<in> set (row # rows). origin_proposal_id r \<noteq> None"
    and "\<And>since. pt_pull (cf_port cf) None since (en_backend s) = (Inr [], b)"
    and "pt_commit (cf_port cf) True [row_to_event row] b = (Inl (PortRejected e code prose), b')"
  shows "\<exists>s'. flush_outbox cf bo policy s = (Inl (EPort (PortRejected e code prose)), s') \<and> en_db s' = en_db s"
proof -
  have o: "filter (\<lambda>r. origin_proposal_id r = None) (row # rows) = []"
    "filter (\<lambda>r. origin_proposal_id r \<noteq> None) (row # rows) = row # rows"
    using assms(4) by (auto simp: filter_empty_conv filter_id_conv simp del: filter.simps)
  obtain pid where pid: "origin_proposal_id row = Some pid" using assms(4) by auto
  let ?t = "s\<lparr>en_backend := b\<rparr>"
  have rec: "reconcile_dropped_acks cf s = (Inr 0, ?t)"
    by (simp add: reconcile_dropped_acks_def cursor_def db_get_def ebind_def eget_def call_def assms(5) eret_def
        refold_all_def eseq_def)
  have "commit_proposal_write cf row pid policy ?t = (Inl (EPort (PortRejected e code prose)), ?t\<lparr>en_backend := b'\<rparr>)"
    by (simp add: commit_proposal_write_def Let_def ebind_def etry_def call_def assms(6) eraise_def)
  then have "drain cf policy (Suc n) c ?t = (Inl (EPort (PortRejected e code prose)), ?t\<lparr>en_backend := b'\<rparr>)" for n c
    by (simp add: ebind_def db_get_def eget_def assms(3) o commit_ordinary_def eret_def commit_proposals_def pid
        del: filter.simps not_None_eq)
  with rec have "flush_attempt cf policy 1 s = (Inl (EPort (PortRejected e code prose)), ?t\<lparr>en_backend := b', en_db := en_db s\<rparr>)"
    by (simp add: flush_attempt_def session_def etrans_def ebind_def db_get_def eget_def del: drain.simps)
  then show ?thesis
    using assms(2) by (simp add: flush_outbox_def ebind_def negotiated [OF assms(1)] flush_loop.simps)
qed

text \<open>What a dropped acknowledgement backfills is committed without a conflict record being minted.\<close>

definition same_events :: "'b engine \<Rightarrow> 'b engine \<Rightarrow> bool" where
  "same_events s s' \<longleftrightarrow> map row_to_event (rp_log (en_db s')) = map row_to_event (rp_log (en_db s)) \<and>
     en_notified s' = en_notified s"

interpretation events: progress same_events
  by unfold_locales (auto simp: same_events_def)

lemma events_db [moves_intros]: "(\<And>d. map row_to_event (rp_log (f d)) = map row_to_event (rp_log d)) \<Longrightarrow> moves same_events (db_mod f)"
  "moves same_events (db_get g)"
  by (simp_all add: moves_def db_mod_def emod_def same_events_def db_get_def eget_def)

lemma events_mark [moves_intros]: "moves same_events (mark_committed e n)"
proof -
  have "map row_to_event (mark_found n found l) = map row_to_event l" for found l
    by (auto simp: mark_found_def update_row_def split: option.splits)
  then show ?thesis
    by (auto simp: moves_def mark_committed_def ebind_def db_get_def eget_def set_log_def db_mod_def emod_def same_events_def)
qed

lemma events_refold [moves_intros]: "moves same_events (refold_all cf touched)"
  unfolding refold_all_def refold_def fresh_def
  by (rule events.moves_efor) (auto simp: moves_def ebind_def db_get_def eget_def elift_def db_mod_def emod_def
      same_events_def split: sum.splits)

lemma reconcile_events: "moves same_events (reconcile_dropped_acks cf)"
proof -
  have c: "moves same_events (call f)" for f
    by (simp add: moves_def call_def same_events_def split: prod.splits sum.splits)
  show ?thesis
    unfolding reconcile_dropped_acks_def backfill_entry_def cursor_def by (intro moves_intros c)
qed

end
