(* ===== verification/Outcome.thy ===== *)
theory Outcome
  imports Inbox
begin

text \<open>
  Every operation keeps the log's state column in step with its commit orders (\<open>log_ok\<close>): a row is
  \<open>Committed\<close> exactly when it has a commit order.  Rejecting an event or bouncing a proposal
  writes the state without looking at the commit order; it is sound because the rows concerned
  are still open, which \<open>open_rows\<close> carries through the drain.
\<close>

section \<open>Open rows\<close>

definition open_rows :: "('b \<Rightarrow> bool) \<Rightarrow> event set \<Rightarrow> 'b engine \<Rightarrow> bool" where
  "open_rows ok U s \<longleftrightarrow> ok (en_backend s) \<and> log_ok (rp_log (en_db s)) \<and>
     (\<forall>e \<in> U. \<exists>r \<in> set (rp_log (en_db s)). row_to_event r = e \<and> committed_rev r = None)"

lemma open_rows_mono: "open_rows ok U s \<Longrightarrow> V \<subseteq> U \<Longrightarrow> open_rows ok V s"
  by (auto simp: open_rows_def)

lemma open_rows_still: "still s s' \<Longrightarrow> open_rows ok U s \<Longrightarrow> open_rows ok U s'"
  by (simp add: open_rows_def still_def)

lemma open_still: "moves still m \<Longrightarrow> keeps (open_rows ok U) m"
  by (rule keepsI) (blast intro: open_rows_still dest: movesD)

lemma open_session: "keeps (open_rows ok U) m \<Longrightarrow> keeps (open_rows ok U) (session m)"
  unfolding session_def by (erule keeps_etrans) (simp add: open_rows_def)

lemma open_call: "(\<And>b q b'. ok b \<Longrightarrow> f b = (q, b') \<Longrightarrow> ok b') \<Longrightarrow> keeps (open_rows ok U) (call f)"
  by (rule keepsI) (auto simp: call_def open_rows_def split: prod.splits sum.splits)

lemma open_insert: "keeps (open_rows ok U) (log_insert e n)" "keeps (open_rows ok U) (insert_if_absent e n)"
proof -
  have one: "keeps (open_rows ok U) (log_insert e n)" for e n
  proof (rule keepsI)
    fix s r s' assume s: "open_rows ok U s" and run: "log_insert e n s = (r, s')"
    show "open_rows ok U s'"
    proof (cases "insert_event e (Some n) None (rp_log (en_db s))")
      case (Inl x)
      with run s show ?thesis by (auto simp: log_insert_def ebind_def db_get_def eget_def elift_def)
    next
      case (Inr l)
      with run have "s' = s\<lparr>en_db := (en_db s)\<lparr>rp_log := l\<rparr>\<rparr>"
        by (auto simp: log_insert_def ebind_def db_get_def eget_def elift_def set_log_def db_mod_def emod_def)
      with s insert_event_ok [OF _ Inr] Inr show ?thesis by (auto simp: open_rows_def insert_event_Inr)
    qed
  qed
  then show "keeps (open_rows ok U) (log_insert e n)" .
  show "keeps (open_rows ok U) (insert_if_absent e n)"
    unfolding insert_if_absent_def by (intro keeps_ebind keeps_if one keeps_eret open_still moves_intros)
qed

lemma update_row_log_ok:
  assumes "log_ok l"
    and "\<And>r. r \<in> set l \<Longrightarrow> event_id r = i \<Longrightarrow> row_to_event (f r) = row_to_event r \<and>
      (committed_rev (f r) \<noteq> None) = (row_state (f r) = Committed)"
  shows "log_ok (update_row i f l)"
proof -
  have "keyed (update_row i f l)" using assms by (intro keyed_update log_ok_keyed) auto
  with assms show ?thesis by (auto simp: log_ok_def keyed_def set_update_row)
qed

lemma mark_found_open:
  assumes "log_ok l"
  shows "log_ok (mark_found n found l)"
  using assms by (cases found) (auto simp: mark_found_def mark_row_def intro!: update_row_log_ok)

lemma open_mark: "keeps (open_rows ok {}) (mark_committed e n)"
  by (rule keepsI)
    (auto simp: mark_committed_def ebind_def db_get_def eget_def set_log_def db_mod_def emod_def open_rows_def mark_found_open)

lemma open_mark_by_id:
  assumes "i \<notin> event_id ` U"
  shows "keeps (open_rows ok U) (mark_committed_by_id i n)"
proof (rule keepsI)
  fix s r s' assume s: "open_rows ok U s" and run: "mark_committed_by_id i n s = (r, s')"
  let ?l = "rp_log (en_db s)"
  have s': "s' = s\<lparr>en_db := (en_db s)\<lparr>rp_log := mark_found n (event_by_id ?l i) ?l\<rparr>\<rparr>"
    using run by (auto simp: mark_committed_by_id_def ebind_def db_get_def eget_def set_log_def db_mod_def emod_def)
  have kept: "x \<in> set (mark_found n (event_by_id ?l i) ?l)" if "x \<in> set ?l" "event_id x \<noteq> i" for x
    using that event_by_id_Some [of ?l i]
    by (cases "event_by_id ?l i") (auto simp: mark_found_def set_update_row rev_image_eqI)
  have "\<exists>x \<in> set (mark_found n (event_by_id ?l i) ?l). row_to_event x = e \<and> committed_rev x = None" if e: "e \<in> U" for e
  proof -
    from s e obtain x where x: "x \<in> set ?l" "row_to_event x = e" "committed_rev x = None" by (auto simp: open_rows_def)
    with assms e have "event_id x \<noteq> i" by (metis image_eqI row_to_event_fields(1))
    with kept x show ?thesis by blast
  qed
  with s mark_found_open show "open_rows ok U s'" by (simp add: s' open_rows_def)
qed

lemma open_set_state:
  assumes run: "set_state st r s = (q, s')" and s: "open_rows ok U s" and r: "r \<in> set (rp_log (en_db s))"
    and o: "committed_rev r = None" "row_to_event r \<notin> U" and st: "st \<noteq> Committed"
  shows "open_rows ok U s'"
proof -
  let ?l = "rp_log (en_db s)" and ?f = "\<lambda>r. r\<lparr>row_state := st\<rparr>"
  have s': "s' = s\<lparr>en_db := (en_db s)\<lparr>rp_log := update_row (event_id r) ?f ?l\<rparr>\<rparr>"
    using run by (auto simp: set_state_def ebind_def db_get_def eget_def set_log_def db_mod_def emod_def)
  have l: "log_ok ?l" using s by (simp add: open_rows_def)
  have one: "x = r" if "x \<in> set ?l" "event_id x = event_id r" for x
    using keyed_id [OF log_ok_keyed [OF l] that(1) r that(2)] .
  have "log_ok (update_row (event_id r) ?f ?l)" using one o(1) st by (intro update_row_log_ok l) auto
  moreover have "\<exists>x \<in> set (update_row (event_id r) ?f ?l). row_to_event x = e \<and> committed_rev x = None" if e: "e \<in> U" for e
  proof -
    from s e obtain x where x: "x \<in> set ?l" "row_to_event x = e" "committed_rev x = None" by (auto simp: open_rows_def)
    with o(2) e one have "event_id x \<noteq> event_id r" by auto
    with x(1) have "x \<in> set (update_row (event_id r) ?f ?l)"
      unfolding set_update_row by (intro rev_image_eqI [of x]) simp_all
    with x show ?thesis by blast
  qed
  ultimately show ?thesis using s by (simp add: s' open_rows_def)
qed

lemma open_reject:
  assumes run: "reject cf (row_to_event r) code prose s = (q, s')" and s: "open_rows ok U s"
    and r: "r \<in> set (rp_log (en_db s))" "committed_rev r = None" "row_to_event r \<notin> U"
  shows "open_rows ok U s'"
proof -
  have k: "keyed (rp_log (en_db s))" using s by (auto simp: open_rows_def intro: log_ok_keyed)
  let ?rest = "eseq (refold cf (collection r) (entity_id r))
     (audit cf (actor_id r) (take 64 (rstrip_s (collection r) @ lit ''.sync_rejected'')) (lit ''sync'')
        (ref_str (collection r) (entity_id r))
        [(lit ''code'', PStr code), (lit ''reason'', PStr prose), (lit ''event_id'', PStr (event_id r))])"
  have "eseq (set_state Rejected r) ?rest s = (q, s')"
    using run by (simp add: reject_def ebind_def db_get_def eget_def event_row_keyed [OF k r(1)])
  moreover obtain t where t: "set_state Rejected r s = (Inr (), t)"
    by (simp add: set_state_def ebind_def db_get_def eget_def set_log_def db_mod_def emod_def)
  ultimately have rest: "?rest t = (q, s')" by (simp add: eseq_def ebind_def)
  have "still t s'" using rest by (rule movesD [rotated]) (intro moves_intros)
  then show ?thesis by (rule open_rows_still) (rule open_set_state [OF t s r], simp)
qed

lemma open_take_out:
  assumes run: "take_out cf e s = (q, s')" and s: "open_rows ok (insert e U) s" and e: "e \<notin> U"
  shows "open_rows ok U s'"
proof -
  from s obtain r where r: "r \<in> set (rp_log (en_db s))" "row_to_event r = e" "committed_rev r = None"
    by (auto simp: open_rows_def)
  have k: "keyed (rp_log (en_db s))" using s by (auto simp: open_rows_def intro: log_ok_keyed)
  have "event_row (rp_log (en_db s)) (actor_id e) (actor_seq e) = Some r"
    using event_row_keyed [OF k r(1)] r(2) by (metis row_to_event_fields(2,3))
  then have "eseq (set_state RebaseRequiredState r) (refold cf (collection e) (entity_id e)) s = (q, s')"
    using run by (simp add: take_out_def ebind_def db_get_def eget_def)
  moreover obtain t where t: "set_state RebaseRequiredState r s = (Inr (), t)"
    by (simp add: set_state_def ebind_def db_get_def eget_def set_log_def db_mod_def emod_def)
  ultimately have rest: "refold cf (collection e) (entity_id e) t = (q, s')" by (simp add: eseq_def ebind_def)
  have "open_rows ok U t"
    by (rule open_set_state [OF t open_rows_mono [OF s]]) (use r e in auto)
  with movesD [OF still_refold rest] show ?thesis by (rule open_rows_still)
qed

section \<open>The operations\<close>

context backend_port begin

lemma keeps_ebind_call:
  assumes "\<And>b q b'. ok b \<Longrightarrow> f b = (q, b') \<Longrightarrow> ok b'" "\<And>x. keeps (open_rows ok U) (k x)"
  shows "keeps (open_rows ok U) (ebind (call f) k)"
  using assms by (intro keeps_ebind open_call)

lemma open_negotiate: "cf_port cf = port \<Longrightarrow> keeps (open_rows ok U) (negotiate_session cf)"
  unfolding negotiate_session_def audit_version_reject_def
  by (intro keeps_intros keeps_ebind_call open_session open_still moves_intros) (auto dest: ok_init)

lemma open_push: "cf_port cf = port \<Longrightarrow> keeps (open_rows ok {}) (Engine.push cf)"
  unfolding Engine.push_def
  by (intro keeps_ebind open_negotiate open_session keeps_ebind_call keeps_eseq keeps_efor open_mark keeps_eret
      open_still [of "db_get _"] moves_intros) (auto dest: ok_push)

lemma open_pull: "cf_port cf = port \<Longrightarrow> keeps (open_rows ok {}) (Engine.pull cf c)"
  unfolding Engine.pull_def ingest_entry_def Let_def
  by (intro keeps_ebind open_negotiate open_session keeps_ebind_call keeps_eseq keeps_efold keeps_if open_mark open_insert
      keeps_prod keeps_eret open_still [OF still_cursor] open_still [OF still_ack_cursor] open_still [OF still_refold_all]
      open_still [OF still_audit] open_still [OF still_get]) (auto dest: ok_pull)

lemma open_reconcile: "cf_port cf = port \<Longrightarrow> keeps (open_rows ok {}) (reconcile_dropped_acks cf)"
  unfolding reconcile_dropped_acks_def backfill_entry_def Let_def
  by (intro keeps_ebind keeps_ebind_call keeps_eseq keeps_efold keeps_if keeps_option open_mark keeps_prod keeps_eret
      open_still [OF still_cursor] open_still [OF still_refold_all] open_still [OF still_get]) (auto dest: ok_pull)

lemma open_flip: "cf_port cf = port \<Longrightarrow> keeps (open_rows ok U) (bounce_flip cf e pid reverted)"
  unfolding bounce_flip_def
  by (intro keeps_ebind keeps_ebind_call keeps_eseq keeps_efor open_insert open_still moves_intros) (auto dest: ok_commit)

lemma open_mint: "cf_port cf = port \<Longrightarrow> keeps (open_rows ok U) (mint_conflict_records cf r)"
  unfolding mint_conflict_records_def mint_one_def Let_def
  by (intro keeps_intros keeps_ebind_call open_insert open_still moves_intros) (auto dest: ok_commit)

lemma open_count_result:
  "cf_port cf = port \<Longrightarrow> cr_event_id r \<notin> event_id ` U \<Longrightarrow> keeps (open_rows ok U) (count_result cf r c)"
  unfolding count_result_def by (intro keeps_intros open_mark_by_id open_mint)

lemma open_call_result:
  assumes "open_rows ok U s" "pt_commit port cas es (en_backend s) = (q, b)"
  shows "open_rows ok U (s\<lparr>en_backend := b\<rparr>)"
  using assms ok_commit by (auto simp: open_rows_def)

lemma open_commit_ordinary:
  assumes run: "commit_ordinary cf ordinary c s = (q, s')" and port: "cf_port cf = port" and s: "open_rows ok U s"
    and o: "\<And>r. r \<in> set ordinary \<Longrightarrow> r \<in> set (rp_log (en_db s)) \<and> committed_rev r = None \<and> event_id r \<notin> event_id ` U"
  shows "open_rows ok U s'"
proof (cases "ordinary = []")
  case False
  obtain p b where call: "pt_commit port False (map row_to_event ordinary) (en_backend s) = (p, b)"
    by (cases "pt_commit port False (map row_to_event ordinary) (en_backend s)")
  let ?t = "s\<lparr>en_backend := b\<rparr>"
  note t = open_call_result [OF s call]
  have b: "ok (en_backend s)" using s by (simp add: open_rows_def)
  note run = run [unfolded commit_ordinary_def if_not_P [OF False] port ebind_def etry_def call_def call prod.case]
  show ?thesis
  proof (cases p)
    case (Inr rs)
    have ids: "cr_event_id r \<notin> event_id ` U" if "r \<in> set rs" for r
      using that o commit_answers [OF b call [unfolded Inr]]
      by (fastforce simp: list_all2_conv_all_nth in_set_conv_nth)
    have "keeps (open_rows ok U) (ebind (efold (count_result cf) rs (c\<lparr>ct_submitted := ct_submitted c + length ordinary\<rparr>))
        (\<lambda>c. eret (Inr c)))"
      by (intro keeps_ebind keeps_efold keeps_eret open_count_result [OF port] ids)
    with run Inr t show ?thesis by (auto simp: ebind_def dest: keepsD)
  next
    case (Inl x)
    show ?thesis
    proof (cases "\<exists>e code prose. x = PortRejected e code prose")
      case True
      then obtain e code prose where x: "x = PortRejected e code prose" by blast
      from commit_rejects [OF b call [unfolded Inl x]] obtain r where r: "r \<in> set ordinary" "e = row_to_event r" by auto
      note o' = o [OF r(1)]
      then have "row_to_event r \<notin> U" by (metis image_eqI row_to_event_fields(1))
      with o' have rU: "r \<in> set (rp_log (en_db ?t))" "committed_rev r = None" "row_to_event r \<notin> U" by simp_all
      from run Inl x r(2) obtain v where "reject cf (row_to_event r) code prose ?t = (v, s')"
        by (auto simp: eseq_def ebind_def eret_def split: prod.splits sum.splits)
      then show ?thesis by (rule open_reject) (use t rU in auto)
    qed (use run Inl t in \<open>auto simp: eraise_def split: port_error.splits\<close>)
  qed
qed (use run s in \<open>simp add: commit_ordinary_def eret_def\<close>)

lemma open_commit_proposal:
  assumes run: "commit_proposal_write cf row pid policy s = (q, s')" and port: "cf_port cf = port"
    and s: "open_rows ok (insert (row_to_event row) U) s" and U: "event_id row \<notin> event_id ` U"
  shows "open_rows ok U s'"
proof -
  let ?e = "row_to_event row"
  obtain p b where call: "pt_commit port True [?e] (en_backend s) = (p, b)"
    by (cases "pt_commit port True [?e] (en_backend s)")
  let ?t = "s\<lparr>en_backend := b\<rparr>"
  note t = open_call_result [OF s call]
  then have tU: "open_rows ok U ?t" by (rule open_rows_mono) blast
  have b: "ok (en_backend s)" using s by (simp add: open_rows_def)
  have eU: "?e \<notin> U" using U by (metis image_eqI row_to_event_fields(1))
  note run = run [unfolded commit_proposal_write_def Let_def port ebind_def etry_def call_def call prod.case]
  show ?thesis
  proof (cases p)
    case (Inl x)
    show ?thesis
    proof (cases "\<exists>e cs. x = PortRebase e cs")
      case True
      with run Inl obtain v where "bounce_proposal cf ?e pid True ?t = (v, s')"
        by (auto simp: eseq_def ebind_def eret_def split: prod.splits sum.splits)
      then obtain w u where w: "take_out cf ?e ?t = (w, u)"
        and rest: "u = s' \<or> bounce_flip cf ?e pid True u = (v, s')"
        by (cases "take_out cf ?e ?t") (auto simp: bounce_proposal_def eseq_def ebind_def split: sum.splits)
      have "open_rows ok U u" by (rule open_take_out [OF w t eU])
      with rest keepsD [OF open_flip [OF port]] show ?thesis by blast
    qed (use run Inl tU in \<open>auto simp: eraise_def split: port_error.splits\<close>)
  next
    case (Inr rs)
    have ids: "cr_event_id r \<notin> event_id ` U" if "r \<in> set rs" for r
      using that U commit_answers [OF b call [unfolded Inr]] by (auto simp: list_all2_Cons1)
    have "keeps (open_rows ok U) (efold (\<lambda>r bounced.
            if bounced = 1 then eret bounced
            else eseq (mark_committed_by_id (cr_event_id r) (cr_revision r))
              (if policy = PROPOSAL_POLICY_STRICT_REBASE \<and> is_stale r
                 then eseq (bounce_proposal cf ?e pid False) (eret 1) else eret 0)) rs (0 :: nat))"
      unfolding bounce_proposal_def
      by (intro keeps_efold keeps_if keeps_eret keeps_eseq open_mark_by_id ids open_flip [OF port]) simp_all
    with run Inr tU show ?thesis by (auto dest: keepsD)
  qed
qed

lemma open_commit_proposals:
  assumes port: "cf_port cf = port"
  shows "commit_proposals cf policy rows c s = (q, s') \<Longrightarrow> open_rows ok (row_to_event ` set rows) s \<Longrightarrow>
    distinct (map event_id rows) \<Longrightarrow> open_rows ok {} s'"
proof (induction rows arbitrary: c s)
  case Nil
  then show ?case by (simp add: commit_proposals_def eret_def)
next
  case (Cons row rows)
  let ?U = "row_to_event ` set rows"
  show ?case
  proof (cases "origin_proposal_id row")
    case None
    with Cons.prems(1) have "s' = s" by (simp add: commit_proposals_def ebind_def eraise_def)
    with Cons.prems(2) show ?thesis by (auto intro: open_rows_mono)
  next
    case (Some pid)
    obtain p t where w: "commit_proposal_write cf row pid policy s = (p, t)" by (cases "commit_proposal_write cf row pid policy s")
    have "event_id row \<notin> event_id ` ?U" using Cons.prems(3) by (simp add: image_image)
    from open_commit_proposal [OF w port _ this] Cons.prems(2) have t: "open_rows ok ?U t" by simp
    show ?thesis
    proof (cases p)
      case (Inl x)
      with Cons.prems(1) w Some have "s' = t" by (simp add: commit_proposals_def ebind_def)
      with t show ?thesis by (auto intro: open_rows_mono)
    next
      case (Inr n)
      with Cons.prems(1) w Some obtain c' where "commit_proposals cf policy rows c' t = (q, s')"
        by (simp add: commit_proposals_def ebind_def eret_def)
      from Cons.IH [OF this t] Cons.prems(3) show ?thesis by simp
    qed
  qed
qed

lemma open_drain:
  assumes port: "cf_port cf = port"
  shows "keeps (open_rows ok {}) (drain cf policy n c)"
proof (induction n arbitrary: c)
  case (Suc n)
  show ?case
  proof (rule keepsI)
    fix s q s' assume s: "open_rows ok {} s" and run: "drain cf policy (Suc n) c s = (q, s')"
    let ?l = "rp_log (en_db s)"
    let ?p = "pushable_rows cf ?l"
    let ?o = "filter (\<lambda>r. origin_proposal_id r = None) ?p" and ?a = "filter (\<lambda>r. origin_proposal_id r \<noteq> None) ?p"
    let ?U = "row_to_event ` set ?a"
    have l: "log_ok ?l" using s by (simp add: open_rows_def)
    have mem: "r \<in> set ?l \<and> committed_rev r = None" if "r \<in> set ?p" for r
      using that by (auto simp: pushable_rows_def set_pending_rows split: if_splits)
    have d: "distinct (map event_id ?p)"
    proof -
      have "distinct (map event_id (pending_rows ?l))"
        using l by (simp add: log_ok_def pending_rows_def distinct_map inj_on_def)
      then show ?thesis by (simp add: pushable_rows_def distinct_map inj_on_def)
    qed
    have U: "open_rows ok ?U s" using s mem by (auto simp: open_rows_def)
    have o: "r \<in> set ?l \<and> committed_rev r = None \<and> event_id r \<notin> event_id ` ?U" if "r \<in> set ?o" for r
    proof -
      have "event_id r \<noteq> event_id x" if "x \<in> set ?a" for x
        using that \<open>r \<in> set ?o\<close> d by (auto simp: distinct_map inj_on_def)
      with that mem show ?thesis by (auto simp: image_image)
    qed
    show "open_rows ok {} s'"
    proof (cases "?p = []")
      case True
      with run s show ?thesis by (simp add: ebind_def db_get_def eget_def eret_def)
    next
      case False
      obtain v t where ord: "commit_ordinary cf ?o c s = (v, t)" by (cases "commit_ordinary cf ?o c s")
      have t: "open_rows ok ?U t" by (rule open_commit_ordinary [OF ord port U o])
      then have t0: "open_rows ok {} t" by (rule open_rows_mono) simp
      have run': "(case v of Inl e \<Rightarrow> (Inl e, t) | Inr (Inl c') \<Rightarrow> drain cf policy n c' t
          | Inr (Inr c') \<Rightarrow> commit_proposals cf policy ?a c' t) = (q, s')"
        using run False ord by (simp add: ebind_def db_get_def eget_def split: sum.splits)
      have da: "distinct (map event_id ?a)" using d by (rule distinct_map_filter)
      show ?thesis
      proof (cases v)
        case (Inr w)
        with run' t0 keepsD [OF Suc.IH] open_commit_proposals [OF port _ t da] show ?thesis
          by (cases w) auto
      qed (use run' t0 in simp)
    qed
  qed
qed (simp add: keeps_eraise)

lemma open_flush_attempt: "cf_port cf = port \<Longrightarrow> keeps (open_rows ok {}) (flush_attempt cf policy n)"
  unfolding flush_attempt_def
  by (intro open_session keeps_ebind open_reconcile open_drain open_still [OF still_get])

lemma open_flush_outbox: "cf_port cf = port \<Longrightarrow> keeps (open_rows ok {}) (flush_outbox cf b policy)"
  unfolding flush_outbox_def
  by (intro keeps_intros open_negotiate flush_loop_keeps open_flush_attempt) (simp_all add: open_rows_def)

lemma open_resolve: "cf_port cf = port \<Longrightarrow> keeps (open_rows ok {}) (resolve_conflict cf cid choice v by' stamp)"
proof -
  assume port: "cf_port cf = port"
  have err: "keeps (open_rows ok {}) (case x of EPort (PortRebase _ _) \<Rightarrow> eret y | _ \<Rightarrow> eraise x)" for x and y :: resolve_result
    by (auto split: engine_error.split port_error.split intro!: keeps_intros)
  have c: "keeps (open_rows ok {}) (etry (call (pt_commit (cf_port cf) cas es)))" for cas es
    by (intro keeps_etry open_call) (auto simp: port dest: ok_commit)
  show ?thesis
    unfolding resolve_conflict_def resolve_record_def apply_resolution_def Let_def
    by (intro keeps_if keeps_eraise open_session keeps_ebind keeps_option keeps_eret keeps_elift c keeps_sum err keeps_eseq
        keeps_efor open_insert open_still [OF still_get] open_still [OF still_signed_event] open_still [OF still_refold]
        open_still [OF still_audit])
qed

end

end
