(* ===== verification/Team.thy ===== *)
theory Team
  imports Outcome
begin

text \<open>
  Many replicas around one backend, as a transition system: a step is one operation of one
  replica, however it ends, or a local write.  From it, eventual consistency: in every reachable
  state, a replica that drains its outbox and pulls folds every entity to what the backend's
  committed history folds to, so any two of them agree.
\<close>

section \<open>Only a pull moves a cursor\<close>

definition parked :: "'b engine \<Rightarrow> 'b engine \<Rightarrow> bool" where
  "parked s s' \<longleftrightarrow> rp_cursors (en_db s') = rp_cursors (en_db s)"

interpretation park: engine_steps parked
  by unfold_locales (auto simp: parked_def)

definition cursor_at :: "'b config \<Rightarrow> pystr \<Rightarrow> 'b engine \<Rightarrow> int" where
  "cursor_at cf k s = (case dget (rp_cursors (en_db s)) (k, cf_actor cf) of None \<Rightarrow> 0 | Some n \<Rightarrow> n)"

lemma cursor_reads: "cursor cf k s = (Inr (cursor_at cf k s), s)"
  by (simp add: cursor_def cursor_at_def db_get_def eget_def)

lemma parked_cursor: "parked s s' \<Longrightarrow> cursor_at cf k s' = cursor_at cf k s"
  by (simp add: parked_def cursor_at_def)

lemma ack_cursor_other: "ack_cursor cf k n s = (r, s') \<Longrightarrow> k' \<noteq> k \<Longrightarrow> cursor_at cf k' s' = cursor_at cf k' s"
  by (auto simp: ack_cursor_def cursor_at_def db_mod_def emod_def split: option.splits if_splits)

lemma negotiated_again:
  assumes "negotiate_session cf s = (Inr p, t)"
  shows "en_session t = Some p" "Engine.pull cf c s = Engine.pull cf c t"
proof -
  show memo: "en_session t = Some p"
    using assms by (auto simp: negotiate_session_def ebind_Inr remember_def eseq_Inr split: option.splits if_splits)
  show "Engine.pull cf c s = Engine.pull cf c t"
    by (simp add: Engine.pull_def ebind_def assms negotiated [OF memo])
qed

lemma pull_fails:
  fixes s :: "'b engine"
  assumes "Engine.pull cf c s = (Inl e, s')"
  shows "parked s s'"
proof -
  from assms consider "negotiate_session cf s = (Inl e, s')"
    | p t and m :: "('b, pull_result) act" where "negotiate_session cf s = (Inr p, t)" "session m t = (Inl e, s')"
    unfolding Engine.pull_def ebind_Inl [of "negotiate_session cf"] by blast
  then show ?thesis
  proof cases
    case 1
    then show ?thesis by (rule movesD [OF park.steps_negotiate])
  next
    case (2 p t)
    from 2(2) have "parked t s'" by (auto simp: session_def etrans_Inl parked_def)
    with movesD [OF park.steps_negotiate 2(1)] show ?thesis by (rule park.R_trans)
  qed
qed

lemma pull_other_cursor:
  assumes "Engine.pull cf c s = (Inr r, s')" "k \<noteq> collection_key c"
  shows "cursor_at cf k s' = cursor_at cf k s"
proof -
  from assms(1) obtain p t where t: "negotiate_session cf s = (Inr p, t)"
    unfolding Engine.pull_def ebind_Inr [of "negotiate_session cf"] by blast
  from negotiated_again [OF this] assms(1) have run: "en_session t = Some p" "Engine.pull cf c t = (Inr r, s')" by simp_all
  obtain since batch b applied own touched high u v where
    "efold (ingest_entry cf) batch (0, 0, [], since) (t\<lparr>en_backend := b\<rparr>) = (Inr (applied, own, touched, high), u)"
    "refold_all cf touched u = (Inr (), v)" "ack_cursor cf (collection_key c) high v = (Inr (), s')"
    by (rule pull_parts [OF run(2,1)]) simp
  note run = this
  have "parked (t\<lparr>en_backend := b\<rparr>) u" by (rule movesD [OF park.moves_efold [OF park.steps_ingest_entry] run(1)])
  moreover have "parked u v" by (rule movesD [OF park.steps_refold_all run(2)])
  ultimately have "parked t v" by (simp add: parked_def)
  with movesD [OF park.steps_negotiate t] have "parked s v" by (rule park.R_trans)
  with ack_cursor_other [OF run(3) assms(2)] parked_cursor show ?thesis by metis
qed

lemma ingest_entry_high:
  "ingest_entry cf entry acc s = (Inr acc', s') \<Longrightarrow> snd (snd (snd acc')) = max (snd (snd (snd acc))) (revision entry)"
  by (cases acc) (auto simp: ingest_entry_def Let_def ebind_Inr eseq_Inr db_get_def split: if_splits)

lemma ingest_high:
  "efold (ingest_entry cf) batch acc s = (Inr acc', s') \<Longrightarrow>
   snd (snd (snd acc')) = snd (snd (snd acc)) \<or> (\<exists>ce \<in> set batch. snd (snd (snd acc')) = revision ce)"
proof (induction batch arbitrary: acc s)
  case (Cons ce batch)
  then obtain acc1 t where one: "ingest_entry cf ce acc s = (Inr acc1, t)"
    and rest: "efold (ingest_entry cf) batch acc1 t = (Inr acc', s')"
    by (auto simp: ebind_Inr)
  from Cons.IH [OF rest] ingest_entry_high [OF one] show ?case by (auto simp: max_def split: if_splits)
qed simp

section \<open>Read up to the cursor\<close>

text \<open>Everything committed up to the cursor is in the log, and the cursor is no further than the history.\<close>

definition read_to :: "committed_event list \<Rightarrow> log \<Rightarrow> int \<Rightarrow> bool" where
  "read_to h l n \<longleftrightarrow> (\<forall>ce \<in> set h. revision ce \<le> n \<longrightarrow> has_committed (cevent ce) l) \<and>
     (n \<le> 0 \<or> (\<exists>ce \<in> set h. n \<le> revision ce))"

lemma read_to_grows:
  assumes "read_to h l n" "sorted_wrt (<) (map revision (h @ new))" "\<forall>ce \<in> set (h @ new). 0 < revision ce"
    and "log_grows l l'"
  shows "read_to (h @ new) l' n"
proof -
  have "\<not> revision ce \<le> n" if ce: "ce \<in> set new" for ce
  proof (cases "n \<le> 0")
    case True
    moreover from ce assms(3) have "0 < revision ce" by simp
    ultimately show ?thesis by simp
  next
    case False
    with assms(1) obtain x where "x \<in> set h" "n \<le> revision x" by (auto simp: read_to_def)
    moreover from this(1) ce assms(2) have "revision x < revision ce" by (auto simp: sorted_wrt_append)
    ultimately show ?thesis by simp
  qed
  with assms(1,4) has_committed_grows show ?thesis by (fastforce simp: read_to_def)
qed

definition site_ok :: "('b \<Rightarrow> committed_event list) \<Rightarrow> ('b \<Rightarrow> bool) \<Rightarrow> 'b config \<Rightarrow> 'b engine \<Rightarrow> bool" where
  "site_ok hist ok cf s \<longleftrightarrow> synced hist ok s \<and> log_ok (rp_log (en_db s)) \<and>
     read_to (hist (en_backend s)) (rp_log (en_db s)) (cursor_at cf ALL_COLLECTIONS s)"

section \<open>Steps of one replica\<close>

text \<open>A local write appends an uncommitted event, whatever else the service does to its tables and trail.\<close>

inductive site_step :: "'b config \<Rightarrow> 'b engine \<Rightarrow> 'b engine \<Rightarrow> bool" for cf where
  local_write: "insert_event e None origin (rp_log (en_db s)) = Inr l \<Longrightarrow>
    site_step cf s (s\<lparr>en_fresh := n, en_db := (en_db s)\<lparr>rp_log := l, rp_tables := ts, rp_trail := t\<rparr>\<rparr>)"
| pushes: "Engine.push cf s = (r, s') \<Longrightarrow> site_step cf s s'"
| pulls: "Engine.pull cf c s = (q, s') \<Longrightarrow> c \<noteq> Some [] \<Longrightarrow> c \<noteq> Some ALL_COLLECTIONS \<Longrightarrow> site_step cf s s'"
| flushes: "flush_outbox cf bo policy s = (f, s') \<Longrightarrow> site_step cf s s'"
| resolves: "resolve_conflict cf cid choice v by' stamp s = (w, s') \<Longrightarrow> site_step cf s s'"

text \<open>What the sink emits is a local write.\<close>

lemma emit_site_step:
  assumes "emit ed i k d (rp_log (en_db s)) = Inr l"
  shows "site_step cf s (s\<lparr>en_fresh := n, en_db := (en_db s)\<lparr>rp_log := l, rp_tables := ts, rp_trail := t\<rparr>\<rparr>)"
  using assms by (rule emit_row) (rule site_step.local_write)


text \<open>The configuration of a replica of this backend, with an id factory that never repeats.\<close>

definition config_ok :: "'b port \<Rightarrow> 'b config \<Rightarrow> bool" where
  "config_ok port cf \<longleftrightarrow> cf_port cf = port \<and> inj (\<lambda>i. env_id (cf_env cf i))"

lemma insert_local_log:
  assumes "insert_event e None origin l = Inr l'" "log_inv h l"
  shows "log_inv h l'" "has_committed x l \<Longrightarrow> has_committed x l'" "log_ok l \<Longrightarrow> log_ok l'"
  using assms insert_event_ok
  by (auto simp: log_inv_def log_keys_def keyed_def coherent_def commits_held_def insert_event_Inr has_committed_def)

text \<open>An operation of the replica's own configuration, from a state that agrees with the backend.\<close>

context backend_port begin

lemma site_ok_grown:
  assumes s: "site_ok hist ok cf s" and s': "at_least hist ok (hist (en_backend s)) {} s'"
    and opn: "keeps (open_rows ok {}) m" "m s = (r, s')"
    and grows: "engine_grows s s'" and cur: "cursor_at cf ALL_COLLECTIONS s' = cursor_at cf ALL_COLLECTIONS s"
  shows "site_ok hist ok cf s'"
proof -
  from s' obtain new where new: "hist (en_backend s') = hist (en_backend s) @ new" by (auto simp: at_least_def)
  have b: "ok (en_backend s')" using s' by (simp add: at_least_def)
  have "log_grows (rp_log (en_db s)) (rp_log (en_db s'))"
    using grows s by (simp add: engine_grows_def db_grows_def site_ok_def synced_keyed)
  from read_to_grows [OF _ _ _ this, of "hist (en_backend s)" _ new] ok_hist [OF b] s
  have "read_to (hist (en_backend s')) (rp_log (en_db s')) (cursor_at cf ALL_COLLECTIONS s')"
    by (simp add: new cur site_ok_def)
  moreover have "open_rows ok {} s" using s by (simp add: site_ok_def open_rows_def synced_def)
  from keepsD [OF opn this] have "log_ok (rp_log (en_db s'))" by (simp add: open_rows_def)
  ultimately show ?thesis using s' by (auto simp: site_ok_def synced_def at_least_def log_inv_def)
qed

lemma site_ok_parked:
  assumes s: "site_ok hist ok cf s" and run: "m s = (r, s')"
    and keeps: "keeps (at_least hist ok (hist (en_backend s)) {}) m" and opn: "keeps (open_rows ok {}) m" and grows: "engine_grows s s'" and park: "parked s s'"
  shows "site_ok hist ok cf s'" "\<exists>new. hist (en_backend s') = hist (en_backend s) @ new"
proof -
  have "at_least hist ok (hist (en_backend s)) {} s"
    using s by (simp add: site_ok_def synced_def at_least_def log_inv_def)
  from keepsD [OF keeps run this] have s': "at_least hist ok (hist (en_backend s)) {} s'" .
  then show "\<exists>new. hist (en_backend s') = hist (en_backend s) @ new" by (auto simp: at_least_def)
  show "site_ok hist ok cf s'" by (rule site_ok_grown [OF s s' opn run grows parked_cursor [OF park]])
qed

lemma pull_cursor_bound:
  assumes port: "cf_port cf = port" and s: "at_least hist ok h E s" and memo: "en_session s = Some p"
    and run: "Engine.pull cf c s = (Inr r, s')"
  shows "pl_cursor r = cursor_at cf (collection_key c) s \<or>
    (\<exists>ce \<in> set (hist (en_backend s)). pl_cursor r = revision ce)"
proof -
  obtain since batch b applied own touched high u v where
    "cursor cf (collection_key c) s = (Inr since, s)"
    "pt_pull (cf_port cf) c since (en_backend s) = (Inr batch, b)"
    "efold (ingest_entry cf) batch (0, 0, [], since) (s\<lparr>en_backend := b\<rparr>) = (Inr (applied, own, touched, high), u)"
    "r = \<lparr>pl_received = length batch, pl_applied = applied, pl_own_reconciled = own, pl_cursor = high\<rparr>"
    by (rule pull_parts [OF run memo]) simp
  note parts = this
  have "ok (en_backend s)" using s by (simp add: at_least_def)
  from pull_answers [OF this parts(2) [unfolded port]] ingest_high [OF parts(3)] parts(1,4) show ?thesis
    by (auto simp: cursor_reads after_cursor_def)
qed

lemma site_ok_at_least: "site_ok hist ok cf s \<Longrightarrow> at_least hist ok (hist (en_backend s)) {} s"
  by (simp add: site_ok_def synced_def at_least_def log_inv_def)

lemma site_ok_open: "site_ok hist ok cf s \<Longrightarrow> open_rows ok {} s"
  by (simp add: site_ok_def open_rows_def synced_def)

lemma pull_reads_all:
  assumes s: "site_ok hist ok cf s" and port: "cf_port cf = port" and run: "Engine.pull cf None s = (Inr r, s')"
  shows "\<forall>ce \<in> set (hist (en_backend s')). has_committed (cevent ce) (rp_log (en_db s'))"
    and "cursor_at cf ALL_COLLECTIONS s' = pl_cursor r"
    and "pl_cursor r \<le> 0 \<or> (\<exists>ce \<in> set (hist (en_backend s')). pl_cursor r \<le> revision ce)"
proof -
  from run obtain p t where t: "negotiate_session cf s = (Inr p, t)"
    unfolding Engine.pull_def ebind_Inr [of "negotiate_session cf"] by blast
  from negotiated_again [OF this] run have memo: "en_session t = Some p" and run': "Engine.pull cf None t = (Inr r, s')"
    by simp_all
  have at: "at_least hist ok (hist (en_backend s)) {} t"
    using keepsD [OF keeps_negotiate [OF port] t site_ok_at_least [OF s]] .
  have ot: "site_ok hist ok cf t"
    using site_ok_parked(1) [OF s t keeps_negotiate [OF port] open_negotiate [OF port]
      movesD [OF grow.steps_negotiate t] movesD [OF park.steps_negotiate t]] .
  note pc = pull_complete [OF port at memo run' cursor_reads]
  have k: "collection_key None = ALL_COLLECTIONS" by (simp add: collection_key_def)
  show "cursor_at cf ALL_COLLECTIONS s' = pl_cursor r" using pc(2) by (simp add: cursor_at_def k)
  have lg: "log_grows (rp_log (en_db t)) (rp_log (en_db s'))"
    using movesD [OF grow.steps_pull run'] ot by (simp add: engine_grows_def db_grows_def site_ok_def synced_keyed)
  let ?n = "cursor_at cf ALL_COLLECTIONS t" and ?h = "hist (en_backend t)"
  have got: "has_committed (cevent ce) (rp_log (en_db s'))" if ce: "ce \<in> set ?h" for ce
  proof (cases "revision ce \<le> ?n")
    case True
    with ot ce have "has_committed (cevent ce) (rp_log (en_db t))" by (auto simp: site_ok_def read_to_def)
    then show ?thesis by (rule has_committed_grows) (rule lg)
  next
    case False
    with ce pc(1) show ?thesis by (force simp: k after_cursor_def has_committed_def)
  qed
  with pc(4) show "\<forall>ce \<in> set (hist (en_backend s')). has_committed (cevent ce) (rp_log (en_db s'))" by simp
  show "pl_cursor r \<le> 0 \<or> (\<exists>ce \<in> set (hist (en_backend s')). pl_cursor r \<le> revision ce)"
    using pull_cursor_bound [OF port at memo run'] ot k pc(4) by (auto simp: site_ok_def read_to_def)
qed

lemma site_ok_pull:
  assumes s: "site_ok hist ok cf s" and port: "cf_port cf = port" and run: "Engine.pull cf c s = (q, s')"
    and c: "c \<noteq> Some []" "c \<noteq> Some ALL_COLLECTIONS"
  shows "site_ok hist ok cf s'" "\<exists>new. hist (en_backend s') = hist (en_backend s) @ new"
proof -
  have s': "at_least hist ok (hist (en_backend s)) {} s'" using keepsD [OF keeps_pull [OF port] run site_ok_at_least [OF s]] .
  then show new: "\<exists>new. hist (en_backend s') = hist (en_backend s) @ new" by (auto simp: at_least_def)
  have grows: "engine_grows s s'" using movesD [OF grow.steps_pull run] .
  show "site_ok hist ok cf s'"
  proof (cases "\<exists>r. q = Inr r \<and> c = None")
    case False
    have "cursor_at cf ALL_COLLECTIONS s' = cursor_at cf ALL_COLLECTIONS s"
    proof (cases q)
      case (Inl e)
      with run show ?thesis using parked_cursor pull_fails by blast
    next
      case (Inr r)
      with False c have "ALL_COLLECTIONS \<noteq> collection_key c" by (auto simp: collection_key_def split: option.splits)
      with run Inr show ?thesis using pull_other_cursor by blast
    qed
    with s s' open_pull [OF port] run grows show ?thesis by (rule site_ok_grown)
  next
    case True
    with run obtain r where "Engine.pull cf None s = (Inr r, s')" by auto
    note all = pull_reads_all [OF s port this]
    have "log_ok (rp_log (en_db s'))"
      using keepsD [OF open_pull [OF port] run site_ok_open [OF s]] by (simp add: open_rows_def)
    with all s' show ?thesis by (auto simp: site_ok_def read_to_def synced_def at_least_def log_inv_def)
  qed
qed

lemma site_step_ok:
  assumes "site_step cf s s'" "config_ok port cf" "site_ok hist ok cf s"
  shows "site_ok hist ok cf s'" "\<exists>new. hist (en_backend s') = hist (en_backend s) @ new"
proof -
  have port: "cf_port cf = port" and ids: "inj (\<lambda>i. env_id (cf_env cf i))" using assms(2) by (simp_all add: config_ok_def)
  note parked = site_ok_parked [OF assms(3)]
  from assms(1) have "site_ok hist ok cf s' \<and> (\<exists>new. hist (en_backend s') = hist (en_backend s) @ new)"
  proof cases
    case (local_write e origin l n ts t)
    with assms(3) insert_local_log [OF local_write(2)] show ?thesis
      by (auto simp: site_ok_def synced_def log_inv_def read_to_def cursor_at_def)
  next
    case (pushes r)
    from parked [OF this keeps_push [OF port] open_push [OF port] movesD [OF grow.steps_push this] movesD [OF park.steps_push this]]
    show ?thesis by simp
  next
    case (pulls c q)
    with site_ok_pull [OF assms(3) port pulls] show ?thesis by simp
  next
    case (flushes bo policy f)
    from parked [OF this keeps_flush_outbox [OF port] open_flush_outbox [OF port] movesD [OF grow.steps_flush_outbox this] movesD [OF park.steps_flush_outbox this]]
    show ?thesis by simp
  next
    case (resolves cid choice v by' stamp w)
    from parked [OF this keeps_resolve [OF port ids] open_resolve [OF port] movesD [OF grow.steps_resolve this] movesD [OF park.steps_resolve this]]
    show ?thesis by simp
  qed
  then show "site_ok hist ok cf s'" "\<exists>new. hist (en_backend s') = hist (en_backend s) @ new" by blast+
qed

end

section \<open>The team\<close>

text \<open>The replicas share the one backend of the team.\<close>

record 'b team =
  tm_backend :: 'b
  tm_sites :: "('b config \<times> 'b engine) list"

definition with_backend :: "'b \<Rightarrow> 'b engine \<Rightarrow> 'b engine" where
  "with_backend b s = s\<lparr>en_backend := b\<rparr>"

lemma with_backend_simps [simp]:
  "en_backend (with_backend b s) = b" "en_db (with_backend b s) = en_db s"
  "cursor_at cf k (with_backend b s) = cursor_at cf k s"
  by (simp_all add: with_backend_def cursor_at_def)

inductive team_step :: "'b team \<Rightarrow> 'b team \<Rightarrow> bool" where
  site: "i < length (tm_sites t) \<Longrightarrow> tm_sites t ! i = (cf, s) \<Longrightarrow> site_step cf (with_backend (tm_backend t) s) s' \<Longrightarrow>
    team_step t \<lparr>tm_backend = en_backend s', tm_sites = (tm_sites t)[i := (cf, s')]\<rparr>"

text \<open>A fresh replica has no events and no cursors; the backend may have a history already.\<close>

definition joined :: "'b engine \<Rightarrow> bool" where
  "joined s \<longleftrightarrow> rp_log (en_db s) = [] \<and> rp_cursors (en_db s) = []"

definition team_start :: "'b port \<Rightarrow> ('b \<Rightarrow> bool) \<Rightarrow> 'b team \<Rightarrow> bool" where
  "team_start port ok t \<longleftrightarrow> ok (tm_backend t) \<and> (\<forall>(cf, s) \<in> set (tm_sites t). config_ok port cf \<and> joined s)"

definition team_ok :: "'b port \<Rightarrow> ('b \<Rightarrow> committed_event list) \<Rightarrow> ('b \<Rightarrow> bool) \<Rightarrow> 'b team \<Rightarrow> bool" where
  "team_ok port hist ok t \<longleftrightarrow>
     (\<forall>(cf, s) \<in> set (tm_sites t). config_ok port cf \<and> site_ok hist ok cf (with_backend (tm_backend t) s))"

context backend_port begin

lemma team_start_ok: "team_start port ok t \<Longrightarrow> team_ok port hist ok t"
  by (fastforce simp: team_start_def team_ok_def joined_def site_ok_def synced_def log_keys_def keyed_def commits_held_def
      log_ok_def read_to_def cursor_at_def dest: ok_hist)

text \<open>The other replicas see only a longer history.\<close>

lemma site_ok_later:
  assumes "site_ok hist ok cf (with_backend b s)" "ok b'" "hist b' = hist b @ new"
  shows "site_ok hist ok cf (with_backend b' s)"
  using assms read_to_grows [of "hist b" "rp_log (en_db s)" _ new "rp_log (en_db s)"] ok_hist [OF assms(2)]
  by (simp add: site_ok_def synced_def commits_held_append)

lemma team_step_ok:
  assumes "team_step t t'" "team_ok port hist ok t"
  shows "team_ok port hist ok t'"
  using assms
proof cases
  case (site i cf s s')
  from site(2,3) have "(cf, s) \<in> set (tm_sites t)" by (metis nth_mem)
  with assms(2) have c: "config_ok port cf" and o: "site_ok hist ok cf (with_backend (tm_backend t) s)"
    by (auto simp: team_ok_def)
  from site_step_ok [OF site(4) c o] obtain new where s': "site_ok hist ok cf s'"
    "hist (en_backend s') = hist (tm_backend t) @ new" by auto
  then have "ok (en_backend s')" by (simp add: site_ok_def synced_def)
  note later = site_ok_later [OF _ this s'(2)]
  have "with_backend (en_backend s') s' = s'" by (simp add: with_backend_def)
  with s'(1) c later assms(2) show ?thesis
    by (auto simp: team_ok_def site(1) dest!: set_update_subset_insert [THEN subsetD])
qed

lemma team_reach_ok: "team_step\<^sup>*\<^sup>* t t' \<Longrightarrow> team_ok port hist ok t \<Longrightarrow> team_ok port hist ok t'"
  by (induction rule: rtranclp_induct) (simp_all add: team_step_ok)

end

end
