(* ===== verification/Convergence.thy ===== *)
theory Convergence
  imports Team
begin

text \<open>
  What a replica shows once it is up to date: for every entity, the fold of the backend's
  committed history.  The history is the abstract state of the team, the folded log its
  refinement; \<open>pending_rows = []\<close> and a cursor at the head are what a drained flush and a
  following pull establish.
\<close>

section \<open>The abstract state\<close>

definition committed_domain_event :: "committed_event \<Rightarrow> domain_event" where
  "committed_domain_event ce = \<lparr>de_collection = collection (cevent ce), de_entity_id = entity_id (cevent ce),
     de_op = op (cevent ce), de_payload = payload (cevent ce), de_base_rev = base_rev (cevent ce),
     de_committed_rev = Some (revision ce)\<rparr>"

definition entity_history :: "committed_event list \<Rightarrow> pystr \<Rightarrow> pystr \<Rightarrow> committed_event list" where
  "entity_history h c e = filter (\<lambda>ce. collection (cevent ce) = c \<and> entity_id (cevent ce) = e) h"

definition history_state :: "committed_event list \<Rightarrow> pystr \<Rightarrow> pystr \<Rightarrow> payload option" where
  "history_state h c e = fold_entity e (map committed_domain_event (entity_history h c e))"

text \<open>No two different events share author and sequence number.\<close>

definition authored_once :: "committed_event list \<Rightarrow> log \<Rightarrow> bool" where
  "authored_once h l \<longleftrightarrow>
     (\<forall>r \<in> set l. \<forall>ce \<in> set h. dedup_key r = dedup_key (cevent ce) \<longrightarrow> row_to_event r = cevent ce)"

section \<open>An up-to-date log\<close>

text \<open>Two strictly sorted lists with the same elements are equal.\<close>

lemma strict_sorted_by_equal:
  fixes f :: "'a \<Rightarrow> int"
  assumes "sorted_wrt (<) (map f xs)" "sorted_wrt (<) (map f ys)" "set xs = set ys"
  shows "xs = ys"
proof (rule map_inj_on)
  show "map f xs = map f ys"
    using assms by (intro sorted_distinct_set_unique) (auto simp: strict_sorted_iff)
  show "inj_on f (set xs \<union> set ys)"
    using assms by (simp add: strict_sorted_iff distinct_map)
qed

lemma entity_rows_revs_distinct:
  assumes "revs_distinct l" "keyed l" "\<forall>r \<in> set (entity_rows l c e). committed_rev r \<noteq> None"
  shows "distinct (map (\<lambda>r. the (committed_rev r)) (entity_rows l c e))"
proof -
  have d: "distinct l" using assms(2) by (auto simp: keyed_def distinct_map)
  have "inj_on (\<lambda>r. the (committed_rev r)) (set (entity_rows l c e))"
  proof (rule inj_onI)
    fix x y assume xy: "x \<in> set (entity_rows l c e)" "y \<in> set (entity_rows l c e)" "the (committed_rev x) = the (committed_rev y)"
    with assms(3) obtain n where "committed_rev x = Some n" "committed_rev y = Some n" by (metis option.collapse)
    with xy show "x = y"
      using distinct_map_filter_inj [OF assms(1) [unfolded revs_distinct_def] d, of x y] by (auto simp: set_entity_rows)
  qed
  moreover have "distinct (entity_rows l c e)" using d by (simp add: entity_rows_def)
  ultimately show ?thesis by (simp add: distinct_map)
qed

definition as_committed :: "log_row \<Rightarrow> committed_event" where
  "as_committed r = \<lparr>revision = the (committed_rev r), cevent = row_to_event r\<rparr>"

lemma as_committed_event: "committed_rev r = Some n \<Longrightarrow> committed_domain_event (as_committed r) = row_domain_event r"
  by (simp add: committed_domain_event_def as_committed_def row_domain_event_def row_to_event_def event.defs)

context backend_port begin

lemma caught_up_entity_rows:
  assumes s: "synced hist ok s" "log_ok (rp_log (en_db s))" and quiet: "pending_rows (rp_log (en_db s)) = []"
    and got: "\<forall>ce \<in> set (hist (en_backend s)). has_committed (cevent ce) (rp_log (en_db s))"
    and once: "authored_once (hist (en_backend s)) (rp_log (en_db s))"
  shows "map as_committed (entity_rows (rp_log (en_db s)) c e) = entity_history (hist (en_backend s)) c e"
    and "\<forall>r \<in> set (entity_rows (rp_log (en_db s)) c e). committed_rev r \<noteq> None"
proof -
  let ?l = "rp_log (en_db s)" and ?h = "hist (en_backend s)"
  have b: "ok (en_backend s)" using s(1) by (simp add: synced_def)
  have state: "committed_rev r \<noteq> None \<longleftrightarrow> row_state r = Committed" if "r \<in> set ?l" for r
    using s(2) that by (simp add: log_ok_def)
  have row: "\<exists>ce \<in> set ?h. as_committed r = ce" if r: "r \<in> set ?l" "committed_rev r = Some n" for r n
  proof -
    from s(1) r have "held_at ?h (row_to_event r) n" by (auto simp: synced_def commits_held_def)
    then obtain ce where ce: "ce \<in> set ?h" "dedup_key (cevent ce) = dedup_key r" "revision ce = n"
      by (auto simp: held_at_def)
    with once r have "row_to_event r = cevent ce" by (auto simp: authored_once_def)
    with ce r show ?thesis by (intro bexI [of _ ce]) (simp_all add: as_committed_def)
  qed
  have entry: "\<exists>r \<in> set ?l. committed_rev r \<noteq> None \<and> as_committed r = ce" if ce: "ce \<in> set ?h" for ce
  proof -
    from got ce obtain r n where r: "r \<in> set ?l" "dedup_key r = dedup_key (cevent ce)" "committed_rev r = Some n"
      by (auto simp: has_committed_def)
    from row [OF r(1,3)] obtain ce' where ce': "ce' \<in> set ?h" "as_committed r = ce'" by blast
    have "held_at ?h (cevent ce) (revision ce)" using ce by (auto simp: held_at_def)
    moreover have "held_at ?h (cevent ce) (revision ce')"
      unfolding held_at_def using ce' r(2) by (intro bexI [of _ ce']) (auto simp: as_committed_def)
    ultimately have "revision ce = revision ce'" using held_unique [OF b] by blast
    moreover have "row_to_event r = cevent ce" using once r ce by (auto simp: authored_once_def)
    ultimately have "as_committed r = ce" using ce' by (auto simp: as_committed_def)
    with r show ?thesis by blast
  qed
  have live: "\<not> terminal_rejected (row_state r) \<longleftrightarrow> committed_rev r \<noteq> None" if r: "r \<in> set ?l" for r
  proof -
    have "row_state r \<noteq> Pending" using quiet pending_rows_log_ok [OF s(2)] r by auto
    with state [OF r] show ?thesis by (cases "row_state r") (auto simp: terminal_rejected_def)
  qed
  show some: "\<forall>r \<in> set (entity_rows ?l c e). committed_rev r \<noteq> None"
    using live by (auto simp: set_entity_rows)
  have "set (map as_committed (entity_rows ?l c e)) = set (entity_history ?h c e)"
  proof (intro subset_antisym subsetI)
    fix x assume "x \<in> set (map as_committed (entity_rows ?l c e))"
    then obtain r where r: "r \<in> set (entity_rows ?l c e)" "x = as_committed r" by auto
    with some obtain n where "committed_rev r = Some n" by auto
    with r row [of r n] show "x \<in> set (entity_history ?h c e)"
      by (auto simp: set_entity_rows entity_history_def as_committed_def)
  next
    fix ce assume ce: "ce \<in> set (entity_history ?h c e)"
    then have "ce \<in> set ?h" by (simp add: entity_history_def)
    from entry [OF this] obtain r where r: "r \<in> set ?l" "committed_rev r \<noteq> None" "as_committed r = ce" by blast
    with ce live show "ce \<in> set (map as_committed (entity_rows ?l c e))"
      by (auto simp: set_entity_rows entity_history_def as_committed_def intro!: rev_image_eqI [of r])
  qed
  moreover have "sorted_wrt (<) (map revision (entity_history ?h c e))"
    using ok_hist [OF b] by (simp add: entity_history_def sorted_wrt_map sorted_wrt_filter)
  moreover have "sorted_wrt (<) (map revision (map as_committed (entity_rows ?l c e)))"
  proof -
    have le: "the (committed_rev x) \<le> the (committed_rev y)"
      if "x \<in> set (entity_rows ?l c e)" "y \<in> set (entity_rows ?l c e)" "resolution_key x \<le> resolution_key y" for x y
    proof -
      from some that obtain m n where "committed_rev x = Some m" "committed_rev y = Some n" by blast
      with resolution_key_committed that(3) show ?thesis by simp
    qed
    have "sorted (map (\<lambda>r. the (committed_rev r)) (entity_rows ?l c e))"
      using entity_rows_sorted [of ?l c e] unfolding sorted_wrt_map
      by (rule sorted_wrt_mono_rel [rotated]) (rule le)
    moreover have "distinct (map (\<lambda>r. the (committed_rev r)) (entity_rows ?l c e))"
      using entity_rows_revs_distinct [OF synced_revs_distinct [OF s(1)] log_ok_keyed [OF s(2)]] some by simp
    ultimately show ?thesis by (simp add: strict_sorted_iff comp_def as_committed_def)
  qed
  ultimately show "map as_committed (entity_rows ?l c e) = entity_history ?h c e"
    by (intro strict_sorted_by_equal [where f = revision])
qed

lemma caught_up_state:
  assumes "synced hist ok s" "log_ok (rp_log (en_db s))" "pending_rows (rp_log (en_db s)) = []"
    "\<forall>ce \<in> set (hist (en_backend s)). has_committed (cevent ce) (rp_log (en_db s))"
    "authored_once (hist (en_backend s)) (rp_log (en_db s))"
  shows "folded_state (rp_log (en_db s)) c e = history_state (hist (en_backend s)) c e"
proof -
  note rows = caught_up_entity_rows [OF assms]
  have "map row_domain_event (entity_rows (rp_log (en_db s)) c e) =
      map (committed_domain_event \<circ> as_committed) (entity_rows (rp_log (en_db s)) c e)"
    using rows(2) as_committed_event by fastforce
  also have "\<dots> = map committed_domain_event (entity_history (hist (en_backend s)) c e)"
    by (simp flip: rows(1))
  finally show ?thesis by (simp only: folded_state_def history_state_def)
qed

end

section \<open>One round of flush and pull\<close>

lemma flush_loop_reports:
  "flush_loop cf policy b n s = (Inr r, s') \<Longrightarrow>
   fl_drained r = (pushable_rows cf (rp_log (en_db s')) = []) \<and> fl_withheld r = length (withheld_rows cf (rp_log (en_db s')))"
proof (induction cf policy b n s arbitrary: r s' rule: flush_loop.induct)
  case (1 cf policy b n s)
  obtain q t where a: "flush_attempt cf policy (n + 1) s = (q, t)" by (cases "flush_attempt cf policy (n + 1) s")
  note run = "1.prems" [unfolded flush_loop.simps [of cf policy b n s] a prod.case]
  show ?case
  proof (cases q)
    case (Inr x)
    with run a show ?thesis by (auto simp: flush_attempt_def session_def ebind_Inr db_get_def)
  next
    case (Inl e)
    with run "1.IH" [OF a [symmetric] Inl] show ?thesis
      by (cases "e = EPort PortUnavailable") (auto simp: give_up_def db_get_def split: if_splits)
  qed
qed

lemma flush_outbox_reports:
  assumes "flush_outbox cf b policy s = (Inr r, s')" "fl_drained r" "fl_withheld r = 0"
  shows "pending_rows (rp_log (en_db s')) = []"
proof -
  from assms(1) obtain t where "flush_loop cf policy b 0 t = (Inr r, s')"
    by (auto simp: flush_outbox_def ebind_Inr split: if_splits)
  from flush_loop_reports [OF this] assms(2,3) show ?thesis
    by (auto simp: pushable_rows_def withheld_rows_def filter_empty_conv split: if_splits)
qed

context backend_port begin

lemma round_state:
  assumes s: "site_ok hist ok cf s" and port: "cf_port cf = port"
    and flush: "flush_outbox cf b policy s = (Inr r, t)" "fl_drained r" "fl_withheld r = 0"
    and pull: "Engine.pull cf None t = (Inr q, u)"
    and once: "authored_once (hist (en_backend u)) (rp_log (en_db u))"
  shows "folded_state (rp_log (en_db u)) c e = history_state (hist (en_backend u)) c e"
proof -
  have t: "site_ok hist ok cf t"
    using site_ok_parked(1) [OF s flush(1) keeps_flush_outbox [OF port] open_flush_outbox [OF port]
      movesD [OF grow.steps_flush_outbox flush(1)] movesD [OF park.steps_flush_outbox flush(1)]] .
  have u: "site_ok hist ok cf u" by (rule site_ok_pull(1) [OF t port pull]) simp_all
  have lg: "log_grows (rp_log (en_db t)) (rp_log (en_db u))"
    using movesD [OF grow.steps_pull pull] t by (simp add: engine_grows_def db_grows_def site_ok_def synced_keyed)
  have "pending_rows (rp_log (en_db u)) = []"
  proof -
    have "row_state r \<noteq> Pending" if "r \<in> set (rp_log (en_db t))" for r
      using flush_outbox_reports [OF flush] pending_rows_log_ok [of "rp_log (en_db t)"] t that by (auto simp: site_ok_def)
    then have "row_state r \<noteq> Pending" if "r \<in> set (rp_log (en_db u))" for r
      using log_grows_pending [OF lg that] by blast
    then have "set (pending_rows (rp_log (en_db u))) = {}"
      using pending_rows_log_ok [of "rp_log (en_db u)"] u by (auto simp: site_ok_def)
    then show ?thesis by simp
  qed
  with u pull_reads_all(1) [OF t port pull] once show ?thesis
    by (intro caught_up_state) (simp_all add: site_ok_def)
qed

end

section \<open>What a reused sequence number does\<close>

text \<open>The backend answers a batch whose keys it holds without storing anything, whatever the events say.\<close>

lemma pg_commit_known:
  assumes b: "single_workspace ws b" and run: "pt_commit (pg_port D vf ws n prose) cas es b = (Inr rs, b')"
    and known: "\<forall>e \<in> set es. \<exists>m. held_at (history ws b) e m"
  shows "history ws b' = history ws b" "list_all2 (\<lambda>e r. held_at (history ws b) e (cr_revision r)) es rs"
proof -
  from run obtain q where q: "commit_events_raw D vf ws cas es b = (q, b')"
    "Inr rs = (case q of Inl x \<Rightarrow> Inl (port_error_of prose x) | Inr rows \<Rightarrow> Inr (map to_commit_result rows))"
    by (rule pg_commit_run)
  then obtain rows where rows: "commit_events_raw D vf ws cas es b = (Inr rows, b')"
    "rs = map to_commit_result rows" by (cases q) auto
  from rows(1) have loop: "commit_loop D ws cas es b = (Inr rows, b')"
    by (auto simp: commit_events_raw_def split: option.splits prod.splits sum.splits)
  have "pg_ok b" using b by (simp add: single_workspace_def)
  from commit_loop_again [OF loop this] known have same: "pg_rows b' = pg_rows b"
    "list_all2 (\<lambda>e r. cw_status r = Duplicate \<and> holds_at b e (cw_revision r)) es rows"
    by (auto simp: held_at_holds [OF b])
  from same(1) show "history ws b' = history ws b" by (simp add: history_def)
  from same(2) show "list_all2 (\<lambda>e r. held_at (history ws b) e (cr_revision r)) es rs"
    by (auto simp: rows(2) list_all2_map2 held_at_holds [OF b] elim!: list_all2_mono)
qed

lemma flush_attempt_rolls_back: "flush_attempt cf policy n s = (Inl x, s') \<Longrightarrow> en_db s' = en_db s"
  by (auto simp: flush_attempt_def session_def etrans_Inl)

lemma emit_last: "emit ed i k d l = Inr l' \<Longrightarrow>
    event_id (last l') = i \<and> dedup_key (last l') = (sink_actor k, next_actor_seq l (sink_actor k))"
  by (erule emit_row) (simp add: emit_signed_envelope)

end
