(* ===== verification/Service.thy ===== *)
theory Service
  imports Store Effects
begin

text \<open>
  What the domain services share: a database session with its uncommitted view and the committed
  database, the ORM objects they edit, and the write discipline of the docstring of
  \<open>tracker/service.py\<close> (validate, write, audit, emit, commit).  An object holds datetimes as the
  caller passed them, aware or naive; the flush stores the wall clock, as SQLite drops the zone;
  \<open>audit.snapshot\<close> serialises the object in memory.  The serialisers of datetimes (pydantic's and
  \<open>isoformat\<close>), \<open>str()\<close>, the digest, Ed25519, the ULID factory and the clock come with the
  service's configuration.
\<close>

section \<open>Objects\<close>

datatype moment = Naive int | Aware int int

fun wall :: "moment \<Rightarrow> int" where
  "wall (Naive t) = t"
| "wall (Aware t off) = t"

text \<open>\<open>_naive_utc\<close>\<close>

fun naive_utc :: "moment \<Rightarrow> int" where
  "naive_utc (Naive t) = t"
| "naive_utc (Aware t off) = t - off"

datatype slot = Js pyval | At moment

type_synonym object = "(pystr, slot) dict"

fun stored :: "slot \<Rightarrow> cell" where
  "stored (Js x) = Cell x"
| "stored (At m) = Time (wall m)"

fun loaded :: "cell \<Rightarrow> slot" where
  "loaded (Cell x) = Js x"
| "loaded (Time t) = At (Naive t)"

fun json :: "(moment \<Rightarrow> pystr) \<Rightarrow> slot \<Rightarrow> pyval" where
  "json dj (Js x) = x"
| "json dj (At m) = PStr (dj m)"

definition to_row :: "object \<Rightarrow> row" where
  "to_row ob = map (\<lambda>(f, x). (f, stored x)) ob"

definition load :: "row \<Rightarrow> object" where
  "load r = map (\<lambda>(f, c). (f, loaded c)) r"

definition attr :: "object \<Rightarrow> string \<Rightarrow> slot" where
  "attr ob f = (case dget ob (lit f) of None \<Rightarrow> Js PNone | Some x \<Rightarrow> x)"

text \<open>The object a model's constructor builds: given fields, and defaults for the other columns.\<close>

definition new_object :: "env \<Rightarrow> model \<Rightarrow> object \<Rightarrow> object" where
  "new_object v m flds =
     map (\<lambda>c. (c_name c, case dget flds (c_name c) of Some x \<Rightarrow> x | None \<Rightarrow> loaded (default_cell v c))) (m_columns m)"

definition text_value :: "slot \<Rightarrow> pystr" where
  "text_value x = (case x of Js (PStr s) \<Rightarrow> s | _ \<Rightarrow> [])"

definition object_id :: "object \<Rightarrow> pystr" where
  "object_id ob = text_value (attr ob ''id'')"

section \<open>Sessions\<close>

record session =
  ss_db :: replica
  ss_stored :: replica
  ss_fresh :: nat

datatype service_error =
    ValidationError
  | NotFoundError pystr pystr
  | ConflictError
  | DbError db_error
  | LogError log_error
  | TrailError audit_error

type_synonym 'a svc = "(session, service_error, 'a) eff"

record service =
  sv_actor :: pystr
  sv_source :: pystr
  sv_sink :: "sink option"
  sv_ed :: ed25519
  sv_H :: "bytes \<Rightarrow> pystr"
  sv_env :: "nat \<Rightarrow> env"
  sv_dj :: "moment \<Rightarrow> pystr"
  sv_iso :: "int \<Rightarrow> pystr"
  sv_str :: "slot \<Rightarrow> pystr"

definition fresh_env :: "service \<Rightarrow> env svc" where
  "fresh_env sv s = (Inr (sv_env sv (ss_fresh s)), s\<lparr>ss_fresh := Suc (ss_fresh s)\<rparr>)"

definition now :: "service \<Rightarrow> int svc" where
  "now sv = ebind (fresh_env sv) (\<lambda>v. eret (env_now v))"

definition look :: "(replica \<Rightarrow> 'a) \<Rightarrow> 'a svc" where
  "look f = eget (\<lambda>s. f (ss_db s))"

definition mod_db :: "(replica \<Rightarrow> replica) \<Rightarrow> unit svc" where
  "mod_db f = emod (\<lambda>s. s\<lparr>ss_db := f (ss_db s)\<rparr>)"

definition commit :: "unit svc" where
  "commit = emod (\<lambda>s. s\<lparr>ss_stored := ss_db s\<rparr>)"

definition rollback :: "unit svc" where
  "rollback = emod (\<lambda>s. s\<lparr>ss_db := ss_stored s\<rparr>)"

definition require :: "bool \<Rightarrow> unit svc" where
  "require b = (if b then eret () else eraise ValidationError)"

text \<open>\<open>session.get\<close>, raising when there is no such row.\<close>

definition get_entity :: "model \<Rightarrow> pystr \<Rightarrow> object svc" where
  "get_entity m i =
     ebind (look rp_tables) (\<lambda>ts.
     case get_row ts m i of None \<Rightarrow> eraise (NotFoundError (m_table m) i) | Some r \<Rightarrow> eret (load r))"

definition on_tables :: "(tables \<Rightarrow> db_error + tables) \<Rightarrow> unit svc" where
  "on_tables f =
     ebind (look rp_tables) (\<lambda>ts. ebind (elift DbError (f ts)) (\<lambda>ts. mod_db (\<lambda>d. d\<lparr>rp_tables := ts\<rparr>)))"

section \<open>The write discipline\<close>

text \<open>\<open>audit.snapshot\<close>\<close>

definition snapshot :: "service \<Rightarrow> object \<Rightarrow> payload" where
  "snapshot sv ob = map (\<lambda>(f, x). (f, json (sv_dj sv) x)) ob"

definition ref_to :: "pystr \<Rightarrow> pystr \<Rightarrow> pystr" where
  "ref_to c i = c @ lit ''/'' @ i"

definition write_audit ::
    "service \<Rightarrow> string \<Rightarrow> pystr \<Rightarrow> payload option \<Rightarrow> payload option \<Rightarrow> int \<Rightarrow> unit svc" where
  "write_audit sv action ref before after ts =
     ebind (fresh_env sv) (\<lambda>v.
     ebind (look rp_trail) (\<lambda>t.
     ebind (elift TrailError (audit_write (sv_H sv) (v\<lparr>env_now := ts\<rparr>) (sv_actor sv) (lit action)
              (sv_source sv) (Some ref) before after t)) (\<lambda>(_, t').
     mod_db (\<lambda>d. d\<lparr>rp_trail := t'\<rparr>))))"

definition emit_event :: "service \<Rightarrow> pystr \<Rightarrow> pystr \<Rightarrow> pystr \<Rightarrow> payload \<Rightarrow> unit svc" where
  "emit_event sv c i opn pl =
     (case sv_sink sv of
        None \<Rightarrow> eret ()
      | Some k \<Rightarrow>
          ebind (fresh_env sv) (\<lambda>v.
          ebind (look rp_log) (\<lambda>l.
          ebind (elift LogError (emit (sv_ed sv) (env_id v) k
                   \<lparr>de_collection = c, de_entity_id = i, de_op = opn, de_payload = pl,
                    de_base_rev = None, de_committed_rev = None\<rparr> l)) (\<lambda>l'.
          mod_db (\<lambda>d. d\<lparr>rp_log := l'\<rparr>)))))"

text \<open>\<open>session.add\<close> and \<open>flush\<close> of a new row.\<close>

definition flush_new :: "service \<Rightarrow> model \<Rightarrow> object \<Rightarrow> object svc" where
  "flush_new sv m flds =
     ebind (fresh_env sv) (\<lambda>v.
     let ob = new_object v m flds in eseq (on_tables (row_insert m (to_row ob))) (eret ob))"

definition flush_set :: "model \<Rightarrow> object \<Rightarrow> unit svc" where
  "flush_set m ob = on_tables (row_update m (object_id ob) (to_row ob))"

text \<open>Create: flush, audit on \<open>ref\<close>, emit the whole row, commit; the object is read back.\<close>

definition create_row ::
    "service \<Rightarrow> model \<Rightarrow> string \<Rightarrow> (object \<Rightarrow> pystr) \<Rightarrow> pystr \<Rightarrow> object \<Rightarrow> int \<Rightarrow> object svc" where
  "create_row sv m action ref opn flds ts =
     ebind (flush_new sv m flds) (\<lambda>ob.
     eseq (write_audit sv action (ref ob) None (Some (snapshot sv ob)) ts)
     (eseq (emit_event sv (m_table m) (object_id ob) opn (snapshot sv ob))
     (eseq commit (eret (load (to_row ob))))))"

text \<open>\<open>_apply_patch\<close>\<close>

definition patch_payload :: "payload \<Rightarrow> object \<Rightarrow> payload" where
  "patch_payload after changes =
     (let get = (\<lambda>k. case dget after k of None \<Rightarrow> PNone | Some x \<Rightarrow> x) in
      dset (lit ''updated_at'') (get (lit ''updated_at'')) (map (\<lambda>(k, _). (k, get k)) changes))"

definition apply_patch :: "service \<Rightarrow> model \<Rightarrow> object \<Rightarrow> object \<Rightarrow> string \<Rightarrow> object svc" where
  "apply_patch sv m ob changes action =
     (let before = snapshot sv ob in
      ebind (now sv) (\<lambda>ts.
      let ob = dset (lit ''updated_at'') (At (Naive ts)) (dupdate ob changes); after = snapshot sv ob in
      eseq (flush_set m ob)
      (eseq (write_audit sv action (ref_to (m_table m) (object_id ob)) (Some before) (Some after) ts)
      (eseq (emit_event sv (m_table m) (object_id ob) op_patch (patch_payload after changes))
      (eseq commit (eret (load (to_row ob))))))))"

text \<open>Audit and emit a removal and delete the row; the commit is the caller's.\<close>

definition remove_row :: "service \<Rightarrow> model \<Rightarrow> string \<Rightarrow> (object \<Rightarrow> pystr) \<Rightarrow> object \<Rightarrow> int \<Rightarrow> unit svc" where
  "remove_row sv m action ref ob ts =
     eseq (write_audit sv action (ref ob) (Some (snapshot sv ob)) None ts)
     (eseq (emit_event sv (m_table m) (object_id ob) op_tombstone [])
     (on_tables (row_delete m (object_id ob))))"

end
