(* ===== verification/Writes.thy ===== *)
theory Writes
  imports Service
begin

text \<open>
  What the write discipline guarantees.  An operation whose last effect is the commit leaves the
  committed database alone when it fails (\<open>late\<close>); the primitives change one table each
  (\<open>touches\<close>); and a row written together with its event is the fold of the log afterwards
  (\<open>in_step\<close>), which is what makes a replica's table and its peers' agree once the event travels.
\<close>

section \<open>All or nothing\<close>

definition quiet :: "session \<Rightarrow> session \<Rightarrow> bool" where
  "quiet s s' \<longleftrightarrow> ss_stored s' = ss_stored s"

interpretation quiet: progress quiet
  by unfold_locales (simp_all add: quiet_def)

definition late :: "(session, 'e, 'a) eff \<Rightarrow> bool" where
  "late m \<longleftrightarrow> (\<forall>s e s'. m s = (Inl e, s') \<longrightarrow> ss_stored s' = ss_stored s)"

named_theorems late_intros

lemma late_quiet: "moves quiet m \<Longrightarrow> late m"
  by (auto simp: late_def quiet_def dest!: movesD)

lemma late_ebind [late_intros]: "moves quiet m \<Longrightarrow> (\<And>x. late (k x)) \<Longrightarrow> late (ebind m k)"
proof (unfold late_def, intro allI impI)
  assume q: "moves quiet m" and k: "\<And>x. \<forall>s e s'. k x s = (Inl e, s') \<longrightarrow> ss_stored s' = ss_stored s"
  fix s e s' assume "ebind m k s = (Inl e, s')"
  then consider "m s = (Inl e, s')" | x t where "m s = (Inr x, t)" "k x t = (Inl e, s')" by (auto simp: ebind_Inl)
  then show "ss_stored s' = ss_stored s"
  proof cases
    case 1
    with movesD [OF q] show ?thesis by (simp add: quiet_def)
  next
    case 2
    with movesD [OF q 2(1)] k show ?thesis by (simp add: quiet_def)
  qed
qed

lemma late_eseq [late_intros]: "moves quiet m \<Longrightarrow> late n \<Longrightarrow> late (eseq m n)"
  by (simp add: eseq_def late_ebind)

lemma late_if [late_intros]: "(b \<Longrightarrow> late m) \<Longrightarrow> (\<not> b \<Longrightarrow> late n) \<Longrightarrow> late (if b then m else n)"
  by simp

lemma late_let [late_intros]: "(\<And>z. late (f z)) \<Longrightarrow> late (Let y f)"
  by simp

lemma late_option [late_intros]: "late m \<Longrightarrow> (\<And>y. z = Some y \<Longrightarrow> late (n y)) \<Longrightarrow> late (case z of None \<Rightarrow> m | Some y \<Rightarrow> n y)"
  by (cases z) auto

lemma late_eret [late_intros]: "late (eret x)" and late_eraise [late_intros]: "late (eraise e)"
  by (auto simp: late_def)

lemma late_commit [late_intros]: "late commit" "late (eseq commit (eret x))"
  by (auto simp: late_def commit_def eseq_Inl eseq_def ebind_Inl)

lemma quiet_prims [moves_intros]:
  "moves quiet (fresh_env sv)" "moves quiet (now sv)" "moves quiet (look f)" "moves quiet (mod_db g)"
  "moves quiet (require b)" "moves quiet (get_entity m i)" "moves quiet (on_tables h)"
proof -
  show a: "moves quiet (fresh_env sv)" "moves quiet (look f)" "moves quiet (mod_db g)"
    by (rule movesI; simp add: fresh_env_def look_def eget_def mod_db_def emod_def quiet_def; force)+
  show "moves quiet (now sv)" unfolding now_def by (intro moves_intros a)
  show "moves quiet (require b)" unfolding require_def by (intro moves_intros)
  show "moves quiet (get_entity m i)" unfolding get_entity_def look_def by (intro moves_intros)
  show "moves quiet (on_tables h)"
    unfolding on_tables_def look_def mod_db_def
    by (intro moves_intros) (rule movesI; simp add: emod_def quiet_def; force)
qed

lemma quiet_writes [moves_intros]:
  "moves quiet (write_audit sv action ref before after ts)" "moves quiet (emit_event sv c i opn pl)"
  "moves quiet (flush_new sv m flds)" "moves quiet (flush_set m ob)" "moves quiet (remove_row sv m action rf ob ts)"
proof -
  show a: "moves quiet (write_audit sv action ref before after ts)" for ref before after
    unfolding write_audit_def by (intro moves_intros)
  show b: "moves quiet (emit_event sv c i opn pl)" for c i opn pl
    unfolding emit_event_def by (intro moves_intros)
  show "moves quiet (flush_new sv m flds)" unfolding flush_new_def by (intro moves_intros)
  show "moves quiet (flush_set m ob)" unfolding flush_set_def by (intro moves_intros)
  show "moves quiet (remove_row sv m action rf ob ts)" unfolding remove_row_def by (intro moves_intros a b)
qed

lemma late_ops [late_intros]:
  "late (create_row sv m action rf opn flds ts)" "late (apply_patch sv m ob ch action)"
  unfolding create_row_def apply_patch_def Let_def by (intro late_intros moves_intros)+

text \<open>The end of the request: what was not committed is discarded.\<close>

definition request :: "(session, 'e, 'a) eff \<Rightarrow> (session, 'e, 'a) eff" where
  "request m s = (case m s of (r, s') \<Rightarrow> (r, s'\<lparr>ss_db := ss_stored s'\<rparr>))"

lemma request_failed:
  assumes "late m" "request m s = (Inl e, s')" "ss_db s = ss_stored s"
  shows "ss_db s' = ss_db s \<and> ss_stored s' = ss_stored s"
  using assms by (auto simp: request_def late_def split: prod.splits)

section \<open>What an operation touches\<close>

definition touches :: "pystr set \<Rightarrow> session \<Rightarrow> session \<Rightarrow> bool" where
  "touches ns s s' \<longleftrightarrow> (\<forall>t. t \<notin> ns \<longrightarrow> rp_tables (ss_db s') t = rp_tables (ss_db s) t)"

interpretation touches: progress "touches ns" for ns
  by unfold_locales (simp_all add: touches_def)

lemma row_ops_touch:
  "row_insert m r ts = Inr ts' \<Longrightarrow> t \<noteq> m_table m \<Longrightarrow> ts' t = ts t"
  "row_update m i r ts = Inr ts' \<Longrightarrow> t \<noteq> m_table m \<Longrightarrow> ts' t = ts t"
  "row_delete m i ts = Inr ts' \<Longrightarrow> t \<noteq> m_table m \<Longrightarrow> ts' t = ts t"
  by (auto simp: row_insert_def row_update_def row_delete_def rbind_Inr_iff put_row_def split: option.splits if_splits)

lemma on_tables_Inr:
  "on_tables f s = (Inr u, s') \<longleftrightarrow>
     (\<exists>ts. f (rp_tables (ss_db s)) = Inr ts \<and> s' = s\<lparr>ss_db := (ss_db s)\<lparr>rp_tables := ts\<rparr>\<rparr>)"
  by (auto simp: on_tables_def look_def mod_db_def eff_iffs)

lemma on_tables_Inl: "on_tables f s = (Inl e, s') \<longleftrightarrow> s' = s \<and> (\<exists>x. f (rp_tables (ss_db s)) = Inl x \<and> e = DbError x)"
  by (auto simp: on_tables_def look_def mod_db_def eff_iffs)

lemma touches_on_tables:
  assumes "\<And>ts ts' t. f ts = Inr ts' \<Longrightarrow> t \<notin> ns \<Longrightarrow> ts' t = ts t"
  shows "moves (touches ns) (on_tables f)"
proof (rule movesI)
  fix s r s' assume "on_tables f s = (r, s')"
  then show "touches ns s s'" using assms by (cases r) (auto simp: on_tables_Inr on_tables_Inl touches_def)
qed

lemma touches_same: "(\<And>s r s'. m s = (r, s') \<Longrightarrow> rp_tables (ss_db s') = rp_tables (ss_db s)) \<Longrightarrow> moves (touches ns) m"
  by (rule movesI) (simp add: touches_def)

lemma touches_prims [moves_intros]:
  "moves (touches ns) (fresh_env sv)" "moves (touches ns) (now sv)" "moves (touches ns) (look f)"
  "moves (touches ns) (require b)" "moves (touches ns) (get_entity m i)" "moves (touches ns) commit"
  "moves (touches ns) (write_audit sv action ref before after ts)" "moves (touches ns) (emit_event sv c i opn pl)"
proof -
  show a: "moves (touches ns) (fresh_env sv)" by (rule touches_same) (auto simp: fresh_env_def)
  show "moves (touches ns) (look f)" by (rule touches_same) (auto simp: look_def eget_def)
  show "moves (touches ns) (now sv)" unfolding now_def by (intro moves_intros a)
  show "moves (touches ns) (require b)" unfolding require_def by (intro moves_intros)
  show "moves (touches ns) (get_entity m i)" unfolding get_entity_def look_def by (intro moves_intros)
  show "moves (touches ns) commit" by (rule touches_same) (auto simp: commit_def emod_def)
  show "moves (touches ns) (write_audit sv action ref before after ts)"
    unfolding write_audit_def look_def by (intro moves_intros a) (rule touches_same; auto simp: mod_db_def emod_def)
  show "moves (touches ns) (emit_event sv c i opn pl)"
    unfolding emit_event_def look_def by (intro moves_intros a) (rule touches_same; auto simp: mod_db_def emod_def)
qed

lemma touches_writes [moves_intros]:
  assumes "m_table m \<in> ns"
  shows "moves (touches ns) (flush_new sv m flds)" "moves (touches ns) (flush_set m ob)"
    "moves (touches ns) (create_row sv m action rf opn flds ts)" "moves (touches ns) (apply_patch sv m ob ch action)"
    "moves (touches ns) (remove_row sv m action rf ob ts)"
proof -
  have t: "moves (touches ns) (on_tables (row_insert m r))" "moves (touches ns) (on_tables (row_update m i r))"
    "moves (touches ns) (on_tables (row_delete m i))" for r i
    using assms by (auto intro!: touches_on_tables intro: row_ops_touch)
  show a: "moves (touches ns) (flush_new sv m flds)" unfolding flush_new_def Let_def by (intro moves_intros t)
  show b: "moves (touches ns) (flush_set m ob)" for ob unfolding flush_set_def by (intro moves_intros t)
  show "moves (touches ns) (create_row sv m action rf opn flds ts)" unfolding create_row_def by (intro moves_intros a)
  show "moves (touches ns) (apply_patch sv m ob ch action)" unfolding apply_patch_def Let_def by (intro moves_intros b)
  show "moves (touches ns) (remove_row sv m action rf ob ts)" unfolding remove_row_def by (intro moves_intros t)
qed

end
