(* ===== verification/Faithful.thy ===== *)
theory Faithful
  imports Writes
begin

text \<open>
  The promise of \<open>tracker/service.py\<close> that the event stream reproduces the rows: when one actor
  writes on a replica, every row of a tracked table is the fold of its events in the log, type by
  type, and an entity without a row folds to nothing.  Each of the three ways to write (create,
  patch, remove) keeps it.
\<close>

section \<open>A row and the folded state that spells it\<close>

text \<open>Serialising a datetime and reading it back gives its wall clock.\<close>

definition codec_ok :: "(moment \<Rightarrow> pystr) \<Rightarrow> (pystr \<Rightarrow> int option) \<Rightarrow> bool" where
  "codec_ok dj dt \<longleftrightarrow> (\<forall>mo. dt (replace_z (dj mo)) = Some (wall mo))"

definition mirrors :: "(pystr \<Rightarrow> int option) \<Rightarrow> model \<Rightarrow> row \<Rightarrow> payload \<Rightarrow> bool" where
  "mirrors dt m r d \<longleftrightarrow>
     (\<forall>c \<in> set (m_columns m). dget r (c_name c) \<noteq> None \<and>
        (\<exists>x. dget d (c_name c) = Some x \<and> coerce_value dt m (c_name c) x = Inr (cell_of r (c_name c))))"

definition entity_ok :: "(pystr \<Rightarrow> int option) \<Rightarrow> model \<Rightarrow> replica \<Rightarrow> pystr \<Rightarrow> bool" where
  "entity_ok dt m db e \<longleftrightarrow>
     (case (get_row (rp_tables db) m e, folded_state (rp_log db) (m_table m) e) of
        (None, None) \<Rightarrow> True
      | (Some r, Some d) \<Rightarrow> id_of r = Some e \<and> types_ok m r \<and> mirrors dt m r d
      | _ \<Rightarrow> False)"

definition faithful :: "(pystr \<Rightarrow> int option) \<Rightarrow> model list \<Rightarrow> replica \<Rightarrow> bool" where
  "faithful dt ms db \<longleftrightarrow> (\<forall>m \<in> set ms. \<forall>e. entity_ok dt m db e)"

lemma dget_map_snd: "dget (map (\<lambda>(k, v). (k, f v)) d) k = map_option f (dget d k)"
  by (induction d) auto

lemma dget_views:
  "dget (to_row ob) f = map_option stored (dget ob f)" "dget (load r) f = map_option loaded (dget r f)"
  "dget (snapshot sv ob) f = map_option (json (sv_dj sv)) (dget ob f)"
  by (simp_all add: to_row_def load_def snapshot_def dget_map_snd)

lemma stored_loaded [simp]: "stored (loaded c) = c"
  by (cases c) simp_all

lemma to_row_load [simp]: "to_row (load r) = r"
  by (simp add: to_row_def load_def case_prod_unfold comp_def)

lemma cell_of_to_row: "dget ob f = Some x \<Longrightarrow> cell_of (to_row ob) f = stored x"
  by (simp add: cell_of_def dget_views)

lemma to_row_new_object: "to_row (new_object v m flds) = new_row v m (to_row flds)"
  by (auto simp: to_row_def new_object_def new_row_def dget_map_snd comp_def split: option.splits)

lemma dget_new_object: "c \<in> set (m_columns m) \<Longrightarrow> dget (new_object v m flds) (c_name c) \<noteq> None"
  by (simp add: new_object_def map_of_eq_None_iff image_image)

lemma find_unique: "distinct (map f xs) \<Longrightarrow> x \<in> set xs \<Longrightarrow> List.find (\<lambda>y. f y = f x) xs = Some x"
  by (induction xs) (auto simp: rev_image_eqI)

text \<open>The value written and the value the apply half reads back from its JSON are the same cell.\<close>

lemma coerce_json:
  assumes "codec_ok (sv_dj sv) dt" "types_ok m (to_row ob)" "c \<in> set (m_columns m)" "distinct (map c_name (m_columns m))"
    and "dget ob (c_name c) = Some x"
  shows "coerce_value dt m (c_name c) (json (sv_dj sv) x) = Inr (stored x)"
proof -
  have col: "column_of m (c_name c) = Some c"
    using find_unique [OF assms(4,3)] by (simp add: column_of_def)
  have "case stored x of Time _ \<Rightarrow> c_kind c = KDateTime | Cell v \<Rightarrow> v = PNone \<or> c_kind c \<noteq> KDateTime"
    using assms(2,3) cell_of_to_row [OF assms(5)] by (auto simp: types_ok_def list_all_iff)
  then show ?thesis using col assms(1)
    by (cases x) (auto simp: coerce_value_def codec_ok_def split: pyval.splits)
qed

lemma mirrors_written:
  assumes "codec_ok (sv_dj sv) dt" "types_ok m (to_row ob)" "distinct (map c_name (m_columns m))"
    and "\<forall>c \<in> set (m_columns m). dget ob (c_name c) \<noteq> None \<and> dget d (c_name c) = dget (snapshot sv ob) (c_name c)"
  shows "mirrors dt m (to_row ob) d"
  unfolding mirrors_def
proof
  fix c assume c: "c \<in> set (m_columns m)"
  then obtain x where x: "dget ob (c_name c) = Some x" using assms(4) by auto
  then show "dget (to_row ob) (c_name c) \<noteq> None \<and>
      (\<exists>x. dget d (c_name c) = Some x \<and> coerce_value dt m (c_name c) x = Inr (cell_of (to_row ob) (c_name c)))"
    using coerce_json [OF assms(1,2) c assms(3) x] assms(4) c cell_of_to_row [OF x] by (simp add: dget_views)
qed

section \<open>Appending an event to the log\<close>

text \<open>Only one actor's events wait in the log.\<close>

definition sole_author :: "pystr \<Rightarrow> log \<Rightarrow> bool" where
  "sole_author a l \<longleftrightarrow> (\<forall>r \<in> set l. committed_rev r = None \<longrightarrow> actor_id r = a)"

lemma sort_key_last:
  assumes "\<And>y. y \<in> set xs \<Longrightarrow> f y \<le> f x"
  shows "sort_key f (xs @ [x]) = sort_key f xs @ [x]"
proof (rule properties_for_sort_key)
  show "sorted (map f (sort_key f xs @ [x]))" using assms by (simp add: sorted_append)
  show "filter (\<lambda>y. f k = f y) (sort_key f xs @ [x]) = filter (\<lambda>y. f k = f y) (xs @ [x])" for k
    using sort_key_stable [of f "f k" xs] by (simp add: eq_commute)
qed simp

lemma entity_rows_snoc:
  assumes "committed_rev r = None" "row_state r = Pending" "sole_author (actor_id r) l"
    and "actor_seq r = next_actor_seq l (actor_id r)"
  shows "entity_rows (l @ [r]) c e =
    entity_rows l c e @ (if collection r = c \<and> entity_id r = e then [r] else [])"
proof (cases "collection r = c \<and> entity_id r = e")
  case True
  have "resolution_key s \<le> resolution_key r" if s: "s \<in> set l" for s
  proof (cases "committed_rev s")
    case None
    with assms(3) s have "actor_id s = actor_id r" by (simp add: sole_author_def)
    moreover from this have "actor_seq s < actor_seq r" using next_actor_seq_greater [OF s] assms(4) by simp
    ultimately show ?thesis using None assms(1) by (simp add: resolution_key_def)
  next
    case (Some n)
    with resolution_key_less [OF Some assms(1)] show ?thesis by simp
  qed
  then have "sort_key resolution_key (filter P l @ [r]) = sort_key resolution_key (filter P l) @ [r]" for P
    by (intro sort_key_last) simp
  then show ?thesis using True assms(2) by (simp add: entity_rows_def terminal_rejected_def)
qed (auto simp: entity_rows_def)

lemma fold_state_tomb: "fst (foldl (fold_step eid) s es) \<noteq> None \<Longrightarrow> (fst s \<noteq> None \<longrightarrow> snd s = None) \<Longrightarrow>
    snd (foldl (fold_step eid) s es) = None"
proof (induction es arbitrary: s)
  case (Cons e es)
  have "fst (fold_step eid s e) \<noteq> None \<longrightarrow> snd (fold_step eid s e) = None"
    using Cons.prems(2) by (auto simp: fold_step_def split_beta Let_def)
  with Cons show ?case by simp
qed simp

lemma fold_entity_snoc:
  assumes "de_entity_id e = eid" "de_op e \<noteq> op_tombstone"
  shows "fold_entity eid es = Some d \<Longrightarrow> fold_entity eid (es @ [e]) = Some (dupdate d (set_fields (de_payload e)))"
    and "es = [] \<Longrightarrow> fold_entity eid (es @ [e]) = Some (dupdate [] (set_fields (de_payload e)))"
proof -
  assume d: "fold_entity eid es = Some d"
  then have "snd (foldl (fold_step eid) (None, None) es) = None"
    using fold_state_tomb [of eid "(None, None)" es] by (simp add: fold_entity_def)
  with d assms show "fold_entity eid (es @ [e]) = Some (dupdate d (set_fields (de_payload e)))"
    by (simp add: fold_entity_def fold_step_def split_beta)
next
  show "es = [] \<Longrightarrow> fold_entity eid (es @ [e]) = Some (dupdate [] (set_fields (de_payload e)))"
    using assms by (simp add: fold_entity_def fold_step_def)
qed

lemma fold_entity_tombstone: "de_entity_id e = eid \<Longrightarrow> de_op e = op_tombstone \<Longrightarrow> fold_entity eid (es @ [e]) = None"
  by (simp add: fold_entity_def fold_step_def split_beta)

text \<open>The state of every entity after an emit.\<close>

lemma emit_folds:
  assumes "emit ed i k dv l = Inr l'" "sole_author (sink_actor k) l"
  shows "sole_author (sink_actor k) l'"
    and "(c, e) \<noteq> (de_collection dv, de_entity_id dv) \<Longrightarrow> folded_state l' c e = folded_state l c e"
    and "de_op dv = op_tombstone \<Longrightarrow> folded_state l' (de_collection dv) (de_entity_id dv) = None"
    and "de_op dv \<noteq> op_tombstone \<Longrightarrow> folded_state l (de_collection dv) (de_entity_id dv) = Some d \<Longrightarrow>
      folded_state l' (de_collection dv) (de_entity_id dv) = Some (dupdate d (set_fields (de_payload dv)))"
    and "de_op dv \<noteq> op_tombstone \<Longrightarrow> (\<And>r. r \<in> set l \<Longrightarrow> entity_id r \<noteq> de_entity_id dv) \<Longrightarrow>
      folded_state l' (de_collection dv) (de_entity_id dv) = Some (dupdate [] (set_fields (de_payload dv)))"
proof -
  from assms(1) obtain ev where ev: "emit_signed ed k (emit_envelope i k dv l) = Inr ev" "l' = l @ [make_row ev None None]"
    by (rule emit_row)
  note f = emit_signed_envelope [OF ev(1)]
  let ?r = "make_row ev None None"
  show "sole_author (sink_actor k) l'" using assms(2) f(2) by (simp add: ev(2) sole_author_def)
  have rows: "entity_rows l' c e = entity_rows l c e @ (if (c, e) = (de_collection dv, de_entity_id dv) then [?r] else [])" for c e
    unfolding ev(2) by (subst entity_rows_snoc) (use assms(2) f in auto)
  have dr: "de_entity_id (row_domain_event ?r) = de_entity_id dv" "de_op (row_domain_event ?r) = de_op dv"
      "de_payload (row_domain_event ?r) = de_payload dv"
    using f by (simp_all add: row_domain_event_def)
  show "(c, e) \<noteq> (de_collection dv, de_entity_id dv) \<Longrightarrow> folded_state l' c e = folded_state l c e"
    using rows [of c e] by (auto simp: folded_state_def)
  show "de_op dv = op_tombstone \<Longrightarrow> folded_state l' (de_collection dv) (de_entity_id dv) = None"
    using dr by (simp add: folded_state_def rows fold_entity_tombstone)
  show "de_op dv \<noteq> op_tombstone \<Longrightarrow> folded_state l (de_collection dv) (de_entity_id dv) = Some d \<Longrightarrow>
      folded_state l' (de_collection dv) (de_entity_id dv) = Some (dupdate d (set_fields (de_payload dv)))"
    using fold_entity_snoc(1) [OF dr(1)] dr by (simp add: folded_state_def rows)
  assume "de_op dv \<noteq> op_tombstone" and fresh: "\<And>r. r \<in> set l \<Longrightarrow> entity_id r \<noteq> de_entity_id dv"
  have "filter (\<lambda>r. collection r = de_collection dv \<and> entity_id r = de_entity_id dv \<and> \<not> terminal_rejected (row_state r)) l = []"
    using fresh by (auto simp: filter_empty_conv)
  then have "entity_rows l (de_collection dv) (de_entity_id dv) = []" by (simp only: entity_rows_def sort_key_simps)
  with fold_entity_snoc(2) [OF dr(1), of "[]"] dr \<open>de_op dv \<noteq> op_tombstone\<close>
  show "folded_state l' (de_collection dv) (de_entity_id dv) = Some (dupdate [] (set_fields (de_payload dv)))"
    by (simp add: folded_state_def rows)
qed

section \<open>Runs of the primitives\<close>

lemma fresh_env_iff: "fresh_env sv s = (Inr v, s') \<longleftrightarrow> v = sv_env sv (ss_fresh s) \<and> s' = s\<lparr>ss_fresh := Suc (ss_fresh s)\<rparr>"
  by (auto simp: fresh_env_def)

lemma now_iff: "now sv s = (Inr t, s') \<longleftrightarrow> t = env_now (sv_env sv (ss_fresh s)) \<and> s' = s\<lparr>ss_fresh := Suc (ss_fresh s)\<rparr>"
  by (auto simp: now_def ebind_Inr fresh_env_iff)

lemma look_iff [simp]: "look f s = (Inr x, s') \<longleftrightarrow> x = f (ss_db s) \<and> s' = s"
  by (auto simp: look_def)

lemma mod_db_iff [simp]: "mod_db f s = (Inr u, s') \<longleftrightarrow> s' = s\<lparr>ss_db := f (ss_db s)\<rparr>"
  by (simp add: mod_db_def)

lemma commit_iff [simp]: "commit s = (Inr u, s') \<longleftrightarrow> s' = s\<lparr>ss_stored := ss_db s\<rparr>"
  by (simp add: commit_def)

lemma require_iff [simp]: "require b s = (Inr u, s') \<longleftrightarrow> b \<and> s' = s"
  by (auto simp: require_def)

lemma get_entity_iff: "get_entity m i s = (Inr ob, s') \<longleftrightarrow> s' = s \<and> (\<exists>r. get_row (rp_tables (ss_db s)) m i = Some r \<and> ob = load r)"
  by (auto simp: get_entity_def ebind_Inr split: option.splits)

lemma write_audit_run:
  assumes "write_audit sv action ref before after ts s = (Inr u, s')"
  obtains t' where "s' = s\<lparr>ss_db := (ss_db s)\<lparr>rp_trail := t'\<rparr>, ss_fresh := Suc (ss_fresh s)\<rparr>"
proof -
  from assms obtain t' where "s' = s\<lparr>ss_fresh := Suc (ss_fresh s), ss_db := (ss_db s)\<lparr>rp_trail := t'\<rparr>\<rparr>"
    by (auto simp: write_audit_def ebind_Inr fresh_env_iff)
  then show thesis by (intro that [of t']) simp
qed

lemma emit_event_run:
  assumes "emit_event sv c i opn pl s = (Inr u, s')" "sv_sink sv = Some k"
  obtains l' where "emit (sv_ed sv) (env_id (sv_env sv (ss_fresh s))) k \<lparr>de_collection = c, de_entity_id = i, de_op = opn,
      de_payload = pl, de_base_rev = None, de_committed_rev = None\<rparr> (rp_log (ss_db s)) = Inr l'"
    "s' = s\<lparr>ss_db := (ss_db s)\<lparr>rp_log := l'\<rparr>, ss_fresh := Suc (ss_fresh s)\<rparr>"
  using assms by (auto simp: emit_event_def ebind_Inr fresh_env_iff)

section \<open>The three writes keep the tables in step with the log\<close>

definition service_ok :: "service \<Rightarrow> (pystr \<Rightarrow> int option) \<Rightarrow> sink \<Rightarrow> bool" where
  "service_ok sv dt k \<longleftrightarrow> codec_ok (sv_dj sv) dt \<and> sv_sink sv = Some k \<and> inj (\<lambda>n. env_id (sv_env sv n))"

text \<open>The identifiers the factory will hand out are new to the log.\<close>

definition fresh_ids :: "service \<Rightarrow> session \<Rightarrow> bool" where
  "fresh_ids sv s \<longleftrightarrow> (\<forall>n \<ge> ss_fresh s. \<forall>r \<in> set (rp_log (ss_db s)). entity_id r \<noteq> env_id (sv_env sv n))"

definition in_step :: "service \<Rightarrow> (pystr \<Rightarrow> int option) \<Rightarrow> sink \<Rightarrow> model list \<Rightarrow> session \<Rightarrow> bool" where
  "in_step sv dt k ms s \<longleftrightarrow> faithful dt ms (ss_db s) \<and> sole_author (sink_actor k) (rp_log (ss_db s)) \<and> fresh_ids sv s"

definition model_ok :: "model \<Rightarrow> bool" where
  "model_ok m \<longleftrightarrow> distinct (map c_name (m_columns m)) \<and> REVIVE_FIELD \<notin> set (map c_name (m_columns m)) \<and>
     {lit ''id'', lit ''updated_at''} \<subseteq> set (map c_name (m_columns m)) \<and>
     list_all (\<lambda>c. c_name c = lit ''id'' \<longrightarrow> c_default c = NewId) (m_columns m)"

definition models_ok :: "model list \<Rightarrow> bool" where
  "models_ok ms \<longleftrightarrow> distinct (map m_table ms) \<and> list_all model_ok ms"

lemma models_okD: "models_ok ms \<Longrightarrow> m \<in> set ms \<Longrightarrow> model_ok m"
  by (simp add: models_ok_def list_all_iff)

lemma faithful_write:
  assumes "faithful dt ms db" "models_ok ms" "m \<in> set ms" "entity_ok dt m db' e"
    and "\<And>c i. (c, i) \<noteq> (m_table m, e) \<Longrightarrow> dget (rp_tables db' c) i = dget (rp_tables db c) i"
    and "\<And>c i. (c, i) \<noteq> (m_table m, e) \<Longrightarrow> folded_state (rp_log db') c i = folded_state (rp_log db) c i"
  shows "faithful dt ms db'"
  unfolding faithful_def
proof (intro ballI allI)
  fix m' i assume m': "m' \<in> set ms"
  show "entity_ok dt m' db' i"
  proof (cases "(m_table m', i) = (m_table m, e)")
    case True
    with m' assms(2,3) have "m' = m" by (auto simp: models_ok_def distinct_map inj_on_def)
    with True assms(4) show ?thesis by simp
  next
    case False
    with assms(5,6) have "get_row (rp_tables db') m' i = get_row (rp_tables db) m' i"
        "folded_state (rp_log db') (m_table m') i = folded_state (rp_log db) (m_table m') i"
      by (auto simp: get_row_def)
    with assms(1) m' show ?thesis by (simp add: faithful_def entity_ok_def)
  qed
qed

lemma put_row_elsewhere: "(c, i) \<noteq> (m_table m, e) \<Longrightarrow> dget (put_row m e r ts c) i = dget (ts c) i"
  by (auto simp: put_row_def)

lemma dget_set_fields_column:
  assumes "model_ok m" "c \<in> set (m_columns m)"
  shows "dget (set_fields p) (c_name c) = dget p (c_name c)"
proof -
  have "c_name c \<noteq> REVIVE_FIELD" using assms unfolding model_ok_def by (metis image_eqI image_set)
  then show ?thesis by (simp add: dget_set_fields)
qed

lemma dget_dupdate_other: "f \<notin> fst ` set e \<Longrightarrow> dget (dupdate d e) f = dget d f"
proof (induction e arbitrary: d)
  case (Cons kv e)
  then show ?case by (cases kv) (auto simp: dupdate_Cons)
qed simp

lemma object_id_id_of: "id_of (to_row ob) = Some e \<Longrightarrow> object_id ob = e"
proof (cases "dget ob (lit ''id'')")
  case (Some x)
  assume "id_of (to_row ob) = Some e"
  with Some show ?thesis
    by (cases x) (simp_all add: id_of_def object_id_def attr_def cell_of_def dget_views text_value_def split: pyval.splits)
qed (simp add: id_of_def cell_of_def dget_views)

lemma id_of_new_object:
  assumes "model_ok m" "dget flds (lit ''id'') = None"
  shows "id_of (to_row (new_object v m flds)) = Some (env_id v)"
proof -
  obtain c where c: "c \<in> set (m_columns m)" "c_name c = lit ''id''" "c_default c = NewId"
    using assms(1) by (auto simp: model_ok_def list_all_iff)
  have "distinct (map c_name (m_columns m))" using assms(1) by (simp add: model_ok_def)
  then have "dget (new_object v m flds) (c_name c) = Some (Js (PStr (env_id v)))"
    using c assms(2) by (auto simp: new_object_def comp_def default_cell_def intro!: map_of_is_SomeI rev_image_eqI [of c])
  then show ?thesis using c(2) by (simp add: id_of_def cell_of_def dget_views)
qed

lemma in_step_write:
  assumes inv: "in_step sv dt k ms s" "models_ok ms" "m \<in> set ms"
    and em: "emit ed i k dv (rp_log (ss_db s)) = Inr (rp_log (ss_db s'))"
    and ent: "de_collection dv = m_table m" "entity_ok dt m (ss_db s') (de_entity_id dv)"
    and new: "ss_fresh s \<le> ss_fresh s'" "\<And>n. ss_fresh s' \<le> n \<Longrightarrow> de_entity_id dv \<noteq> env_id (sv_env sv n)"
    and rest: "\<And>c j. (c, j) \<noteq> (m_table m, de_entity_id dv) \<Longrightarrow>
      dget (rp_tables (ss_db s') c) j = dget (rp_tables (ss_db s) c) j"
  shows "in_step sv dt k ms s'"
proof -
  have sole: "sole_author (sink_actor k) (rp_log (ss_db s))" and fresh: "fresh_ids sv s"
      and fth: "faithful dt ms (ss_db s)"
    using inv(1) by (simp_all add: in_step_def)
  note folds = emit_folds [OF em sole]
  have "faithful dt ms (ss_db s')"
    by (rule faithful_write [OF fth inv(2,3) ent(2) rest]) (use folds(2) ent(1) in auto)
  moreover have "fresh_ids sv s'"
  proof -
    from em obtain ev where "emit_signed ed k (emit_envelope i k dv (rp_log (ss_db s))) = Inr ev"
        "rp_log (ss_db s') = rp_log (ss_db s) @ [make_row ev None None]"
      by (rule emit_row)
    moreover from emit_signed_envelope(6) [OF this(1)] have "entity_id ev = de_entity_id dv" by simp
    ultimately show ?thesis using fresh new by (auto simp: fresh_ids_def)
  qed
  ultimately show ?thesis using folds(1) by (simp add: in_step_def)
qed

lemma create_row_in_step:
  assumes run: "create_row sv m action rf opn flds ts s = (Inr ob, s')"
    and inv: "in_step sv dt k ms s" "service_ok sv dt k" "models_ok ms" "m \<in> set ms"
    and opn: "opn \<noteq> op_tombstone" and flds: "dget flds (lit ''id'') = None"
  shows "in_step sv dt k ms s' \<and> ss_stored s' = ss_db s'"
proof -
  define v where "v = sv_env sv (ss_fresh s)"
  define nob where "nob = new_object v m flds"
  have mok: "model_ok m" using inv(3,4) by (rule models_okD)
  have id: "id_of (to_row nob) = Some (env_id v)" "object_id nob = env_id v"
    using id_of_new_object [OF mok flds] object_id_id_of by (simp_all add: nob_def)
  from run obtain ts' s1 s2 where ins: "row_insert m (to_row nob) (rp_tables (ss_db s)) = Inr ts'"
      and s1: "write_audit sv action (rf nob) None (Some (snapshot sv nob)) ts
        (s\<lparr>ss_fresh := Suc (ss_fresh s), ss_db := (ss_db s)\<lparr>rp_tables := ts'\<rparr>\<rparr>) = (Inr (), s1)"
      and s2: "emit_event sv (m_table m) (object_id nob) opn (snapshot sv nob) s1 = (Inr (), s2)"
      and s': "s' = s2\<lparr>ss_stored := ss_db s2\<rparr>"
    by (auto simp: create_row_def flush_new_def ebind_Inr eseq_Inr fresh_env_iff on_tables_Inr Let_def v_def nob_def)
  from s1 obtain t' where s1': "s1 = s\<lparr>ss_db := (ss_db s)\<lparr>rp_tables := ts', rp_trail := t'\<rparr>, ss_fresh := Suc (Suc (ss_fresh s))\<rparr>"
    by (rule write_audit_run) simp
  have k: "sv_sink sv = Some k" using inv(2) by (simp add: service_ok_def)
  from s2 k obtain l' where em: "emit (sv_ed sv) (env_id (sv_env sv (Suc (Suc (ss_fresh s))))) k
        \<lparr>de_collection = m_table m, de_entity_id = env_id v, de_op = opn, de_payload = snapshot sv nob,
         de_base_rev = None, de_committed_rev = None\<rparr> (rp_log (ss_db s)) = Inr l'"
      and s2': "s2 = s1\<lparr>ss_db := (ss_db s1)\<lparr>rp_log := l'\<rparr>, ss_fresh := Suc (ss_fresh s1)\<rparr>"
    by (rule emit_event_run) (simp add: s1' id(2))
  have db': "ss_db s' = (ss_db s)\<lparr>rp_tables := ts', rp_trail := t', rp_log := l'\<rparr>"
      "ss_fresh s' = Suc (Suc (Suc (ss_fresh s)))" "ss_stored s' = ss_db s'"
    by (simp_all add: s' s2' s1')
  from ins id(1) have ts': "ts' = put_row m (env_id v) (to_row nob) (rp_tables (ss_db s))"
      and check: "types_ok m (to_row nob)"
    by (auto simp: row_insert_def rbind_Inr_iff check_row_Inr split: if_splits)
  have sole: "sole_author (sink_actor k) (rp_log (ss_db s))" and fresh: "fresh_ids sv s"
      and fth: "faithful dt ms (ss_db s)" and codec: "codec_ok (sv_dj sv) dt" and inj: "inj (\<lambda>n. env_id (sv_env sv n))"
    using inv by (simp_all add: in_step_def service_ok_def)
  note folds = emit_folds [OF em sole, simplified]
  have new: "folded_state l' (m_table m) (env_id v) = Some (dupdate [] (set_fields (snapshot sv nob)))"
    using folds(5) opn fresh by (auto simp: fresh_ids_def v_def)
  have dg: "dget (dupdate [] (set_fields (snapshot sv nob))) (c_name c) = dget (snapshot sv nob) (c_name c)"
    if "c \<in> set (m_columns m)" for c
  proof -
    have "dict_ok (set_fields (snapshot sv nob))"
      using mok by (auto simp: set_fields_def dict_ok_def snapshot_def nob_def new_object_def model_ok_def distinct_map_filter
          comp_def case_prod_unfold)
    then show ?thesis using dget_set_fields_column [OF mok that, of "snapshot sv nob"]
      by (simp add: dget_dupdate map_add_def split: option.splits)
  qed
  have "mirrors dt m (to_row nob) (dupdate [] (set_fields (snapshot sv nob)))"
    using mok dg dget_new_object [of _ m v flds] by (intro mirrors_written [OF codec check]) (auto simp: model_ok_def nob_def)
  then have ent: "entity_ok dt m (ss_db s') (env_id v)"
    by (simp add: entity_ok_def db' ts' new id check)
  have "in_step sv dt k ms s'"
  proof (rule in_step_write [OF inv(1,3,4)])
    show "emit (sv_ed sv) (env_id (sv_env sv (Suc (Suc (ss_fresh s))))) k
        \<lparr>de_collection = m_table m, de_entity_id = env_id v, de_op = opn, de_payload = snapshot sv nob,
         de_base_rev = None, de_committed_rev = None\<rparr> (rp_log (ss_db s)) = Inr (rp_log (ss_db s'))"
      using em by (simp add: db')
  next
    fix n assume "ss_fresh s' \<le> n"
    then show "de_entity_id \<lparr>de_collection = m_table m, de_entity_id = env_id v, de_op = opn, de_payload = snapshot sv nob,
         de_base_rev = None, de_committed_rev = None\<rparr> \<noteq> env_id (sv_env sv n)"
      using injD [OF inj, of "ss_fresh s" n] by (auto simp: v_def db')
  qed (use ent in \<open>auto simp: db' ts' put_row_elsewhere\<close>)
  then show ?thesis by (simp add: db')
qed

lemma dget_dupdate_fun:
  assumes "\<forall>(k, v) \<in> set e. v = g k"
  shows "dget (dupdate d e) f = (if f \<in> fst ` set e then Some (g f) else dget d f)"
  using assms
proof (induction e arbitrary: d)
  case (Cons kv e)
  obtain k v where kv: "kv = (k, v)" by force
  with Cons.prems have v: "v = g k" "\<forall>(k, v) \<in> set e. v = g k" by auto
  have "dget (dupdate d (kv # e)) f = (if f \<in> fst ` set e then Some (g f) else dget (dset k v d) f)"
    unfolding kv dupdate_Cons using Cons.IH [OF v(2)] by simp
  then show ?case using v(1) kv by (simp add: dget_dset)
qed simp

lemma dget_dupdate_neq: "dget d f \<noteq> None \<Longrightarrow> dget (dupdate d e) f \<noteq> None"
proof (induction e arbitrary: d)
  case (Cons kv e)
  obtain k v where "kv = (k, v)" by force
  then show ?case using Cons.IH [of "dset k v d"] Cons.prems by (simp add: dupdate_Cons)
qed simp

lemma dset_entries: "\<forall>(k, v) \<in> set d. v = g k \<Longrightarrow> \<forall>(k, v) \<in> set (dset f (g f) d). v = g k"
  by (induction d) (auto split: if_splits)

text \<open>An entity with a row has an event in the log.\<close>

lemma folded_state_event:
  assumes "folded_state l c e \<noteq> None"
  shows "\<exists>r \<in> set l. entity_id r = e"
proof (rule ccontr)
  assume none: "\<not> ?thesis"
  have "folded_state l c e = None"
  proof -
    from none have "filter (\<lambda>r. collection r = c \<and> entity_id r = e \<and> \<not> terminal_rejected (row_state r)) l = []"
      by (auto simp: filter_empty_conv)
    then have "entity_rows l c e = []" by (simp only: entity_rows_def sort_key_simps)
    then show ?thesis by (simp add: folded_state_def fold_entity_def)
  qed
  with assms show False by simp
qed

lemma in_step_row:
  assumes "in_step sv dt k ms s" "m \<in> set ms" "get_row (rp_tables (ss_db s)) m e = Some r"
  obtains d where "folded_state (rp_log (ss_db s)) (m_table m) e = Some d" "id_of r = Some e" "types_ok m r"
    "mirrors dt m r d" "\<And>n. ss_fresh s \<le> n \<Longrightarrow> e \<noteq> env_id (sv_env sv n)"
proof -
  have "entity_ok dt m (ss_db s) e" using assms(1,2) by (simp add: in_step_def faithful_def)
  then obtain d where d: "folded_state (rp_log (ss_db s)) (m_table m) e = Some d" "id_of r = Some e" "types_ok m r"
      "mirrors dt m r d"
    using assms(3) by (auto simp: entity_ok_def split: option.splits)
  moreover have "fresh_ids sv s" using assms(1) by (simp add: in_step_def)
  ultimately show thesis using folded_state_event [of "rp_log (ss_db s)" "m_table m" e]
    by (intro that [of d]) (auto simp: fresh_ids_def)
qed

lemma mirrors_patched:
  assumes "mirrors dt m r d" "codec_ok (sv_dj sv) dt" "types_ok m (to_row ob)" "distinct (map c_name (m_columns m))"
    and "\<And>c. c \<in> set (m_columns m) \<Longrightarrow> dget ob (c_name c) \<noteq> None"
    and "\<And>c. c \<in> set (m_columns m) \<Longrightarrow> c_name c \<in> P \<Longrightarrow> dget d' (c_name c) = dget (snapshot sv ob) (c_name c)"
    and "\<And>c. c \<in> set (m_columns m) \<Longrightarrow> c_name c \<notin> P \<Longrightarrow> dget d' (c_name c) = dget d (c_name c) \<and>
      dget (to_row ob) (c_name c) = dget r (c_name c)"
  shows "mirrors dt m (to_row ob) d'"
  unfolding mirrors_def
proof
  fix c assume c: "c \<in> set (m_columns m)"
  show "dget (to_row ob) (c_name c) \<noteq> None \<and>
      (\<exists>x. dget d' (c_name c) = Some x \<and> coerce_value dt m (c_name c) x = Inr (cell_of (to_row ob) (c_name c)))"
  proof (cases "c_name c \<in> P")
    case True
    from assms(5) [OF c] obtain x where x: "dget ob (c_name c) = Some x" by auto
    then show ?thesis
      using coerce_json [OF assms(2,3) c assms(4) x] assms(6) [OF c True] cell_of_to_row [OF x] by (simp add: dget_views)
  next
    case False
    have "\<exists>x. dget d (c_name c) = Some x \<and> coerce_value dt m (c_name c) x = Inr (cell_of r (c_name c))"
        "dget r (c_name c) \<noteq> None"
      using assms(1) c unfolding mirrors_def by blast+
    then show ?thesis using assms(7) [OF c False] by (simp add: cell_of_def)
  qed
qed

lemma patch_payload_entries:
  defines "get after \<equiv> \<lambda>k. case dget after k of None \<Rightarrow> PNone | Some x \<Rightarrow> (x::pyval)"
  shows "\<forall>(k, v) \<in> set (set_fields (patch_payload after ch)). v = get after k"
    and "model_ok m \<Longrightarrow> c \<in> set (m_columns m) \<Longrightarrow>
      c_name c \<in> fst ` set (set_fields (patch_payload after ch)) \<longleftrightarrow> c_name c \<in> insert (lit ''updated_at'') (fst ` set ch)"
proof -
  have "\<forall>(k, v) \<in> set (patch_payload after ch). v = get after k"
    unfolding patch_payload_def Let_def get_def [symmetric] by (intro dset_entries) auto
  then show "\<forall>(k, v) \<in> set (set_fields (patch_payload after ch)). v = get after k"
    by (auto simp: set_fields_def)
  assume "model_ok m" "c \<in> set (m_columns m)"
  then have "c_name c \<in> fst ` set (set_fields (patch_payload after ch)) \<longleftrightarrow> dget (patch_payload after ch) (c_name c) \<noteq> None"
    using dget_set_fields_column by (metis map_of_eq_None_iff)
  also have "\<dots> \<longleftrightarrow> c_name c \<in> fst ` set (patch_payload after ch)" by (simp only: map_of_eq_None_iff not_not)
  also have "\<dots> \<longleftrightarrow> c_name c \<in> insert (lit ''updated_at'') (fst ` set ch)"
    by (simp add: patch_payload_def Let_def image_image case_prod_unfold)
  finally show "c_name c \<in> fst ` set (set_fields (patch_payload after ch)) \<longleftrightarrow>
      c_name c \<in> insert (lit ''updated_at'') (fst ` set ch)" .
qed

lemma apply_patch_in_step:
  assumes run: "apply_patch sv m (load r) ch action s = (Inr ob, s')"
    and inv: "in_step sv dt k ms s" "service_ok sv dt k" "models_ok ms" "m \<in> set ms"
    and row: "get_row (rp_tables (ss_db s)) m e = Some r" and ch: "lit ''id'' \<notin> fst ` set ch"
  shows "in_step sv dt k ms s' \<and> ss_stored s' = ss_db s'"
proof -
  define ts where "ts = env_now (sv_env sv (ss_fresh s))"
  define nob where "nob = dset (lit ''updated_at'') (At (Naive ts)) (dupdate (load r) ch)"
  define pl where "pl = patch_payload (snapshot sv nob) ch"
  define P where "P = insert (lit ''updated_at'') (fst ` set ch)"
  have mok: "model_ok m" using inv(3,4) by (rule models_okD)
  obtain d where d: "folded_state (rp_log (ss_db s)) (m_table m) e = Some d" "id_of r = Some e" "types_ok m r"
      "mirrors dt m r d" "\<And>n. ss_fresh s \<le> n \<Longrightarrow> e \<noteq> env_id (sv_env sv n)"
    using in_step_row [OF inv(1,4) row] by metis
  have same: "dget nob f = dget (load r) f" if "f \<notin> P" for f
    using that by (simp add: nob_def P_def dget_dupdate_other)
  have id: "id_of (to_row nob) = Some e" "object_id nob = e"
  proof -
    have "lit ''id'' \<notin> P" using ch by (simp add: P_def)
    from same [OF this] show "id_of (to_row nob) = Some e"
      using d(2) by (simp add: id_of_def cell_of_def dget_views option.map_comp comp_def option.map_ident)
    then show "object_id nob = e" by (rule object_id_id_of)
  qed
  from run obtain ts' s1 s2 where upd: "row_update m e (to_row nob) (rp_tables (ss_db s)) = Inr ts'"
      and s1: "write_audit sv action (ref_to (m_table m) e) (Some (snapshot sv (load r))) (Some (snapshot sv nob)) ts
        (s\<lparr>ss_fresh := Suc (ss_fresh s), ss_db := (ss_db s)\<lparr>rp_tables := ts'\<rparr>\<rparr>) = (Inr (), s1)"
      and s2: "emit_event sv (m_table m) e op_patch pl s1 = (Inr (), s2)"
      and s': "s' = s2\<lparr>ss_stored := ss_db s2\<rparr>"
    unfolding apply_patch_def Let_def ebind_Inr now_iff nob_def [symmetric] id pl_def
    by (auto simp: eseq_Inr flush_set_def on_tables_Inr id ts_def [symmetric] nob_def [symmetric])
  from s1 obtain t' where s1': "s1 = s\<lparr>ss_db := (ss_db s)\<lparr>rp_tables := ts', rp_trail := t'\<rparr>, ss_fresh := Suc (Suc (ss_fresh s))\<rparr>"
    by (rule write_audit_run) simp
  have k: "sv_sink sv = Some k" and codec: "codec_ok (sv_dj sv) dt" using inv(2) by (simp_all add: service_ok_def)
  from s2 k obtain l' where em: "emit (sv_ed sv) (env_id (sv_env sv (Suc (Suc (ss_fresh s))))) k
        \<lparr>de_collection = m_table m, de_entity_id = e, de_op = op_patch, de_payload = pl,
         de_base_rev = None, de_committed_rev = None\<rparr> (rp_log (ss_db s)) = Inr l'"
      and s2': "s2 = s1\<lparr>ss_db := (ss_db s1)\<lparr>rp_log := l'\<rparr>, ss_fresh := Suc (ss_fresh s1)\<rparr>"
    by (rule emit_event_run) (simp add: s1')
  have db': "ss_db s' = (ss_db s)\<lparr>rp_tables := ts', rp_trail := t', rp_log := l'\<rparr>"
      "ss_fresh s' = Suc (Suc (Suc (ss_fresh s)))" "ss_stored s' = ss_db s'"
    by (simp_all add: s' s2' s1')
  from upd id(1) have ts': "ts' = put_row m e (to_row nob) (rp_tables (ss_db s))" and check: "types_ok m (to_row nob)"
    by (auto simp: row_update_def rbind_Inr_iff check_row_Inr split: if_splits)
  have sole: "sole_author (sink_actor k) (rp_log (ss_db s))" using inv(1) by (simp add: in_step_def)
  note folds = emit_folds [OF em sole, simplified]
  have new: "folded_state l' (m_table m) e = Some (dupdate d (set_fields pl))"
    using folds(4) d(1) by (simp add: op_patch_def op_tombstone_def)
  have dg: "dget (dupdate d (set_fields pl)) (c_name c) =
      (if c_name c \<in> P then Some (case dget (snapshot sv nob) (c_name c) of None \<Rightarrow> PNone | Some x \<Rightarrow> x) else dget d (c_name c))"
    if "c \<in> set (m_columns m)" for c
    unfolding pl_def P_def dget_dupdate_fun [OF patch_payload_entries(1)] patch_payload_entries(2) [OF mok that] by simp
  have cols: "dget nob (c_name c) \<noteq> None" if "c \<in> set (m_columns m)" for c
  proof -
    have "dget r (c_name c) \<noteq> None" using d(4) that by (simp add: mirrors_def)
    then show ?thesis using dget_dupdate_neq [of "load r" "c_name c" ch] by (auto simp: nob_def dget_views)
  qed
  have "mirrors dt m (to_row nob) (dupdate d (set_fields pl))"
  proof (rule mirrors_patched [OF d(4) codec check _ cols, where P = P])
    show "distinct (map c_name (m_columns m))" using mok by (simp add: model_ok_def)
  next
    fix c assume c: "c \<in> set (m_columns m)" "c_name c \<in> P"
    with cols obtain x where "dget (snapshot sv nob) (c_name c) = Some x" by (fastforce simp: dget_views)
    then show "dget (dupdate d (set_fields pl)) (c_name c) = dget (snapshot sv nob) (c_name c)"
      using dg c by simp
  next
    fix c assume "c \<in> set (m_columns m)" "c_name c \<notin> P"
    then show "dget (dupdate d (set_fields pl)) (c_name c) = dget d (c_name c) \<and>
        dget (to_row nob) (c_name c) = dget r (c_name c)"
      using dg same by (simp add: dget_views option.map_comp comp_def option.map_ident)
  qed
  then have ent: "entity_ok dt m (ss_db s') e" by (simp add: entity_ok_def db' ts' new id check)
  have "in_step sv dt k ms s'"
  proof (rule in_step_write [OF inv(1,3,4)])
    show "emit (sv_ed sv) (env_id (sv_env sv (Suc (Suc (ss_fresh s))))) k
        \<lparr>de_collection = m_table m, de_entity_id = e, de_op = op_patch, de_payload = pl,
         de_base_rev = None, de_committed_rev = None\<rparr> (rp_log (ss_db s)) = Inr (rp_log (ss_db s'))"
      using em by (simp add: db')
  qed (use ent d(5) in \<open>auto simp: db' ts' put_row_elsewhere\<close>)
  then show ?thesis by (simp add: db')
qed

lemma remove_row_in_step:
  assumes run: "remove_row sv m action rf (load r) ts s = (Inr u, s')"
    and inv: "in_step sv dt k ms s" "service_ok sv dt k" "models_ok ms" "m \<in> set ms"
    and row: "get_row (rp_tables (ss_db s)) m e = Some r"
  shows "in_step sv dt k ms s'"
proof -
  obtain d where d: "id_of r = Some e" "\<And>n. ss_fresh s \<le> n \<Longrightarrow> e \<noteq> env_id (sv_env sv n)"
    using in_step_row [OF inv(1,4) row] by metis
  have id: "object_id (load r) = e" using d(1) by (intro object_id_id_of) simp
  from run obtain s1 s2 ts' where s1: "write_audit sv action (rf (load r)) (Some (snapshot sv (load r))) None ts s = (Inr (), s1)"
      and s2: "emit_event sv (m_table m) e op_tombstone [] s1 = (Inr (), s2)"
      and del: "row_delete m e (rp_tables (ss_db s2)) = Inr ts'" and s': "s' = s2\<lparr>ss_db := (ss_db s2)\<lparr>rp_tables := ts'\<rparr>\<rparr>"
    by (auto simp: remove_row_def eseq_Inr on_tables_Inr id)
  from s1 obtain t' where s1': "s1 = s\<lparr>ss_db := (ss_db s)\<lparr>rp_trail := t'\<rparr>, ss_fresh := Suc (ss_fresh s)\<rparr>"
    by (rule write_audit_run)
  have k: "sv_sink sv = Some k" using inv(2) by (simp add: service_ok_def)
  from s2 k obtain l' where em: "emit (sv_ed sv) (env_id (sv_env sv (Suc (ss_fresh s)))) k
        \<lparr>de_collection = m_table m, de_entity_id = e, de_op = op_tombstone, de_payload = [],
         de_base_rev = None, de_committed_rev = None\<rparr> (rp_log (ss_db s)) = Inr l'"
      and s2': "s2 = s1\<lparr>ss_db := (ss_db s1)\<lparr>rp_log := l'\<rparr>, ss_fresh := Suc (ss_fresh s1)\<rparr>"
    by (rule emit_event_run) (simp add: s1')
  have db': "ss_db s' = (ss_db s)\<lparr>rp_trail := t', rp_log := l', rp_tables := ts'\<rparr>" "ss_fresh s' = Suc (Suc (ss_fresh s))"
    by (simp_all add: s' s2' s1')
  from del have ts': "ts' = (rp_tables (ss_db s))(m_table m := AList.delete e (rp_tables (ss_db s) (m_table m)))"
    by (auto simp: row_delete_def s2' s1' split: if_splits)
  have sole: "sole_author (sink_actor k) (rp_log (ss_db s))" using inv(1) by (simp add: in_step_def)
  note folds = emit_folds [OF em sole, simplified]
  have ent: "entity_ok dt m (ss_db s') e"
    using folds(3) by (simp add: entity_ok_def db' ts' get_row_def delete_conv')
  show ?thesis
  proof (rule in_step_write [OF inv(1,3,4)])
    show "emit (sv_ed sv) (env_id (sv_env sv (Suc (ss_fresh s)))) k
        \<lparr>de_collection = m_table m, de_entity_id = e, de_op = op_tombstone, de_payload = [],
         de_base_rev = None, de_committed_rev = None\<rparr> (rp_log (ss_db s)) = Inr (rp_log (ss_db s'))"
      using em by (simp add: db')
  qed (use ent d(2) in \<open>auto simp: db' ts' delete_conv'\<close>)
qed

end
