(* ===== verification/Relations.thy ===== *)
theory Relations
  imports Apply
begin

text \<open>
  Typed ticket relationships and the dependency graph folded from them (the relation helpers of
  \<open>core/tracker/service.py\<close> and \<open>core/graph.py\<close>).  A relationship row contributes an arc to a
  family or none; a family's adjacency lists are a dictionary built from its rows.  The loops are
  the source's: a breadth-first search for the create-time cycle guard, one for the sub-graph and
  one for the path, and an iterative depth-first search with colours for the defensive guard.
\<close>

section \<open>Arcs\<close>

definition RELATIONSHIP_TYPES :: "pystr list" where
  "RELATIONSHIP_TYPES = [lit ''related'', lit ''blocked-by'', lit ''blocking'', lit ''duplicate'', lit ''caused-by'']"

definition SYMMETRIC_TYPES :: "pystr list" where
  "SYMMETRIC_TYPES = [lit ''related'', lit ''duplicate'']"

datatype family = Blocks | Causes

definition FAMILY_TYPES :: "family \<Rightarrow> pystr list" where
  "FAMILY_TYPES f = (case f of Blocks \<Rightarrow> [lit ''blocking'', lit ''blocked-by''] | Causes \<Rightarrow> [lit ''caused-by''])"

definition relation_arc :: "pystr \<Rightarrow> pystr \<Rightarrow> pystr \<Rightarrow> (family \<times> pystr \<times> pystr) option" where
  "relation_arc from_id to_id t =
     (if t = lit ''blocking'' then Some (Blocks, from_id, to_id)
      else if t = lit ''blocked-by'' then Some (Blocks, to_id, from_id)
      else if t = lit ''caused-by'' then Some (Causes, to_id, from_id)
      else None)"

datatype relation_key = Symmetric pystr "pystr set" | Directed "(family \<times> pystr \<times> pystr) option"

definition relation_key :: "pystr \<Rightarrow> pystr \<Rightarrow> pystr \<Rightarrow> relation_key" where
  "relation_key from_id to_id t =
     (if t \<in> set SYMMETRIC_TYPES then Symmetric t {from_id, to_id}
      else Directed (relation_arc from_id to_id t))"

text \<open>A text column of a row.\<close>

definition text_of :: "row \<Rightarrow> string \<Rightarrow> pystr" where
  "text_of r f = (case cell_of r (lit f) of Cell (PStr s) \<Rightarrow> s | _ \<Rightarrow> [])"

definition relation_rows :: "tables \<Rightarrow> row list" where
  "relation_rows ts = map snd (ts (m_table TicketRelationship))"

definition row_arc :: "row \<Rightarrow> (family \<times> pystr \<times> pystr) option" where
  "row_arc r = relation_arc (text_of r ''from_id'') (text_of r ''to_id'') (text_of r ''type'')"

section \<open>Adjacency\<close>

type_synonym adjacency = "(pystr, pystr list) dict"

definition nexts :: "adjacency \<Rightarrow> pystr \<Rightarrow> pystr list" where
  "nexts adj n = (case dget adj n of None \<Rightarrow> [] | Some ds \<Rightarrow> ds)"

definition add_arc :: "family \<times> pystr \<times> pystr \<Rightarrow> adjacency \<Rightarrow> adjacency" where
  "add_arc a adj = (case a of (_, src, dst) \<Rightarrow> dset src (nexts adj src @ [dst]) adj)"

definition family_adjacency :: "tables \<Rightarrow> family \<Rightarrow> adjacency" where
  "family_adjacency ts f =
     fold add_arc (List.map_filter row_arc
       (filter (\<lambda>r. text_of r ''type'' \<in> set (FAMILY_TYPES f)) (relation_rows ts))) []"

definition blocks_adjacency :: "tables \<Rightarrow> adjacency" where
  "blocks_adjacency ts = map (\<lambda>(src, dsts). (src, sort (remdups dsts))) (family_adjacency ts Blocks)"

text \<open>What the lists stand for.\<close>

definition edges :: "adjacency \<Rightarrow> (pystr \<times> pystr) set" where
  "edges adj = {(a, b). b \<in> set (nexts adj a)}"

definition targets :: "adjacency \<Rightarrow> pystr set" where
  "targets adj = (\<Union>ds \<in> snd ` set adj. set ds)"

lemma finite_targets [simp]: "finite (targets adj)"
  by (simp add: targets_def)

lemma nexts_targets: "x \<in> set (nexts adj n) \<Longrightarrow> x \<in> targets adj"
  by (cases "dget adj n") (auto simp: nexts_def targets_def dest!: map_of_SomeD intro: bexI [rotated])

lemma edges_iff: "(a, b) \<in> edges adj \<longleftrightarrow> b \<in> set (nexts adj a)"
  by (simp add: edges_def)

section \<open>The create-time cycle guard\<close>

text \<open>The inner loop over the neighbours: \<open>None\<close> when it meets \<open>src\<close>.\<close>

fun guard_scan :: "pystr \<Rightarrow> pystr list \<Rightarrow> pystr set \<Rightarrow> pystr list \<Rightarrow> (pystr set \<times> pystr list) option" where
  "guard_scan src [] seen queue = Some (seen, queue)"
| "guard_scan src (x # xs) seen queue =
     (if x = src then None
      else if x \<notin> seen then guard_scan src xs (insert x seen) (queue @ [x])
      else guard_scan src xs seen queue)"

lemma guard_scan_None: "guard_scan src xs seen queue = None \<longleftrightarrow> src \<in> set xs"
  by (induction src xs seen queue rule: guard_scan.induct) auto

lemma guard_scan_Some:
  "guard_scan src xs seen queue = Some (seen', queue') \<Longrightarrow>
     seen' = seen \<union> set xs \<and> (\<exists>new. queue' = queue @ new \<and> distinct new \<and> set new = set xs - seen)"
proof (induction src xs seen queue arbitrary: seen' queue' rule: guard_scan.induct)
  case (2 src x xs seen queue)
  show ?case
  proof (cases "x \<in> seen")
    case True
    with 2 show ?thesis by (auto split: if_splits)
  next
    case False
    with 2 have "seen' = insert x seen \<union> set xs"
      "\<exists>new. queue' = (queue @ [x]) @ new \<and> distinct new \<and> set new = set xs - insert x seen"
      by (auto split: if_splits)
    then obtain new where "queue' = (queue @ [x]) @ new" "distinct new" "set new = set xs - insert x seen"
      by blast
    with False \<open>seen' = insert x seen \<union> set xs\<close> show ?thesis
      by (intro conjI exI [of _ "x # new"]) auto
  qed
qed auto

text \<open>A breadth-first step pops one node and pushes unseen targets: twice the unseen plus the queue shrinks.\<close>

lemma bfs_measure:
  assumes "distinct new" "set new = set (nexts adj n) - seen"
  shows "2 * card (targets adj - (seen \<union> set (nexts adj n))) + length (queue @ new)
    < 2 * card (targets adj - seen) + length (n # queue)"
proof -
  have "set new \<subseteq> targets adj - seen" using assms(2) nexts_targets by blast
  moreover have "targets adj - (seen \<union> set (nexts adj n)) = (targets adj - seen) - set new"
    using assms(2) by blast
  ultimately have "card (targets adj - (seen \<union> set (nexts adj n))) = card (targets adj - seen) - length new"
      "length new \<le> card (targets adj - seen)"
    using assms(1) by (auto simp: card_Diff_subset distinct_card [symmetric] intro: card_mono)
  then show ?thesis by simp
qed

function guard_loop :: "adjacency \<Rightarrow> pystr \<Rightarrow> pystr set \<Rightarrow> pystr list \<Rightarrow> bool" where
  "guard_loop adj src seen [] = False"
| "guard_loop adj src seen (n # queue) =
     (case guard_scan src (nexts adj n) seen queue of
        None \<Rightarrow> True
      | Some (seen', queue') \<Rightarrow> guard_loop adj src seen' queue')"
  by pat_completeness auto
termination
proof (relation "measure (\<lambda>(adj, src, seen, queue). 2 * card (targets adj - seen) + length queue)", goal_cases)
  case (2 adj src seen n queue x seen' queue')
  then obtain new where "seen' = seen \<union> set (nexts adj n)" "queue' = queue @ new"
      "distinct new" "set new = set (nexts adj n) - seen"
    by (auto dest: guard_scan_Some)
  then show ?case using bfs_measure [of new adj n seen queue] by simp
qed simp

definition would_cycle :: "tables \<Rightarrow> family \<Rightarrow> pystr \<Rightarrow> pystr \<Rightarrow> bool" where
  "would_cycle ts f src dst = guard_loop (family_adjacency ts f) src {dst} [dst]"

text \<open>
  The frontier argument of every search here: when the successors of the nodes already handled were
  all seen, a path that leaves the seen nodes passes through the queue.
\<close>

definition handled :: "adjacency \<Rightarrow> pystr set \<Rightarrow> pystr set \<Rightarrow> bool" where
  "handled adj seen Q \<longleftrightarrow> (\<forall>m \<in> seen - Q. set (nexts adj m) \<subseteq> seen)"

lemma frontier:
  assumes "(m, x) \<in> (edges adj)\<^sup>*" "handled adj seen Q" "m \<in> seen"
  shows "x \<in> seen \<or> (\<exists>q \<in> Q. (q, x) \<in> (edges adj)\<^sup>*)"
  using assms
proof (induction rule: converse_rtrancl_induct)
  case (step m y)
  show ?case
  proof (cases "m \<in> Q")
    case True
    with step(1,2) show ?thesis by (blast intro: converse_rtrancl_into_rtrancl)
  next
    case False
    with step have "y \<in> seen" by (auto simp: handled_def edges_iff)
    with step show ?thesis by blast
  qed
qed simp

lemma frontier_avoiding:
  assumes "(m, x) \<in> (edges adj)\<^sup>+" "handled adj seen Q" "\<forall>p \<in> seen - Q. x \<notin> set (nexts adj p)" "m \<in> seen"
  shows "\<exists>q \<in> Q. (q, x) \<in> (edges adj)\<^sup>+"
  using assms
proof (induction rule: converse_trancl_induct)
  case (base m)
  then have "m \<in> Q" by (auto simp: edges_iff)
  with base show ?case by blast
next
  case (step m y)
  show ?case
  proof (cases "m \<in> Q")
    case True
    with step(1,2) show ?thesis by (blast intro: trancl_into_trancl2)
  next
    case False
    with step have "y \<in> seen" by (auto simp: handled_def edges_iff)
    with step show ?thesis by blast
  qed
qed

lemma handled_step:
  assumes "handled adj seen (insert n Q)" "n \<notin> Q" "set new = set (nexts adj n) - seen"
  shows "handled adj (seen \<union> set (nexts adj n)) (Q \<union> set new)"
  using assms unfolding handled_def by blast

lemma guard_loop_iff:
  assumes "distinct queue" "set queue \<subseteq> seen" "handled adj seen (set queue)"
    and "\<forall>m \<in> seen - set queue. src \<notin> set (nexts adj m)"
  shows "guard_loop adj src seen queue \<longleftrightarrow> (\<exists>n \<in> set queue. (n, src) \<in> (edges adj)\<^sup>+)"
  using assms
proof (induction adj src seen queue rule: guard_loop.induct)
  case (1 adj src seen)
  then show ?case by simp
next
  case (2 adj src seen n queue)
  show ?case
  proof (cases "guard_scan src (nexts adj n) seen queue")
    case None
    then have "(n, src) \<in> (edges adj)\<^sup>+" by (auto simp: guard_scan_None edges_iff)
    with None show ?thesis by auto
  next
    case (Some sq)
    obtain seen' queue' where sq: "sq = (seen', queue')" by force
    with guard_scan_Some [of src "nexts adj n" seen queue] Some obtain new where new:
        "seen' = seen \<union> set (nexts adj n)" "queue' = queue @ new" "distinct new"
        "set new = set (nexts adj n) - seen"
      by auto
    have src: "src \<notin> set (nexts adj n)" using Some guard_scan_None [of src "nexts adj n" seen queue] by auto
    have set: "set queue' = set queue \<union> set new" using new by simp
    have dist: "distinct queue'" and sub: "set queue' \<subseteq> seen'" using new 2(2,3) by auto
    have hnd: "handled adj seen' (set queue')"
      using handled_step [of adj seen n "set queue" new] 2(2,4) new by (simp add: set)
    have avoid: "\<forall>m \<in> seen' - set queue'. src \<notin> set (nexts adj m)"
      using 2(5) src new(1,4) set by auto
    have ih: "guard_loop adj src seen' queue' \<longleftrightarrow> (\<exists>m \<in> set queue'. (m, src) \<in> (edges adj)\<^sup>+)"
      using 2(1) [OF Some sq [symmetric] dist sub hnd avoid] sq by simp
    have "(\<exists>m \<in> set queue'. (m, src) \<in> (edges adj)\<^sup>+) \<longleftrightarrow> (\<exists>m \<in> set (n # queue). (m, src) \<in> (edges adj)\<^sup>+)"
    proof
      assume "\<exists>m \<in> set queue'. (m, src) \<in> (edges adj)\<^sup>+"
      then show "\<exists>m \<in> set (n # queue). (m, src) \<in> (edges adj)\<^sup>+"
        using new by (auto simp: set edges_iff [symmetric] intro: trancl_into_trancl2)
    next
      assume "\<exists>m \<in> set (n # queue). (m, src) \<in> (edges adj)\<^sup>+"
      then obtain m where "m \<in> seen'" "(m, src) \<in> (edges adj)\<^sup>+" using 2(3) new(1) by auto
      then show "\<exists>m \<in> set queue'. (m, src) \<in> (edges adj)\<^sup>+"
        using frontier_avoiding [OF _ hnd avoid] by blast
    qed
    with ih Some sq show ?thesis by simp
  qed
qed

lemma would_cycle_iff: "would_cycle ts f src dst \<longleftrightarrow> (dst, src) \<in> (edges (family_adjacency ts f))\<^sup>+"
  unfolding would_cycle_def
  by (subst guard_loop_iff) (auto simp: handled_def)

section \<open>The arcs of a family\<close>

lemma set_map_filter: "set (List.map_filter f xs) = {y. \<exists>x \<in> set xs. f x = Some y}"
  by (induction xs) (auto simp: List.map_filter_simps split: option.splits)

definition arcs :: "tables \<Rightarrow> family \<Rightarrow> (pystr \<times> pystr) set" where
  "arcs ts f = {(a, b). \<exists>r \<in> set (relation_rows ts). row_arc r = Some (f, a, b)}"

lemma nexts_dset: "nexts (dset k v d) n = (if n = k then v else nexts d n)"
  by (simp add: nexts_def)

lemma edges_fold_arcs: "edges (fold add_arc as adj) = edges adj \<union> {(a, b). \<exists>g. (g, a, b) \<in> set as}"
proof (induction "as" arbitrary: adj)
  case (Cons x as)
  obtain g a b where x: "x = (g, a, b)" by (cases x)
  have "edges (add_arc x adj) = insert (a, b) (edges adj)"
    unfolding edges_def add_arc_def x by (auto simp: nexts_dset split: if_splits)
  with Cons x show ?case by auto
qed simp

lemma row_arc_family: "row_arc r = Some (g, a, b) \<Longrightarrow> text_of r ''type'' \<in> set (FAMILY_TYPES f) \<longleftrightarrow> g = f"
  by (cases f) (auto simp: row_arc_def relation_arc_def FAMILY_TYPES_def split: if_splits)

lemma edges_family_adjacency: "edges (family_adjacency ts f) = arcs ts f"
proof -
  let ?as = "List.map_filter row_arc
    (filter (\<lambda>r. text_of r ''type'' \<in> set (FAMILY_TYPES f)) (relation_rows ts))"
  have "(g, a, b) \<in> set ?as \<longleftrightarrow>
      (\<exists>r \<in> set (relation_rows ts). text_of r ''type'' \<in> set (FAMILY_TYPES f) \<and> row_arc r = Some (g, a, b))" for g a b
    by (simp add: set_map_filter Bex_def conj_assoc)
  then have "(g, a, b) \<in> set ?as \<longleftrightarrow> g = f \<and> (a, b) \<in> arcs ts f" for g a b
    using row_arc_family [of _ g a b f] by (simp add: arcs_def Bex_def conj_commute cong: conj_cong) blast
  moreover have "edges [] = {}" by (simp add: edges_def nexts_def)
  ultimately show ?thesis by (simp add: family_adjacency_def edges_fold_arcs)
qed

lemma nexts_map_value: "nexts (map (\<lambda>(k, v). (k, f v)) d) n = (case dget d n of None \<Rightarrow> [] | Some v \<Rightarrow> f v)"
  by (simp add: nexts_def map_of_map split: option.splits)

lemma edges_blocks_adjacency: "edges (blocks_adjacency ts) = arcs ts Blocks"
proof -
  have "set (nexts (blocks_adjacency ts) n) = set (nexts (family_adjacency ts Blocks) n)" for n
    by (cases "dget (family_adjacency ts Blocks) n") (simp_all add: blocks_adjacency_def nexts_map_value nexts_def [of "family_adjacency ts Blocks"])
  then have "edges (blocks_adjacency ts) = edges (family_adjacency ts Blocks)" by (simp add: edges_def)
  then show ?thesis by (simp add: edges_family_adjacency)
qed

text \<open>The lists are sorted and free of duplicates, so the graph does not depend on the order of the rows.\<close>

lemma nexts_blocks_adjacency: "nexts (blocks_adjacency ts) n = sorted_list_of_set {b. (n, b) \<in> arcs ts Blocks}"
proof -
  have "set (nexts (blocks_adjacency ts) n) = {b. (n, b) \<in> arcs ts Blocks}"
    by (auto simp: edges_blocks_adjacency [symmetric] edges_iff)
  moreover have "sorted (nexts (blocks_adjacency ts) n)" "distinct (nexts (blocks_adjacency ts) n)"
    by (auto simp: blocks_adjacency_def nexts_map_value split: option.splits)
  ultimately show ?thesis by (metis sorted_list_of_set.idem_if_sorted_distinct)
qed

text \<open>The guard is what keeps a family acyclic when an arc is added.\<close>

lemma guard_keeps_acyclic:
  assumes "acyclic (arcs ts f)" "\<not> would_cycle ts f src dst" "src \<noteq> dst"
  shows "acyclic (insert (src, dst) (arcs ts f))"
  using assms
  by (auto simp: acyclic_insert would_cycle_iff edges_family_adjacency rtrancl_eq_or_trancl)

text \<open>Two spellings of one fact have the same key, and only they do.\<close>

lemma relation_key_eq:
  assumes "t \<in> set RELATIONSHIP_TYPES" "t' \<in> set RELATIONSHIP_TYPES"
  shows "relation_key a b t = relation_key a' b' t' \<longleftrightarrow>
    t = t' \<and> (a, b) = (a', b') \<or> t = t' \<and> t \<in> set SYMMETRIC_TYPES \<and> (a, b) = (b', a') \<or>
    {t, t'} = {lit ''blocking'', lit ''blocked-by''} \<and> (a, b) = (b', a')"
  using assms
  by (auto simp: RELATIONSHIP_TYPES_def SYMMETRIC_TYPES_def relation_key_def relation_arc_def
      doubleton_eq_iff)

end
