(* ===== verification/Graph.thy ===== *)
theory Graph
  imports Relations
begin

text \<open>
  The dependency surface (\<open>core/graph.py\<close>) over the \<open>blocks\<close> arcs: the sub-graph reachable from a
  root, the shortest path between two tickets, and the depth-first guard that runs before it.  A
  search that runs over a \<open>deque\<close> or an explicit stack is a recursion over the queue or stack; the
  walks along the parent dictionary carry fuel, the size of that dictionary, which the lemmas below
  show to be enough.
\<close>

section \<open>The sub-graph\<close>

record dependency_graph =
  dg_nodes :: "pystr list"
  dg_edges :: "(pystr \<times> pystr) list"

fun graph_scan ::
    "pystr \<Rightarrow> nat \<Rightarrow> pystr list \<Rightarrow> pystr set \<times> (pystr \<times> pystr) set \<times> (pystr \<times> nat) list \<Rightarrow>
     pystr set \<times> (pystr \<times> pystr) set \<times> (pystr \<times> nat) list" where
  "graph_scan node dist [] s = s"
| "graph_scan node dist (x # xs) (seen, es, frontier) =
     (if x \<notin> seen then graph_scan node dist xs (insert x seen, insert (node, x) es, frontier @ [(x, dist + 1)])
      else graph_scan node dist xs (seen, insert (node, x) es, frontier))"

lemma graph_scan_result:
  "graph_scan node dist xs (seen, es, frontier) = (seen', es', frontier') \<Longrightarrow>
     seen' = seen \<union> set xs \<and> es' = es \<union> {node} \<times> set xs \<and>
     (\<exists>new. frontier' = frontier @ map (\<lambda>x. (x, Suc dist)) new \<and> distinct new \<and> set new = set xs - seen)"
proof (induction xs arbitrary: seen es frontier)
  case (Cons x xs)
  show ?case
  proof (cases "x \<in> seen")
    case True
    with Cons show ?thesis by auto
  next
    case False
    with Cons.prems have "graph_scan node dist xs (insert x seen, insert (node, x) es, frontier @ [(x, Suc dist)]) =
        (seen', es', frontier')"
      by simp
    from Cons.IH [OF this] obtain new where new: "seen' = insert x seen \<union> set xs"
        "es' = insert (node, x) es \<union> {node} \<times> set xs"
        "frontier' = (frontier @ [(x, Suc dist)]) @ map (\<lambda>x. (x, Suc dist)) new"
        "distinct new" "set new = set xs - insert x seen"
      by blast
    from new(1,2) have "seen' = seen \<union> set (x # xs)" "es' = es \<union> {node} \<times> set (x # xs)" by auto
    moreover from new(3-5) False have "frontier' = frontier @ map (\<lambda>x. (x, Suc dist)) (x # new)"
        "distinct (x # new)" "set (x # new) = set (x # xs) - seen"
      by auto
    ultimately show ?thesis by blast
  qed
qed simp

function graph_loop ::
    "adjacency \<Rightarrow> nat option \<Rightarrow> pystr set \<Rightarrow> (pystr \<times> pystr) set \<Rightarrow> (pystr \<times> nat) list \<Rightarrow>
     pystr set \<times> (pystr \<times> pystr) set" where
  "graph_loop adj depth seen es [] = (seen, es)"
| "graph_loop adj depth seen es ((node, dist) # frontier) =
     (if (case depth of None \<Rightarrow> False | Some d \<Rightarrow> d \<le> dist) then graph_loop adj depth seen es frontier
      else (case graph_scan node dist (nexts adj node) (seen, es, frontier) of
        (seen', es', frontier') \<Rightarrow> graph_loop adj depth seen' es' frontier'))"
  by pat_completeness auto
termination
proof (relation "measure (\<lambda>(adj, depth, seen, es, frontier). 2 * card (targets adj - seen) + length frontier)",
    goal_cases)
  case (3 adj depth seen es node dist frontier seen' y es' frontier')
  then have "graph_scan node dist (nexts adj node) (seen, es, frontier) = (seen', es', frontier')" by simp
  from graph_scan_result [OF this] obtain new where "seen' = seen \<union> set (nexts adj node)"
      "length frontier' = length (map fst frontier @ new)" "distinct new" "set new = set (nexts adj node) - seen"
    by auto
  then show ?case using bfs_measure [of new adj node seen "map fst frontier"] by simp
qed auto

definition dependency_graph_get :: "tables \<Rightarrow> pystr option \<Rightarrow> nat option \<Rightarrow> dependency_graph" where
  "dependency_graph_get ts root_id depth =
     (let adj = blocks_adjacency ts in
      case root_id of
        None \<Rightarrow>
          \<lparr>dg_nodes = sort (remdups (map fst adj @ concat (map snd adj))),
           dg_edges = sort (remdups (concat (map (\<lambda>(src, dsts). map (Pair src) dsts) adj)))\<rparr>
      | Some r \<Rightarrow>
          (case graph_loop adj depth {r} {} [(r, 0)] of
             (seen, es) \<Rightarrow> \<lparr>dg_nodes = sorted_list_of_set seen, dg_edges = sorted_list_of_set es\<rparr>))"

section \<open>The path\<close>

type_synonym parents = "(pystr, pystr option) dict"

fun path_scan ::
    "pystr \<Rightarrow> pystr \<Rightarrow> pystr list \<Rightarrow> parents \<Rightarrow> pystr list \<Rightarrow> parents + parents \<times> pystr list" where
  "path_scan node dst [] par queue = Inr (par, queue)"
| "path_scan node dst (x # xs) par queue =
     (if dget par x \<noteq> None then path_scan node dst xs par queue
      else if x = dst then Inl (dset x (Some node) par)
      else path_scan node dst xs (dset x (Some node) par) (queue @ [x]))"

fun walk_back :: "nat \<Rightarrow> parents \<Rightarrow> pystr option \<Rightarrow> pystr list" where
  "walk_back (Suc k) par (Some c) =
     c # (case dget par c of None \<Rightarrow> [] | Some p \<Rightarrow> walk_back k par p)"
| "walk_back _ _ _ = []"

lemma path_scan_Inr:
  "path_scan node dst xs par queue = Inr (par', queue') \<Longrightarrow>
     (dget par dst = None \<longrightarrow> dst \<notin> set xs) \<and>
     (\<forall>x. dget par' x = (if dget par x = None \<and> x \<in> set xs then Some (Some node) else dget par x)) \<and>
     (\<exists>new. queue' = queue @ new \<and> distinct new \<and> set new = {x \<in> set xs. dget par x = None})"
proof (induction node dst xs par queue rule: path_scan.induct)
  case (2 node dst x xs par queue)
  show ?case
  proof (cases "dget par x = None")
    case False
    with 2 have "(dget par dst = None \<longrightarrow> dst \<notin> set xs) \<and>
        (\<forall>x. dget par' x = (if dget par x = None \<and> x \<in> set xs then Some (Some node) else dget par x)) \<and>
        (\<exists>new. queue' = queue @ new \<and> distinct new \<and> set new = {x \<in> set xs. dget par x = None})"
      by simp
    moreover from False have "{y \<in> set (x # xs). dget par y = None} = {y \<in> set xs. dget par y = None}" by auto
    ultimately show ?thesis using False by auto
  next
    case True
    with 2(3) have ne: "x \<noteq> dst" and run: "path_scan node dst xs (dset x (Some node) par) (queue @ [x]) = Inr (par', queue')"
      by (auto split: if_splits)
    from True have "\<not> dget par x \<noteq> None" by simp
    from 2(2) [OF this ne run] ne obtain new where new: "dget par dst = None \<longrightarrow> dst \<notin> set xs"
        "\<forall>y. dget par' y = (if dget (dset x (Some node) par) y = None \<and> y \<in> set xs then Some (Some node)
           else dget (dset x (Some node) par) y)"
        "queue' = (queue @ [x]) @ new" "distinct new" "set new = {y \<in> set xs. dget (dset x (Some node) par) y = None}"
      by auto
    from new(2) True have "\<forall>y. dget par' y = (if dget par y = None \<and> y \<in> set (x # xs) then Some (Some node) else dget par y)"
      by auto
    moreover from new(3-5) True have "queue' = queue @ (x # new)" "distinct (x # new)"
        "set (x # new) = {y \<in> set (x # xs). dget par y = None}"
      by auto
    ultimately show ?thesis using new(1) ne by auto
  qed
qed simp

lemma path_scan_Inl:
  "path_scan node dst xs par queue = Inl par' \<Longrightarrow> dget par dst = None \<Longrightarrow>
     dst \<in> set xs \<and> dget par' dst = Some (Some node) \<and> (\<forall>x. dget par x \<noteq> None \<longrightarrow> dget par' x = dget par x) \<and>
     (\<forall>x. dget par x = None \<longrightarrow> dget par' x \<in> {None, Some (Some node)} \<and> (dget par' x \<noteq> None \<longrightarrow> x \<in> set xs))"
proof (induction node dst xs par queue rule: path_scan.induct)
  case (2 node dst x xs par queue)
  show ?case
  proof (cases "dget par x = None")
    case False
    with 2 show ?thesis by auto
  next
    case True
    show ?thesis
    proof (cases "x = dst")
      case eq: True
      with True 2(3) have "par' = dset dst (Some node) par" by simp
      with eq 2(4) show ?thesis by (auto split: if_splits)
    next
      case ne: False
      with True 2(3) have run: "path_scan node dst xs (dset x (Some node) par) (queue @ [x]) = Inl par'" by auto
      from True have "\<not> dget par x \<noteq> None" by simp
      from 2(2) [OF this ne run] 2(4) ne have ih: "dst \<in> set xs" "dget par' dst = Some (Some node)"
          "\<forall>y. dget (dset x (Some node) par) y \<noteq> None \<longrightarrow> dget par' y = dget (dset x (Some node) par) y"
          "\<forall>y. dget (dset x (Some node) par) y = None \<longrightarrow>
            dget par' y \<in> {None, Some (Some node)} \<and> (dget par' y \<noteq> None \<longrightarrow> y \<in> set xs)"
        by auto
      show ?thesis
      proof (intro conjI allI impI)
        fix y
        show "dget par y \<noteq> None \<Longrightarrow> dget par' y = dget par y" using ih(3) True by (cases "y = x") auto
        show "dget par y = None \<Longrightarrow> dget par' y \<in> {None, Some (Some node)}"
          and "dget par y = None \<Longrightarrow> dget par' y \<noteq> None \<Longrightarrow> y \<in> set (x # xs)"
          using ih(3,4) by (cases "y = x"; auto)+
      qed (use ih in auto)
    qed
  qed
qed simp

function path_loop :: "adjacency \<Rightarrow> pystr \<Rightarrow> parents \<Rightarrow> pystr list \<Rightarrow> pystr list option" where
  "path_loop adj dst par [] = None"
| "path_loop adj dst par (node # queue) =
     (case path_scan node dst (nexts adj node) par queue of
        Inl par' \<Rightarrow> Some (List.rev (walk_back (length par') par' (Some dst)))
      | Inr (par', queue') \<Rightarrow> path_loop adj dst par' queue')"
  by pat_completeness auto

termination
proof (relation "measure (\<lambda>(adj, dst, par, queue). 2 * card (targets adj - dom (dget par)) + length queue)",
    goal_cases)
  case (2 adj dst par node queue x par' queue')
  then have "path_scan node dst (nexts adj node) par queue = Inr (par', queue')" by simp
  from path_scan_Inr [OF this] obtain new where new: "queue' = queue @ new" "distinct new"
      "set new = {x \<in> set (nexts adj node). dget par x = None}"
      "\<forall>x. dget par' x = (if dget par x = None \<and> x \<in> set (nexts adj node) then Some (Some node) else dget par x)"
    by blast
  from new(4) have "dom (dget par') = dom (dget par) \<union> set (nexts adj node)" by (auto split: if_splits)
  moreover from new(3) have "set new = set (nexts adj node) - dom (dget par)" by auto
  ultimately show ?case using bfs_measure [of new adj node "dom (dget par)" queue] new(1,2) by simp
qed simp

definition bfs_path :: "adjacency \<Rightarrow> pystr \<Rightarrow> pystr \<Rightarrow> pystr list option" where
  "bfs_path adj src dst = (if src = dst then Some [src] else path_loop adj dst [(src, None)] [src])"

section \<open>The defensive guard\<close>

datatype color = Gray | Black

text \<open>Walking the parents from the current node up to the node re-entered.\<close>

fun walk_cycle :: "nat \<Rightarrow> parents \<Rightarrow> pystr \<Rightarrow> pystr \<Rightarrow> pystr list" where
  "walk_cycle 0 par target cursor = []"
| "walk_cycle (Suc k) par target cursor =
     (if cursor = target then []
      else case dget par cursor of Some (Some p) \<Rightarrow> p # walk_cycle k par target p | _ \<Rightarrow> [])"

function dfs_loop ::
    "adjacency \<Rightarrow> (pystr, color) dict \<Rightarrow> parents \<Rightarrow> (pystr \<times> pystr list) list \<Rightarrow> pystr list option" where
  "dfs_loop adj col par [] = None"
| "dfs_loop adj col par ((node, []) # st) = dfs_loop adj (dset node Black col) par st"
| "dfs_loop adj col par ((node, nxt # rest) # st) =
     (case dget col nxt of
        Some Gray \<Rightarrow> Some (List.rev (node # walk_cycle (length par) par nxt node))
      | None \<Rightarrow> dfs_loop adj (dset nxt Gray col) (dset nxt (Some node) par) ((nxt, nexts adj nxt) # (node, rest) # st)
      | Some Black \<Rightarrow> dfs_loop adj col par ((node, rest) # st))"
  by pat_completeness auto

text \<open>
  Discovering a node with neighbours uses up a key of the adjacency; any other step shortens what
  the stack has left to visit.
\<close>

termination
proof (relation "(\<lambda>(adj, col, par, st). card (set (dkeys adj) - dom (dget col))) <*mlex*>
    measure (\<lambda>(adj, col, par, st). 2 * sum_list (map (length \<circ> snd) st) + length st)", goal_cases)
  case 1
  show ?case by (simp add: wf_mlex)
next
  case (2 adj col par node st)
  show ?case by (auto intro!: mlex_leq card_mono split: if_splits)
next
  case (3 adj col par node nxt rest st)
  show ?case
  proof (cases "nxt \<in> set (dkeys adj)")
    case True
    moreover have "dom (dget (dset nxt Gray col)) = insert nxt (dom (dget col))" by (auto split: if_splits)
    moreover from 3 have "nxt \<notin> dom (dget col)" by (simp add: domIff)
    ultimately have "set (dkeys adj) - dom (dget (dset nxt Gray col)) \<subset> set (dkeys adj) - dom (dget col)" by blast
    then have "card (set (dkeys adj) - dom (dget (dset nxt Gray col))) < card (set (dkeys adj) - dom (dget col))"
      by (intro psubset_card_mono) simp_all
    then show ?thesis by (intro mlex_less) (simp only: prod.case)
  next
    case False
    then have "nexts adj nxt = []" by (simp add: nexts_def map_of_eq_None_iff [THEN iffD2])
    then show ?thesis by (auto intro!: mlex_leq card_mono split: if_splits)
  qed
next
  case (4 adj col par node nxt rest st)
  show ?case by (auto intro!: mlex_leq)
qed

definition find_cycle :: "adjacency \<Rightarrow> pystr \<Rightarrow> pystr list option" where
  "find_cycle adj start = dfs_loop adj [(start, Gray)] [(start, None)] [(start, nexts adj start)]"

record path_result =
  pr_found :: bool
  pr_path :: "pystr list"
  pr_cycle :: "pystr list option"

definition dependency_path_find :: "tables \<Rightarrow> pystr \<Rightarrow> pystr \<Rightarrow> path_result" where
  "dependency_path_find ts from_id to_id =
     (let adj = blocks_adjacency ts in
      case find_cycle adj from_id of
        Some c \<Rightarrow> \<lparr>pr_found = False, pr_path = [], pr_cycle = Some c\<rparr>
      | None \<Rightarrow>
          (case bfs_path adj from_id to_id of
             None \<Rightarrow> \<lparr>pr_found = False, pr_path = [], pr_cycle = None\<rparr>
           | Some p \<Rightarrow> \<lparr>pr_found = True, pr_path = p, pr_cycle = None\<rparr>))"

section \<open>The path is a shortest one\<close>

definition chain :: "adjacency \<Rightarrow> pystr list \<Rightarrow> bool" where
  "chain adj p \<longleftrightarrow> successively (\<lambda>a b. (a, b) \<in> edges adj) p"

lemma chain_Nil [simp]: "chain adj []" and chain_single [simp]: "chain adj [a]"
  by (simp_all add: chain_def)

lemma chain_snoc: "chain adj (p @ [a]) \<longleftrightarrow> chain adj p \<and> (p = [] \<or> (last p, a) \<in> edges adj)"
  by (auto simp: chain_def successively_append_iff)

lemma chain_reach: "chain adj p \<Longrightarrow> p \<noteq> [] \<Longrightarrow> (hd p, last p) \<in> (edges adj)\<^sup>*"
proof (induction p rule: rev_induct)
  case (snoc x xs)
  then show ?case
    by (cases "xs = []") (auto simp: chain_snoc hd_append intro: rtrancl.rtrancl_into_rtrancl)
qed simp

text \<open>
  The invariant of the search, with the depth of each discovered node as a ghost: every node but
  the start was discovered from one a level above, the queue is ordered by depth and spans two
  levels, and what was handled has all its successors discovered.
\<close>

definition bfs_ok :: "adjacency \<Rightarrow> pystr \<Rightarrow> parents \<Rightarrow> pystr list \<Rightarrow> (pystr \<Rightarrow> nat) \<Rightarrow> bool" where
  "bfs_ok adj src par queue d \<longleftrightarrow>
     dget par src = Some None \<and> d src = 0 \<and>
     (\<forall>n p. dget par n = Some (Some p) \<longrightarrow> (p, n) \<in> edges adj \<and> dget par p \<noteq> None \<and> d n = Suc (d p)) \<and>
     (\<forall>n. dget par n = Some None \<longrightarrow> n = src) \<and>
     distinct queue \<and> set queue \<subseteq> dom (dget par) \<and>
     sorted (map d queue) \<and> (\<forall>q \<in> set queue. d q \<le> Suc (d (hd queue))) \<and>
     (\<forall>m \<in> dom (dget par) - set queue. \<forall>y \<in> set (nexts adj m). y \<in> dom (dget par) \<and> d y \<le> Suc (d m)) \<and>
     (queue \<noteq> [] \<longrightarrow> (\<forall>m \<in> dom (dget par) - set queue. d m \<le> d (hd queue)))"

lemma bfs_ok_start: "bfs_ok adj src [(src, None)] [src] (\<lambda>_. 0)"
  by (auto simp: bfs_ok_def split: if_splits)

lemma bfs_ok_next:
  "bfs_ok adj src par queue d \<Longrightarrow> m \<in> dom (dget par) - set queue \<Longrightarrow> y \<in> set (nexts adj m) \<Longrightarrow>
     y \<in> dom (dget par) \<and> d y \<le> Suc (d m)"
  unfolding bfs_ok_def by blast

lemma bfs_ok_queue:
  assumes "bfs_ok adj src par (n # queue) d"
  shows "n \<in> dom (dget par)" "n \<notin> set queue" "sorted (map d queue)"
    "q \<in> set queue \<Longrightarrow> d n \<le> d q \<and> d q \<le> Suc (d n)" "m \<in> dom (dget par) - set (n # queue) \<Longrightarrow> d m \<le> d n"
    "distinct queue" "set queue \<subseteq> dom (dget par)"
  using assms by (simp_all add: bfs_ok_def)

lemma bfs_ok_lower:
  assumes "bfs_ok adj src par queue d" "(src, x) \<in> edges adj ^^ k"
  shows "(x \<in> dom (dget par) \<and> d x \<le> k) \<or> (\<exists>q \<in> set queue. d q < k)"
  using assms(2)
proof (induction k arbitrary: x)
  case 0
  have "dget par src = Some None" "d src = 0" using assms(1) unfolding bfs_ok_def by blast+
  with 0 show ?case by auto
next
  case (Suc k)
  then obtain y where y: "(src, y) \<in> edges adj ^^ k" "x \<in> set (nexts adj y)"
    by (auto simp: edges_iff)
  from Suc.IH [OF y(1)] show ?case
  proof
    assume "y \<in> dom (dget par) \<and> d y \<le> k"
    then show ?thesis
    proof (cases "y \<in> set queue")
      case True
      with \<open>y \<in> dom (dget par) \<and> d y \<le> k\<close> show ?thesis by (auto simp: less_Suc_eq_le)
    next
      case False
      with \<open>y \<in> dom (dget par) \<and> d y \<le> k\<close> bfs_ok_next [OF assms(1) _ y(2)] show ?thesis by force
    qed
  qed (meson less_SucI)
qed

lemma bfs_ok_step:
  assumes ok: "bfs_ok adj src par (n # queue) d"
    and par': "\<forall>x. dget par' x = (if dget par x = None \<and> x \<in> set (nexts adj n) then Some (Some n) else dget par x)"
    and new: "distinct new" "set new = {x \<in> set (nexts adj n). dget par x = None}"
  shows "bfs_ok adj src par' (queue @ new) (\<lambda>x. if x \<in> set new then Suc (d n) else d x)"
proof -
  let ?d = "\<lambda>x. if x \<in> set new then Suc (d n) else d x"
  note n = bfs_ok_queue [OF ok]
  have dom: "dom (dget par') = dom (dget par) \<union> set (nexts adj n)"
    by (rule set_eqI) (simp add: domIff par')
  have old: "dget par x \<noteq> None \<Longrightarrow> dget par' x = dget par x \<and> ?d x = d x" for x
    by (simp add: par' new(2))
  have off: "x \<in> dom (dget par) \<Longrightarrow> x \<notin> set new" for x using new(2) by auto
  have dq: "map ?d queue = map d queue" using n(7) off by auto
  have srt: "sorted (map ?d (queue @ new))"
  proof -
    have "map ?d new = replicate (length new) (Suc (d n))" by (simp add: map_eq_conv flip: map_replicate_const)
    then have "map ?d (queue @ new) = map d queue @ replicate (length new) (Suc (d n))" using dq by simp
    moreover have "sorted (map d queue @ replicate (length new) (Suc (d n)))"
      using n(3,4) by (auto simp: sorted_append)
    ultimately show ?thesis by (simp only:)
  qed
  have span: "\<forall>q \<in> set (queue @ new). ?d q \<le> Suc (?d (hd (queue @ new)))"
  proof
    fix q assume q: "q \<in> set (queue @ new)"
    have "?d q \<le> Suc (d n)" using q n(4) by auto
    moreover have "d n \<le> ?d (hd (queue @ new))" using q n(4) by (cases queue; cases new) auto
    ultimately show "?d q \<le> Suc (?d (hd (queue @ new)))" by linarith
  qed
  have fin: "?d m = d m \<and> d m \<le> d n \<and> (\<forall>y \<in> set (nexts adj m). y \<in> dom (dget par') \<and> ?d y \<le> Suc (d m))"
    if m: "m \<in> dom (dget par') - set (queue @ new)" for m
  proof -
    have m': "m \<in> dom (dget par)" "m \<notin> set new" "m = n \<or> m \<in> dom (dget par) - set (n # queue)"
      using m dom new(2) by auto
    have "?d m = d m" using m'(2) by simp
    moreover have "d m \<le> d n" using m'(3) n(5) by auto
    moreover have "y \<in> dom (dget par') \<and> ?d y \<le> Suc (d m)" if y: "y \<in> set (nexts adj m)" for y
    proof (cases "m = n")
      case True
      have "d y \<le> Suc (d n)" if "y \<in> dom (dget par)"
        using that n(4,5) by (cases "y \<in> set (n # queue)") force+
      then show ?thesis using True y dom new(2) by auto
    next
      case False
      with m'(3) have "y \<in> dom (dget par)" "d y \<le> Suc (d m)" using bfs_ok_next [OF ok _ y] by auto
      then show ?thesis using off dom by auto
    qed
    ultimately show ?thesis by blast
  qed
  have head: "d n \<le> ?d (hd (queue @ new))" if "queue @ new \<noteq> []"
    using that n(4) by (cases queue; cases new) auto
  have tree: "(p, x) \<in> edges adj \<and> dget par' p \<noteq> None \<and> ?d x = Suc (?d p)" if "dget par' x = Some (Some p)" for x p
  proof (cases "dget par x = None")
    case True
    with that par' have "p = n" "x \<in> set (nexts adj n)" by (auto split: if_splits)
    moreover have "n \<notin> set new" "dget par' n \<noteq> None" using n(1) off old [of n] by (simp_all add: domIff)
    moreover have "x \<in> set new" using True \<open>x \<in> set (nexts adj n)\<close> new(2) by auto
    ultimately show ?thesis by (simp add: edges_iff)
  next
    case False
    with old that have x: "dget par x = Some (Some p)" "?d x = d x" by auto
    with ok have p: "(p, x) \<in> edges adj" "dget par p \<noteq> None" "d x = Suc (d p)" unfolding bfs_ok_def by blast+
    with old [of p] x(2) show ?thesis by auto
  qed
  have start: "dget par' src = Some None" "?d src = 0" "\<forall>x. dget par' x = Some None \<longrightarrow> x = src"
  proof -
    have src: "dget par src = Some None" "d src = 0" "\<forall>x. dget par x = Some None \<longrightarrow> x = src"
      using ok unfolding bfs_ok_def by blast+
    show "dget par' src = Some None" "?d src = 0" using src(1,2) off [of src] by (simp_all add: par' domIff)
    show "\<forall>x. dget par' x = Some None \<longrightarrow> x = src"
    proof (intro allI impI)
      fix x assume "dget par' x = Some None"
      then have "dget par x = Some None" using par' by (cases "dget par x") (auto split: if_splits)
      with src(3) show "x = src" by blast
    qed
  qed
  have queue: "distinct (queue @ new)" "set (queue @ new) \<subseteq> dom (dget par')"
    using n(6,7) new off dom by auto
  have rest: "\<forall>m \<in> dom (dget par') - set (queue @ new). \<forall>y \<in> set (nexts adj m). y \<in> dom (dget par') \<and> ?d y \<le> Suc (?d m)"
    using fin by simp
  have level: "queue @ new \<noteq> [] \<longrightarrow> (\<forall>m \<in> dom (dget par') - set (queue @ new). ?d m \<le> ?d (hd (queue @ new)))"
    using fin head by (metis (mono_tags, lifting) order.trans)
  show ?thesis
    unfolding bfs_ok_def by (intro conjI) (fact start(1) | fact start(2) | use tree in blast | fact start(3) | fact queue(1)
      | fact queue(2) | fact srt | fact span | fact rest | fact level)+
qed

text \<open>The parents form a tree whose levels are the depths, so a walk to the root ends within its size.\<close>

definition parent_tree :: "adjacency \<Rightarrow> pystr \<Rightarrow> parents \<Rightarrow> (pystr \<Rightarrow> nat) \<Rightarrow> bool" where
  "parent_tree adj src par d \<longleftrightarrow> d src = 0 \<and>
     (\<forall>n p. dget par n = Some (Some p) \<longrightarrow> (p, n) \<in> edges adj \<and> dget par p \<noteq> None \<and> d n = Suc (d p)) \<and>
     (\<forall>n. dget par n = Some None \<longrightarrow> n = src)"

lemma parent_treeD:
  assumes "parent_tree adj src par d" "dget par n = Some q"
  shows "q = None \<Longrightarrow> n = src \<and> d n = 0"
    and "q = Some p \<Longrightarrow> (p, n) \<in> edges adj \<and> dget par p \<noteq> None \<and> d n = Suc (d p)"
  using assms unfolding parent_tree_def by blast+

lemma walk_back_chain:
  assumes "parent_tree adj src par d" "dget par n \<noteq> None" "d n < k"
  shows "chain adj (List.rev (walk_back k par (Some n))) \<and> hd (List.rev (walk_back k par (Some n))) = src \<and>
    last (List.rev (walk_back k par (Some n))) = n \<and> length (walk_back k par (Some n)) = Suc (d n)"
  using assms(2,3)
proof (induction k arbitrary: n)
  case (Suc k)
  then obtain q where q: "dget par n = Some q" by blast
  show ?case
  proof (cases q)
    case None
    with parent_treeD(1) [OF assms(1) q] q show ?thesis by (cases k) auto
  next
    case (Some p)
    from parent_treeD(2) [OF assms(1) q Some] have p: "(p, n) \<in> edges adj" "dget par p \<noteq> None" "d n = Suc (d p)"
      by auto
    with Suc.prems have "d p < k" by simp
    from Suc.IH [OF p(2) this] p q Some show ?thesis by (auto simp: chain_snoc hd_append)
  qed
qed simp

lemma parent_tree_levels:
  assumes "parent_tree adj src par d" "dget par n \<noteq> None"
  shows "d n < length par"
proof -
  have levels: "{..d m} \<subseteq> d ` dom (dget par)" if "dget par m \<noteq> None" "d m = k" for m k
    using that
  proof (induction k arbitrary: m)
    case 0
    then show ?case by (auto simp: image_iff domIff intro!: bexI [of _ m])
  next
    case (Suc k)
    then obtain q where q: "dget par m = Some q" by blast
    with parent_treeD(1) [OF assms(1) q] Suc.prems obtain p where "q = Some p" by (cases q) auto
    from parent_treeD(2) [OF assms(1) q this] Suc.prems have p: "dget par p \<noteq> None" "d p = k" by auto
    from Suc.IH [OF p] p(2) Suc.prems have "{..k} \<subseteq> d ` dom (dget par)" "Suc k \<in> d ` dom (dget par)"
      by (auto simp: image_iff domIff intro!: bexI [of _ m])
    with Suc.prems show ?case by (auto simp: atMost_Suc)
  qed
  have "card {..d n} \<le> card (d ` dom (dget par))"
    using levels [OF assms(2) refl] by (intro card_mono) (auto simp: finite_dom_map_of)
  also have "\<dots> \<le> card (dom (dget par))" by (intro card_image_le finite_dom_map_of)
  also have "\<dots> \<le> length par"
    by (metis card_length dom_map_of_conv_image_fst length_map list.set_map)
  finally show ?thesis by simp
qed

definition shortest :: "adjacency \<Rightarrow> pystr \<Rightarrow> pystr \<Rightarrow> pystr list \<Rightarrow> bool" where
  "shortest adj src dst p \<longleftrightarrow> p \<noteq> [] \<and> hd p = src \<and> last p = dst \<and> chain adj p \<and>
     (\<forall>k. (src, dst) \<in> edges adj ^^ k \<longrightarrow> length p \<le> Suc k)"

lemma path_found:
  assumes ok: "bfs_ok adj src par (node # queue) d" and dst: "dget par dst = None"
    and scan: "path_scan node dst (nexts adj node) par queue = Inl par'"
  shows "shortest adj src dst (List.rev (walk_back (length par') par' (Some dst)))"
proof -
  let ?d = "\<lambda>x. if dget par x = None then Suc (d node) else d x"
  have node: "dget par node \<noteq> None" using bfs_ok_queue(1) [OF ok] by (simp add: domIff)
  from path_scan_Inl [OF scan dst] have r: "dget par' dst = Some (Some node)"
      "\<forall>x. dget par x \<noteq> None \<longrightarrow> dget par' x = dget par x"
      "\<forall>x. dget par x = None \<longrightarrow> dget par' x \<in> {None, Some (Some node)} \<and> (dget par' x \<noteq> None \<longrightarrow> x \<in> set (nexts adj node))"
    by blast+
  have src: "dget par src = Some None" "d src = 0" "\<forall>x. dget par x = Some None \<longrightarrow> x = src"
    and old: "\<forall>n p. dget par n = Some (Some p) \<longrightarrow> (p, n) \<in> edges adj \<and> dget par p \<noteq> None \<and> d n = Suc (d p)"
    using ok unfolding bfs_ok_def by blast+
  have "parent_tree adj src par' ?d"
    unfolding parent_tree_def
  proof (intro conjI allI impI)
    show "?d src = 0" using src(1,2) by simp
    fix n
    show "n = src" if "dget par' n = Some None"
    proof (cases "dget par n = None")
      case True
      with r(3) that show ?thesis by force
    next
      case False
      with r(2) that have "dget par n = Some None" by metis
      with src(3) show ?thesis by blast
    qed
    fix p assume n: "dget par' n = Some (Some p)"
    have "(p, n) \<in> edges adj \<and> dget par p \<noteq> None \<and> ?d n = Suc (d p)"
    proof (cases "dget par n = None")
      case True
      with n r(3) have "p = node" "n \<in> set (nexts adj node)" by force+
      with True node show ?thesis by (simp add: edges_iff)
    next
      case False
      with n r(2) have "dget par n = Some (Some p)" by simp
      with old False show ?thesis by auto
    qed
    then show "(p, n) \<in> edges adj" "dget par' p \<noteq> None" "?d n = Suc (?d p)" using r(2) by auto
  qed
  from walk_back_chain [OF this _ parent_tree_levels [OF this]] r(1) dst
  have p: "chain adj (List.rev (walk_back (length par') par' (Some dst)))"
      "hd (List.rev (walk_back (length par') par' (Some dst))) = src"
      "last (List.rev (walk_back (length par') par' (Some dst))) = dst"
      "length (walk_back (length par') par' (Some dst)) = Suc (Suc (d node))"
    by auto
  moreover have "Suc (d node) \<le> k" if "(src, dst) \<in> edges adj ^^ k" for k
  proof -
    from bfs_ok_lower [OF ok that] dst obtain q where "q \<in> set (node # queue)" "d q < k" by (auto simp: domIff)
    with bfs_ok_queue(4) [OF ok, of q] show ?thesis by auto
  qed
  moreover have "List.rev (walk_back (length par') par' (Some dst)) \<noteq> []" using p(4) by (auto simp flip: length_greater_0_conv)
  ultimately show ?thesis unfolding shortest_def by simp
qed

lemma path_loop_result:
  assumes "bfs_ok adj src par queue d" "dget par dst = None"
  shows "case path_loop adj dst par queue of
    Some p \<Rightarrow> shortest adj src dst p | None \<Rightarrow> (src, dst) \<notin> (edges adj)\<^sup>*"
  using assms
proof (induction adj dst par queue arbitrary: d rule: path_loop.induct)
  case (1 adj dst par)
  have "dst \<in> dom (dget par)" if "(src, dst) \<in> (edges adj)\<^sup>*"
  proof -
    from that obtain k where "(src, dst) \<in> edges adj ^^ k" using rtrancl_imp_relpow by blast
    from bfs_ok_lower [OF 1(1) this] show ?thesis by simp
  qed
  with 1(2) show ?case by (auto simp: domIff)
next
  case (2 adj dst par node queue)
  show ?case
  proof (cases "path_scan node dst (nexts adj node) par queue")
    case (Inl par')
    with path_found [OF 2(2,3) Inl] show ?thesis by simp
  next
    case (Inr pq)
    obtain par' queue' where pq: "pq = (par', queue')" by force
    note r = path_scan_Inr [OF Inr [unfolded pq]]
    obtain new where new: "queue' = queue @ new" "distinct new"
        "set new = {x \<in> set (nexts adj node). dget par x = None}"
      using r [THEN conjunct2, THEN conjunct2] by (elim exE conjE)
    note par' = r [THEN conjunct2, THEN conjunct1]
    have "dget par' dst = None" using r [THEN conjunct1] 2(3) by (simp add: par' [rule_format, of dst])
    from 2(1) [OF Inr pq [symmetric] bfs_ok_step [OF 2(2) par' new(2,3), folded new(1)] this] Inr pq
    show ?thesis by simp
  qed
qed

lemma bfs_path_result:
  "case bfs_path adj src dst of Some p \<Rightarrow> shortest adj src dst p | None \<Rightarrow> (src, dst) \<notin> (edges adj)\<^sup>*"
proof (cases "src = dst")
  case True
  then show ?thesis by (simp add: bfs_path_def shortest_def)
next
  case False
  with path_loop_result [OF bfs_ok_start, of src dst adj] show ?thesis by (simp add: bfs_path_def)
qed

section \<open>The guard finds a cycle exactly when one is reachable\<close>

definition is_cycle :: "adjacency \<Rightarrow> pystr list \<Rightarrow> bool" where
  "is_cycle adj c \<longleftrightarrow> c \<noteq> [] \<and> distinct c \<and> chain adj c \<and> (last c, hd c) \<in> edges adj"

text \<open>
  The invariant: the stack is a path of the grey nodes, each the parent of the one above it; a
  black node has only black successors and the black nodes carry no cycle; a successor of a grey
  node is still to visit, black, or above it on the stack.
\<close>

definition blacks :: "(pystr, color) dict \<Rightarrow> pystr set" where
  "blacks col = {n. dget col n = Some Black}"

fun parented :: "adjacency \<Rightarrow> parents \<Rightarrow> pystr list \<Rightarrow> bool" where
  "parented adj par (a # b # ns) \<longleftrightarrow> dget par a = Some (Some b) \<and> (b, a) \<in> edges adj \<and> parented adj par (b # ns)"
| "parented adj par _ \<longleftrightarrow> True"

fun frames :: "adjacency \<Rightarrow> pystr set \<Rightarrow> (pystr \<times> pystr list) list \<Rightarrow> bool" where
  "frames adj ok [] \<longleftrightarrow> True"
| "frames adj ok ((n, rest) # st) \<longleftrightarrow>
     set rest \<subseteq> set (nexts adj n) \<and> set (nexts adj n) \<subseteq> set rest \<union> ok \<and> frames adj (insert n ok) st"

lemma frames_mono: "frames adj ok st \<Longrightarrow> ok \<subseteq> ok' \<Longrightarrow> frames adj ok' st"
proof (induction adj ok st arbitrary: ok' rule: frames.induct)
  case (2 adj ok n rest st)
  have "frames adj (insert n ok') st" by (rule 2(1)) (use 2(2,3) in auto)
  with 2(2,3) show ?case by auto
qed simp

definition dfs_ok ::
    "adjacency \<Rightarrow> pystr \<Rightarrow> (pystr, color) dict \<Rightarrow> parents \<Rightarrow> (pystr \<times> pystr list) list \<Rightarrow> bool" where
  "dfs_ok adj start col par st \<longleftrightarrow>
     distinct (map fst st) \<and> {n. dget col n = Some Gray} = set (map fst st) \<and>
     edges adj `` blacks col \<subseteq> blacks col \<and> acyclic (edges adj \<inter> blacks col \<times> UNIV) \<and>
     frames adj (blacks col) st \<and> parented adj par (map fst st) \<and> set (map fst st) \<subseteq> dom (dget par) \<and>
     start \<in> dom (dget col) \<and> (\<forall>n \<in> dom (dget col). (start, n) \<in> (edges adj)\<^sup>*)"

lemma dfs_ok_start: "dfs_ok adj start [(start, Gray)] [(start, None)] [(start, nexts adj start)]"
  by (auto simp: dfs_ok_def blacks_def acyclic_def split: if_splits)

text \<open>A node whose successors are all black joins them without closing a cycle.\<close>

lemma acyclic_add_source:
  assumes "acyclic (R \<inter> B \<times> UNIV)" "R `` B \<subseteq> B" "R `` {n} \<subseteq> B" "n \<notin> B"
  shows "acyclic (R \<inter> insert n B \<times> UNIV)"
proof -
  have "(x, y) \<in> (R \<inter> insert n B \<times> UNIV)\<^sup>+ \<Longrightarrow> y \<in> B \<and> (x = n \<or> (x, y) \<in> (R \<inter> B \<times> UNIV)\<^sup>+)" for x y
  proof (induction rule: trancl_induct)
    case (base y)
    with assms(2,3) show ?case by blast
  next
    case (step y z)
    then have "(y, z) \<in> R \<inter> B \<times> UNIV" using assms(4) by blast
    moreover from this assms(2) have "z \<in> B" by blast
    ultimately show ?case using step.IH by (blast intro: trancl_into_trancl)
  qed
  with assms(1,4) show ?thesis unfolding acyclic_def by blast
qed

lemma dfs_ok_black:
  assumes "dfs_ok adj start col par ((n, []) # st)"
  shows "dfs_ok adj start (dset n Black col) par st"
proof -
  have ok: "n \<notin> set (map fst st)" "distinct (map fst st)" "{m. dget col m = Some Gray} = insert n (set (map fst st))"
      "edges adj `` blacks col \<subseteq> blacks col" "acyclic (edges adj \<inter> blacks col \<times> UNIV)"
      "set (nexts adj n) \<subseteq> blacks col" "frames adj (insert n (blacks col)) st"
      "parented adj par (n # map fst st)" "set (map fst st) \<subseteq> dom (dget par)"
      "start \<in> dom (dget col)" "\<forall>m \<in> dom (dget col). (start, m) \<in> (edges adj)\<^sup>*"
    using assms by (auto simp: dfs_ok_def)
  have n: "dget col n = Some Gray" using ok(3) by blast
  then have b: "blacks (dset n Black col) = insert n (blacks col)" and nb: "n \<notin> blacks col"
    by (auto simp: blacks_def)
  have "edges adj `` {n} \<subseteq> blacks col" using ok(6) by (auto simp: edges_iff)
  with ok(4,5) nb have "acyclic (edges adj \<inter> blacks (dset n Black col) \<times> UNIV)"
      "edges adj `` blacks (dset n Black col) \<subseteq> blacks (dset n Black col)"
    unfolding b by (auto intro: acyclic_add_source)
  moreover have "{m. dget (dset n Black col) m = Some Gray} = set (map fst st)"
    using ok(1,3) by (auto split: if_splits)
  moreover have "parented adj par (map fst st)" using ok(8) by (cases st) auto
  moreover have "\<forall>m \<in> dom (dget (dset n Black col)). (start, m) \<in> (edges adj)\<^sup>*"
    using ok(11) n by (auto split: if_splits)
  ultimately show ?thesis using ok(2,7,9,10) by (auto simp: dfs_ok_def b split: if_splits)
qed

lemma dfs_ok_skip:
  "dfs_ok adj start col par ((n, x # rest) # st) \<Longrightarrow> dget col x = Some Black \<Longrightarrow> dfs_ok adj start col par ((n, rest) # st)"
  by (auto simp: dfs_ok_def blacks_def)

lemma parented_cong: "(\<And>n. n \<in> set ns \<Longrightarrow> dget par' n = dget par n) \<Longrightarrow> parented adj par ns \<Longrightarrow> parented adj par' ns"
  by (induction adj par ns rule: parented.induct) auto

lemma dfs_ok_enter:
  assumes "dfs_ok adj start col par ((n, x # rest) # st)" "dget col x = None"
  shows "dfs_ok adj start (dset x Gray col) (dset x (Some n) par) ((x, nexts adj x) # (n, rest) # st)"
proof -
  have ok: "distinct (n # map fst st)" "{m. dget col m = Some Gray} = set (n # map fst st)"
      "edges adj `` blacks col \<subseteq> blacks col" "acyclic (edges adj \<inter> blacks col \<times> UNIV)"
      "set (x # rest) \<subseteq> set (nexts adj n)" "set (nexts adj n) \<subseteq> set (x # rest) \<union> blacks col"
      "frames adj (insert n (blacks col)) st"
      "parented adj par (n # map fst st)" "set (n # map fst st) \<subseteq> dom (dget par)"
      "start \<in> dom (dget col)" "\<forall>m \<in> dom (dget col). (start, m) \<in> (edges adj)\<^sup>*"
    using assms(1) by (auto simp: dfs_ok_def)
  have x: "x \<notin> set (n # map fst st)"
  proof
    assume "x \<in> set (n # map fst st)"
    with ok(2) have "dget col x = Some Gray" by blast
    with assms(2) show False by simp
  qed
  have nx: "(n, x) \<in> edges adj" using ok(5) by (auto simp: edges_iff)
  have b: "blacks (dset x Gray col) = blacks col" using assms(2) by (auto simp: blacks_def split: if_splits)
  have "parented adj (dset x (Some n) par) (n # map fst st)"
    using ok(8) x by (intro parented_cong [of "n # map fst st" "dset x (Some n) par" par]) auto
  then have "parented adj (dset x (Some n) par) (x # n # map fst st)" using nx by simp
  moreover have "frames adj (insert n (insert x (blacks col))) st" using ok(7) by (rule frames_mono) auto
  then have "frames adj (blacks col) ((x, nexts adj x) # (n, rest) # st)" using ok(5,6) by auto
  moreover have "{m. dget (dset x Gray col) m = Some Gray} = set (x # n # map fst st)"
    using ok(2) by (auto split: if_splits)
  moreover have "\<forall>m \<in> dom (dget (dset x Gray col)). (start, m) \<in> (edges adj)\<^sup>*"
  proof -
    have "dget col n = Some Gray" using ok(2) by auto
    with ok(11) have "(start, n) \<in> (edges adj)\<^sup>*" by blast
    with nx have "(start, x) \<in> (edges adj)\<^sup>*" by (rule rtrancl.rtrancl_into_rtrancl [rotated])
    with ok(11) show ?thesis by (auto split: if_splits)
  qed
  moreover have "distinct (x # n # map fst st)" using ok(1) x by simp
  moreover have "set (x # n # map fst st) \<subseteq> dom (dget (dset x (Some n) par))" using ok(9) by auto
  moreover have "start \<in> dom (dget (dset x Gray col))" using ok(10) by auto
  ultimately show ?thesis using ok(3,4) unfolding dfs_ok_def b list.map fst_conv by blast
qed

lemma walk_cycle_parented:
  "parented adj par (n # ns) \<Longrightarrow> distinct (n # ns) \<Longrightarrow> x \<in> set (n # ns) \<Longrightarrow> length ns \<le> k \<Longrightarrow>
     \<exists>us vs. n # ns = us @ x # vs \<and> n # walk_cycle k par x n = us @ [x]"
proof (induction k arbitrary: n ns)
  case 0
  then show ?case by (intro exI [of _ "[]"]) auto
next
  case (Suc k)
  show ?case
  proof (cases "n = x")
    case True
    then show ?thesis by (intro exI [of _ "[]"] exI [of _ ns]) simp
  next
    case False
    with Suc.prems(3) obtain m ms where ns: "ns = m # ms" by (cases ns) auto
    with Suc.prems False have "parented adj par (m # ms)" "distinct (m # ms)" "x \<in> set (m # ms)" "length ms \<le> k"
        and par: "dget par n = Some (Some m)"
      by auto
    from Suc.IH [OF this(1-4)] obtain us vs where "m # ms = us @ x # vs" "m # walk_cycle k par x m = us @ [x]"
      by blast
    then have "n # ns = (n # us) @ x # vs \<and> n # walk_cycle (Suc k) par x n = (n # us) @ [x]"
      using False par ns by simp
    then show ?thesis by blast
  qed
qed

lemma parented_chain: "parented adj par ns \<Longrightarrow> chain adj (List.rev ns)"
  unfolding chain_def successively_rev by (induction adj par ns rule: parented.induct) auto

lemma parented_take: "parented adj par (us @ vs) \<Longrightarrow> parented adj par us"
proof (induction us)
  case (Cons a us)
  then show ?case by (cases us; cases vs) auto
qed simp

lemma dfs_back_edge:
  assumes "dfs_ok adj start col par ((n, x # rest) # st)" "dget col x = Some Gray"
  shows "is_cycle adj (List.rev (n # walk_cycle (length par) par x n)) \<and>
    set (n # walk_cycle (length par) par x n) \<subseteq> (edges adj)\<^sup>* `` {start}"
proof -
  have ok: "distinct (n # map fst st)" "{m. dget col m = Some Gray} = set (n # map fst st)"
      "(n, x) \<in> edges adj" "parented adj par (n # map fst st)" "set (n # map fst st) \<subseteq> dom (dget par)"
      "\<forall>m \<in> dom (dget col). (start, m) \<in> (edges adj)\<^sup>*"
    using assms(1) by (auto simp: dfs_ok_def edges_iff)
  have "card (set (n # map fst st)) \<le> card (dom (dget par))" using ok(5) by (intro card_mono finite_dom_map_of)
  also have "\<dots> \<le> length par"
    by (metis card_length dom_map_of_conv_image_fst length_map list.set_map)
  finally have "length (map fst st) \<le> length par" using distinct_card [OF ok(1)] by simp
  moreover have "x \<in> set (n # map fst st)" using ok(2) assms(2) by auto
  ultimately obtain us vs where walk: "n # map fst st = us @ x # vs" "n # walk_cycle (length par) par x n = us @ [x]"
    using walk_cycle_parented [OF ok(4,1), of x] by blast
  have "parented adj par (us @ [x])" using ok(4) walk(1) parented_take [of adj par "us @ [x]" vs] by simp
  then have "chain adj (List.rev (us @ [x]))" by (rule parented_chain)
  moreover have "distinct (us @ [x])" using ok(1) walk(1) by (metis append.assoc append_Cons append_Nil distinct_append)
  moreover have "last (List.rev (us @ [x])) = n" using walk(1) by (cases us) auto
  moreover have "set (us @ [x]) \<subseteq> set (n # map fst st)" using walk(1) by auto
  then have "set (us @ [x]) \<subseteq> (edges adj)\<^sup>* `` {start}" using ok(2,6) by blast
  ultimately show ?thesis unfolding is_cycle_def walk(2) using ok(3) by simp
qed

lemma dfs_loop_result:
  "dfs_ok adj start col par st \<Longrightarrow>
     case dfs_loop adj col par st of
       Some c \<Rightarrow> is_cycle adj c \<and> set c \<subseteq> (edges adj)\<^sup>* `` {start}
     | None \<Rightarrow> acyclic (edges adj \<inter> (edges adj)\<^sup>* `` {start} \<times> UNIV)"
proof (induction adj col par st rule: dfs_loop.induct)
  case (1 adj col par)
  then have ok: "start \<in> blacks col" "edges adj `` blacks col \<subseteq> blacks col" "acyclic (edges adj \<inter> blacks col \<times> UNIV)"
    by (auto simp: dfs_ok_def blacks_def) (metis color.exhaust)
  from ok(1,2) have "(edges adj)\<^sup>* `` {start} \<subseteq> blacks col"
    by (metis Image_closed_trancl Image_mono empty_subsetI insert_subset order_refl subset_trans)
  with ok(3) show ?case by (auto intro: acyclic_subset)
next
  case (2 adj col par node st)
  from 2(1) [OF dfs_ok_black [OF 2(2)]] show ?case by simp
next
  case (3 adj col par node x rest st)
  show ?case
  proof (cases "dget col x")
    case None
    from 3(1) [OF None dfs_ok_enter [OF 3(3) None]] None show ?thesis by simp
  next
    case (Some c)
    show ?thesis
    proof (cases c)
      case Gray
      with dfs_back_edge [OF 3(3)] Some show ?thesis by simp
    next
      case Black
      with Some 3(2) [OF _ _ dfs_ok_skip [OF 3(3)]] show ?thesis by simp
    qed
  qed
qed

lemma find_cycle_result:
  "case find_cycle adj start of
     Some c \<Rightarrow> is_cycle adj c \<and> set c \<subseteq> (edges adj)\<^sup>* `` {start}
   | None \<Rightarrow> \<not> (\<exists>x. (start, x) \<in> (edges adj)\<^sup>* \<and> (x, x) \<in> (edges adj)\<^sup>+)"
proof -
  have "(x, y) \<in> (edges adj)\<^sup>+ \<Longrightarrow> (start, x) \<in> (edges adj)\<^sup>* \<Longrightarrow>
      (x, y) \<in> (edges adj \<inter> (edges adj)\<^sup>* `` {start} \<times> UNIV)\<^sup>+" for x y
  proof (induction rule: trancl_induct)
    case (step y z)
    then have "(start, y) \<in> (edges adj)\<^sup>*" by (meson rtrancl_trans trancl_into_rtrancl)
    with step show ?case by (intro trancl_into_trancl [OF step.IH [OF step.prems]]) auto
  qed auto
  then show ?thesis
    using dfs_loop_result [OF dfs_ok_start, of adj start]
    by (auto simp: find_cycle_def acyclic_def split: option.splits)
qed

section \<open>The sub-graph is what the root reaches\<close>

definition within :: "nat option \<Rightarrow> nat \<Rightarrow> bool" where
  "within depth k \<longleftrightarrow> (case depth of None \<Rightarrow> True | Some d \<Rightarrow> k \<le> d)"

definition graph_ok ::
    "adjacency \<Rightarrow> nat option \<Rightarrow> pystr \<Rightarrow> pystr set \<Rightarrow> (pystr \<times> pystr) set \<Rightarrow> (pystr \<times> nat) list \<Rightarrow> bool" where
  "graph_ok adj depth root seen es frontier \<longleftrightarrow>
     root \<in> seen \<and> set (map fst frontier) \<subseteq> seen \<and>
     (\<forall>n \<in> seen. \<exists>k. within depth k \<and> (root, n) \<in> edges adj ^^ k) \<and>
     (\<forall>(n, k) \<in> set frontier. within depth k \<and> (root, n) \<in> edges adj ^^ k) \<and>
     es \<subseteq> edges adj \<inter> seen \<times> seen \<and>
     (depth = None \<longrightarrow> (\<forall>n \<in> seen - set (map fst frontier). set (nexts adj n) \<subseteq> seen \<and> {n} \<times> set (nexts adj n) \<subseteq> es))"

lemma graph_ok_step:
  assumes ok: "graph_ok adj depth root seen es ((n, k) # frontier)"
    and scan: "graph_scan n k (nexts adj n) (seen, es, frontier) = (seen', es', frontier')"
    and deep: "\<not> (case depth of None \<Rightarrow> False | Some d \<Rightarrow> d \<le> k)"
  shows "graph_ok adj depth root seen' es' frontier'"
proof -
  from graph_scan_result [OF scan] obtain new where r: "seen' = seen \<union> set (nexts adj n)"
      "es' = es \<union> {n} \<times> set (nexts adj n)" "frontier' = frontier @ map (\<lambda>x. (x, Suc k)) new"
      "set new = set (nexts adj n) - seen"
    by blast
  have n: "(root, n) \<in> edges adj ^^ k" "n \<in> seen" using ok by (auto simp: graph_ok_def)
  have next_ok: "within depth (Suc k) \<and> (root, x) \<in> edges adj ^^ Suc k" if "x \<in> set (nexts adj n)" for x
    using that n(1) deep by (auto simp: within_def edges_iff intro: relcompI split: option.splits)
  have "\<forall>x \<in> seen'. \<exists>j. within depth j \<and> (root, x) \<in> edges adj ^^ j"
    using ok next_ok unfolding r(1) graph_ok_def by blast
  moreover have "\<forall>(x, j) \<in> set frontier'. within depth j \<and> (root, x) \<in> edges adj ^^ j"
    using ok next_ok r(4) unfolding r(3) graph_ok_def by (auto simp del: relpow.simps)
  moreover have "es' \<subseteq> edges adj \<inter> seen' \<times> seen'"
    using ok n(2) unfolding r graph_ok_def by (auto simp: edges_iff)
  moreover have "set (map fst frontier') \<subseteq> seen'" "root \<in> seen'"
    using ok r(4) unfolding r(1,3) graph_ok_def by auto
  moreover have "set (nexts adj m) \<subseteq> seen' \<and> {m} \<times> set (nexts adj m) \<subseteq> es'"
    if "depth = None" "m \<in> seen' - set (map fst frontier')" for m
  proof (cases "m = n")
    case True
    then show ?thesis using r(1,2) by auto
  next
    case False
    with that(2) r have "m \<in> seen - set (map fst ((n, k) # frontier))" by auto
    with ok that(1) have "set (nexts adj m) \<subseteq> seen \<and> {m} \<times> set (nexts adj m) \<subseteq> es"
      unfolding graph_ok_def by blast
    then show ?thesis using r(1,2) by auto
  qed
  ultimately show ?thesis unfolding graph_ok_def by blast
qed

lemma graph_loop_ok:
  "graph_ok adj depth root seen es frontier \<Longrightarrow> graph_loop adj depth seen es frontier = (seen', es') \<Longrightarrow>
     graph_ok adj depth root seen' es' []"
proof (induction adj depth seen es frontier rule: graph_loop.induct)
  case (2 adj depth seen es n k frontier)
  show ?case
  proof (cases "case depth of None \<Rightarrow> False | Some d \<Rightarrow> d \<le> k")
    case True
    moreover from True 2(3) have "graph_ok adj depth root seen es frontier"
      by (auto simp: graph_ok_def split: option.splits)
    ultimately show ?thesis using 2(1,4) by simp
  next
    case False
    obtain s1 e1 f1 where scan: "graph_scan n k (nexts adj n) (seen, es, frontier) = (s1, e1, f1)"
      by (metis prod_cases3)
    with False 2(4) have "graph_loop adj depth s1 e1 f1 = (seen', es')" by simp
    from 2(2) [OF False scan [symmetric] refl graph_ok_step [OF 2(3) scan False] this] show ?thesis .
  qed
qed auto

lemma dependency_graph_from:
  assumes "dependency_graph_get ts (Some root) depth = g"
  shows "\<forall>n \<in> set (dg_nodes g). \<exists>k. within depth k \<and> (root, n) \<in> arcs ts Blocks ^^ k"
    and "set (dg_edges g) \<subseteq> arcs ts Blocks"
    and "depth = None \<Longrightarrow> set (dg_nodes g) = (arcs ts Blocks)\<^sup>* `` {root} \<and>
      set (dg_edges g) = arcs ts Blocks \<inter> (arcs ts Blocks)\<^sup>* `` {root} \<times> UNIV"
proof -
  let ?adj = "blocks_adjacency ts"
  obtain seen es where run: "graph_loop ?adj depth {root} {} [(root, 0)] = (seen, es)" by force
  have "graph_ok ?adj depth root {root} {} [(root, 0)]"
    by (auto simp: graph_ok_def within_def intro!: exI [of _ 0] split: option.splits)
  from graph_loop_ok [OF this run] have ok: "root \<in> seen"
      "\<forall>n \<in> seen. \<exists>k. within depth k \<and> (root, n) \<in> arcs ts Blocks ^^ k" "es \<subseteq> arcs ts Blocks \<inter> seen \<times> seen"
      "depth = None \<Longrightarrow> \<forall>n \<in> seen. set (nexts ?adj n) \<subseteq> seen \<and> {n} \<times> set (nexts ?adj n) \<subseteq> es"
    by (auto simp: graph_ok_def edges_blocks_adjacency)
  have "seen \<subseteq> insert root (snd ` arcs ts Blocks)"
  proof
    fix n assume "n \<in> seen"
    with ok(2) obtain k where "(root, n) \<in> arcs ts Blocks ^^ k" by blast
    then show "n \<in> insert root (snd ` arcs ts Blocks)" by (cases k) force+
  qed
  moreover have "finite (arcs ts Blocks)"
  proof -
    have "arcs ts Blocks \<subseteq> snd ` the ` row_arc ` set (relation_rows ts)" by (force simp: arcs_def image_iff)
    then show ?thesis by (rule finite_subset) simp
  qed
  ultimately have fin: "finite seen" "finite es"
    using ok(3) by (meson finite_imageI finite_insert finite_subset finite_Int inf_le1)+
  have g: "set (dg_nodes g) = seen" "set (dg_edges g) = es"
    using assms run fin by (auto simp: dependency_graph_get_def)
  show "\<forall>n \<in> set (dg_nodes g). \<exists>k. within depth k \<and> (root, n) \<in> arcs ts Blocks ^^ k" "set (dg_edges g) \<subseteq> arcs ts Blocks"
    using ok(2,3) g by auto
  assume "depth = None"
  with ok(4) have closed: "\<forall>n \<in> seen. set (nexts ?adj n) \<subseteq> seen \<and> {n} \<times> set (nexts ?adj n) \<subseteq> es" by blast
  then have "arcs ts Blocks `` seen \<subseteq> seen" unfolding edges_blocks_adjacency [symmetric] edges_def by blast
  with ok(1) have "(arcs ts Blocks)\<^sup>* `` {root} \<subseteq> seen"
    by (metis Image_closed_trancl Image_mono empty_subsetI insert_subset order_refl subset_trans)
  moreover have "seen \<subseteq> (arcs ts Blocks)\<^sup>* `` {root}" using ok(2) by (auto dest: relpow_imp_rtrancl)
  ultimately have seen: "seen = (arcs ts Blocks)\<^sup>* `` {root}" by blast
  moreover have "es = arcs ts Blocks \<inter> seen \<times> UNIV"
    using ok(3) closed unfolding edges_blocks_adjacency [symmetric] edges_def by blast
  ultimately show "set (dg_nodes g) = (arcs ts Blocks)\<^sup>* `` {root} \<and>
      set (dg_edges g) = arcs ts Blocks \<inter> (arcs ts Blocks)\<^sup>* `` {root} \<times> UNIV"
    using g by simp
qed

section \<open>The query\<close>

text \<open>
  A cycle is reported exactly when one is reachable from the source, and it is one; otherwise the
  path reported is a shortest chain of blocks arcs, and none is reported only when there is none.
\<close>

lemma dependency_path_find_result:
  assumes "dependency_path_find ts a b = r"
  shows "pr_cycle r \<noteq> None \<longleftrightarrow> (\<exists>x. (a, x) \<in> (arcs ts Blocks)\<^sup>* \<and> (x, x) \<in> (arcs ts Blocks)\<^sup>+)"
    and "pr_cycle r = Some c \<Longrightarrow> is_cycle (blocks_adjacency ts) c \<and> set c \<subseteq> (arcs ts Blocks)\<^sup>* `` {a} \<and> \<not> pr_found r"
    and "pr_cycle r = None \<Longrightarrow> pr_found r \<longleftrightarrow> (a, b) \<in> (arcs ts Blocks)\<^sup>*"
    and "pr_found r \<Longrightarrow> shortest (blocks_adjacency ts) a b (pr_path r)"
proof -
  let ?adj = "blocks_adjacency ts"
  note e = edges_blocks_adjacency
  note fc = find_cycle_result [where adj = ?adj and start = a, unfolded e]
  note bp = bfs_path_result [where adj = ?adj and src = a and dst = b]
  have cyc: "(last c, hd c) \<in> edges ?adj \<Longrightarrow> chain ?adj c \<Longrightarrow> c \<noteq> [] \<Longrightarrow> (hd c, hd c) \<in> (edges ?adj)\<^sup>+" for c
    by (meson chain_reach rtrancl_into_trancl1)
  have reach: "shortest ?adj a b p \<Longrightarrow> (a, b) \<in> (arcs ts Blocks)\<^sup>*" for p
    using chain_reach [of ?adj p] by (auto simp: shortest_def e)
  show "pr_cycle r \<noteq> None \<longleftrightarrow> (\<exists>x. (a, x) \<in> (arcs ts Blocks)\<^sup>* \<and> (x, x) \<in> (arcs ts Blocks)\<^sup>+)"
  proof (cases "find_cycle ?adj a")
    case None
    with fc assms show ?thesis by (auto simp: dependency_path_find_def Let_def split: option.splits)
  next
    case (Some c)
    with fc have c: "is_cycle ?adj c" "set c \<subseteq> (arcs ts Blocks)\<^sup>* `` {a}" by auto
    then have "(hd c, hd c) \<in> (arcs ts Blocks)\<^sup>+" "hd c \<in> set c" using cyc [of c] by (auto simp: is_cycle_def e)
    with c(2) Some assms show ?thesis by (auto simp: dependency_path_find_def)
  qed
  show "pr_cycle r = Some c \<Longrightarrow> is_cycle ?adj c \<and> set c \<subseteq> (arcs ts Blocks)\<^sup>* `` {a} \<and> \<not> pr_found r"
    using fc assms by (auto simp: dependency_path_find_def Let_def split: option.splits)
  show "pr_cycle r = None \<Longrightarrow> pr_found r \<longleftrightarrow> (a, b) \<in> (arcs ts Blocks)\<^sup>*"
    using bp assms reach by (auto simp: dependency_path_find_def Let_def e split: option.splits)
  show "pr_found r \<Longrightarrow> shortest ?adj a b (pr_path r)"
    using bp assms by (auto simp: dependency_path_find_def Let_def split: option.splits)
qed

end
