(* ===== verification/Lifecycle.thy ===== *)
theory Lifecycle
  imports Prelude
begin

text \<open>
  The lifecycle taxonomy (\<open>core/lifecycle.py\<close>): nine frozen stages in canonical order, the
  containers of a stage and the recommended next stages.
\<close>

record stage =
  st_slug :: pystr
  st_title :: pystr
  st_purpose :: pystr
  st_containers :: "pystr list"

definition make_stage :: "string \<Rightarrow> string \<Rightarrow> string \<Rightarrow> string list \<Rightarrow> stage" where
  "make_stage slug title purpose containers =
     \<lparr>st_slug = lit slug, st_title = lit title, st_purpose = lit purpose, st_containers = map lit containers\<rparr>"

definition STAGES :: "stage list" where
  "STAGES =
     [make_stage ''intake'' ''Intake'' ''Capture raw requests, ideas, bugs, and tasks''
        [''triage'', ''issue-shaping'', ''duplicate-detection''],
      make_stage ''discovery'' ''Discovery'' ''Understand user need and problem framing''
        [''product-framing'', ''user-research'', ''requirement-synthesis''],
      make_stage ''planning'' ''Planning'' ''Break work into milestones, tickets, and risks''
        [''project-planning'', ''technical-decomposition'', ''dependency-mapping''],
      make_stage ''design'' ''Design'' ''Shape UX, UI, flows, and acceptance criteria''
        [''ux-design'', ''design-system'', ''accessibility-review'', ''design-review''],
      make_stage ''implementation'' ''Implementation'' ''Build the actual change''
        [''repo-investigation'', ''code-agent'', ''test-generation''],
      make_stage ''review'' ''Review'' ''Inspect quality, security, and maintainability''
        [''code-review'', ''security-review'', ''architecture-review''],
      make_stage ''qa'' ''QA'' ''Verify behavior and regressions''
        [''browser-qa'', ''regression-testing'', ''bug-triage''],
      make_stage ''release'' ''Release'' ''Prepare rollout and communication''
        [''release-check'', ''changelog'', ''docs-update'', ''deployment-check''],
      make_stage ''learn'' ''Learn'' ''Capture decisions, outcomes, and reusable memory''
        [''retrospective'', ''decision-log'', ''memory-curation'']]"

definition STAGE_SLUGS :: "pystr list" where
  "STAGE_SLUGS = map st_slug STAGES"

definition LINEAR_STATUS_TO_STAGE :: "(pystr, pystr) dict" where
  "LINEAR_STATUS_TO_STAGE =
     [(lit ''Backlog'', lit ''intake''), (lit ''In Progress'', lit ''implementation''),
      (lit ''In Review'', lit ''review''), (lit ''Done'', lit ''learn''), (lit ''Canceled'', lit ''learn'')]"

datatype stage_error = UnknownStageError pystr

definition is_stage :: "pystr \<Rightarrow> bool" where
  "is_stage s \<longleftrightarrow> s \<in> set STAGE_SLUGS"

definition containers_for :: "pystr \<Rightarrow> stage_error + pystr list" where
  "containers_for s =
     (case List.find (\<lambda>g. st_slug g = s) STAGES of
        None \<Rightarrow> Inl (UnknownStageError s)
      | Some g \<Rightarrow> Inr (st_containers g))"

text \<open>The position of a slug in the canonical order.\<close>

fun position :: "pystr \<Rightarrow> pystr list \<Rightarrow> nat" where
  "position s [] = 0"
| "position s (x # xs) = (if x = s then 0 else Suc (position s xs))"

definition REWORK_TARGET :: pystr where "REWORK_TARGET = lit ''implementation''"
definition REWORK_SOURCES :: "pystr list" where "REWORK_SOURCES = [lit ''review'', lit ''qa'']"
definition GATED_BY_OPEN_SUBTICKETS :: pystr where "GATED_BY_OPEN_SUBTICKETS = lit ''release''"

definition recommend_next :: "pystr \<Rightarrow> bool \<Rightarrow> stage_error + pystr list" where
  "recommend_next s has_open_subtickets =
     (if \<not> is_stage s then Inl (UnknownStageError s)
      else
        let index = position s STAGE_SLUGS;
            next_stage = (if index + 1 < length STAGES then [st_slug (STAGES ! (index + 1))] else []);
            rework = (if s \<in> set REWORK_SOURCES then [REWORK_TARGET] else []);
            recommended = next_stage @ rework
        in Inr (if has_open_subtickets \<and> GATED_BY_OPEN_SUBTICKETS \<in> set recommended
                then remove1 GATED_BY_OPEN_SUBTICKETS recommended else recommended))"

section \<open>The rules\<close>

lemma stage_slugs:
  "STAGE_SLUGS = map lit [''intake'', ''discovery'', ''planning'', ''design'', ''implementation'', ''review'',
     ''qa'', ''release'', ''learn'']"
  by (simp add: STAGE_SLUGS_def STAGES_def make_stage_def)

lemma stage_slugs_distinct: "distinct STAGE_SLUGS"
  by (simp add: stage_slugs)

lemma recommend_next_table:
  "map (\<lambda>s. recommend_next s False) STAGE_SLUGS =
     map (Inr \<circ> map lit) [[''discovery''], [''planning''], [''design''], [''implementation''], [''review''],
       [''qa'', ''implementation''], [''release'', ''implementation''], [''learn''], []]"
  by (simp add: stage_slugs recommend_next_def is_stage_def REWORK_SOURCES_def REWORK_TARGET_def
      STAGES_def make_stage_def)

text \<open>Every recommendation is a stage, and releasing is withheld while sub-tickets are open.\<close>

lemma recommend_next_sound:
  assumes "recommend_next s b = Inr out"
  shows "set out \<subseteq> set STAGE_SLUGS" and "distinct out" and "b \<Longrightarrow> GATED_BY_OPEN_SUBTICKETS \<notin> set out"
proof -
  from assms have s: "s \<in> set STAGE_SLUGS" by (auto simp: recommend_next_def is_stage_def split: if_splits)
  have cases: "s \<in> lit ` {''intake'', ''discovery'', ''planning'', ''design'', ''implementation'', ''review'', ''qa'', ''release'', ''learn''}"
    using s by (auto simp: stage_slugs)
  have all: "\<forall>s \<in> lit ` {''intake'', ''discovery'', ''planning'', ''design'', ''implementation'', ''review'', ''qa'', ''release'', ''learn''}.
      \<forall>b. case recommend_next s b of Inl _ \<Rightarrow> False
        | Inr out \<Rightarrow> set out \<subseteq> set STAGE_SLUGS \<and> distinct out \<and> (b \<longrightarrow> GATED_BY_OPEN_SUBTICKETS \<notin> set out)"
    by (simp add: stage_slugs recommend_next_def is_stage_def REWORK_SOURCES_def REWORK_TARGET_def
        STAGES_def make_stage_def GATED_BY_OPEN_SUBTICKETS_def Let_def)
  from all [rule_format, OF cases, of b] assms
  show "set out \<subseteq> set STAGE_SLUGS" "distinct out" "b \<Longrightarrow> GATED_BY_OPEN_SUBTICKETS \<notin> set out" by auto
qed

lemma linear_statuses_are_stages: "set (map snd LINEAR_STATUS_TO_STAGE) \<subseteq> set STAGE_SLUGS"
  by (simp add: LINEAR_STATUS_TO_STAGE_def stage_slugs)

end
