(* ===== verification/Tracker.thy ===== *)
theory Tracker
  imports Service Graph Lifecycle
begin

text \<open>
  The tracker's domain service (\<open>core/tracker/service.py\<close>): projects, tickets, relations, comments,
  attachments, milestones and follow-ups.  Every operation validates before it writes; a rule that
  fails raises \<open>ValidationError\<close> (the message is left out), a missing row \<open>NotFoundError\<close>.
  \<open>changes\<close> is the dictionary of a patch, with any JSON value or datetime under a key.
\<close>

section \<open>Vocabularies\<close>

definition TICKET_STATUSES :: "pystr list" where "TICKET_STATUSES = map lit [''todo'', ''doing'', ''done'']"
definition TICKET_PRIORITIES :: "pystr list" where
  "TICKET_PRIORITIES = map lit [''low'', ''medium'', ''high'', ''urgent'']"
definition PROJECT_STATUSES :: "pystr list" where "PROJECT_STATUSES = map lit [''active'', ''paused'', ''done'']"
definition MILESTONE_STATUSES :: "pystr list" where
  "MILESTONE_STATUSES = map lit [''active'', ''complete'', ''archived'']"
definition FOLLOW_UP_STATUSES :: "pystr list" where "FOLLOW_UP_STATUSES = map lit [''open'', ''done'', ''dismissed'']"
definition FOLLOW_UP_RESOLVED_STATUSES :: "pystr list" where
  "FOLLOW_UP_RESOLVED_STATUSES = map lit [''done'', ''dismissed'']"

definition TITLE_MAX :: nat where "TITLE_MAX = 500"
definition LABEL_MAX :: nat where "LABEL_MAX = 64"
definition BODY_MAX :: nat where "BODY_MAX = 100000"

definition TICKET_PATCHABLE :: "pystr list" where
  "TICKET_PATCHABLE = map lit [''title'', ''description'', ''status'', ''priority'', ''labels'', ''assignee'',
     ''due_date'', ''acceptance_criteria'', ''lifecycle_stage'', ''parent_id'']"
definition PROJECT_PATCHABLE :: "pystr list" where
  "PROJECT_PATCHABLE = map lit [''name'', ''goal'', ''scope'', ''owner'', ''target_date'', ''status'']"
definition MILESTONE_PATCHABLE :: "pystr list" where
  "MILESTONE_PATCHABLE = map lit [''name'', ''description'', ''target_date'', ''status'']"
definition FOLLOW_UP_PATCHABLE :: "pystr list" where
  "FOLLOW_UP_PATCHABLE = map lit [''title'', ''body'', ''due_at'']"

section \<open>Field checks\<close>

text \<open>\<open>str.strip\<close>\<close>

definition strip :: "pystr \<Rightarrow> pystr" where
  "strip s = List.rev (dropWhile py_space (List.rev (dropWhile py_space s)))"

definition str_of :: "service \<Rightarrow> slot \<Rightarrow> pystr" where
  "str_of sv x = (case x of Js (PStr s) \<Rightarrow> s | _ \<Rightarrow> sv_str sv x)"

definition in_vocab :: "pystr list \<Rightarrow> slot \<Rightarrow> bool" where
  "in_vocab vs x \<longleftrightarrow> (case x of Js (PStr s) \<Rightarrow> s \<in> set vs | _ \<Rightarrow> False)"

definition ensure :: "bool \<Rightarrow> service_error + unit" where
  "ensure b = (if b then Inr () else Inl ValidationError)"

text \<open>A check that runs only when the key is given.\<close>

definition when_given :: "object \<Rightarrow> string \<Rightarrow> (slot \<Rightarrow> service_error + object) \<Rightarrow> service_error + object" where
  "when_given ch f k = (case dget ch (lit f) of None \<Rightarrow> Inr ch | Some x \<Rightarrow> k x)"

definition strip_field :: "service \<Rightarrow> string \<Rightarrow> nat option \<Rightarrow> object \<Rightarrow> service_error + object" where
  "strip_field sv f limit ch =
     when_given ch f (\<lambda>x. let s = strip (str_of sv x) in
       rbind (ensure (s \<noteq> [])) (\<lambda>_.
       rbind (ensure (case limit of None \<Rightarrow> True | Some n \<Rightarrow> length s \<le> n)) (\<lambda>_.
       Inr (dset (lit f) (Js (PStr s)) ch))))"

definition vocab_field :: "string \<Rightarrow> pystr list \<Rightarrow> object \<Rightarrow> service_error + object" where
  "vocab_field f vs ch = when_given ch f (\<lambda>x. rbind (ensure (in_vocab vs x)) (\<lambda>_. Inr ch))"

definition utc_field :: "string \<Rightarrow> object \<Rightarrow> object" where
  "utc_field f ch = (case dget ch (lit f) of Some (At m) \<Rightarrow> dset (lit f) (At (Naive (naive_utc m))) ch | _ \<Rightarrow> ch)"

definition known_fields :: "pystr list \<Rightarrow> object \<Rightarrow> service_error + unit" where
  "known_fields fs ch = ensure (set (dkeys ch) \<subseteq> set fs)"

definition require_row :: "tables \<Rightarrow> model \<Rightarrow> slot \<Rightarrow> service_error + object" where
  "require_row ts m x =
     (case x of
        Js (PStr i) \<Rightarrow> (case get_row ts m i of None \<Rightarrow> Inl (NotFoundError (m_table m) i) | Some r \<Rightarrow> Inr (load r))
      | _ \<Rightarrow> Inl (DbError StatementError))"

definition member_field :: "tables \<Rightarrow> string \<Rightarrow> object \<Rightarrow> service_error + object" where
  "member_field ts f ch =
     when_given ch f (\<lambda>x. if x = Js PNone then Inr ch else rbind (require_row ts Member x) (\<lambda>_. Inr ch))"

fun clean_labels :: "pyval list \<Rightarrow> pystr list \<Rightarrow> service_error + pystr list" where
  "clean_labels [] acc = Inr acc"
| "clean_labels (PStr raw # xs) acc =
     (let label = strip raw in
      if label = [] then Inl ValidationError
      else if LABEL_MAX < length label then Inl ValidationError
      else clean_labels xs (if label \<in> set acc then acc else acc @ [label]))"
| "clean_labels (_ # xs) acc = Inl ValidationError"

definition labels_field :: "object \<Rightarrow> service_error + object" where
  "labels_field ch =
     when_given ch ''labels'' (\<lambda>x. case x of
         Js (PList xs) \<Rightarrow>
           rbind (clean_labels xs []) (\<lambda>ls. Inr (dset (lit ''labels'') (Js (PList (map PStr ls))) ch))
       | _ \<Rightarrow> Inl ValidationError)"

section \<open>Parents\<close>

definition parent_of :: "row \<Rightarrow> pystr option" where
  "parent_of r = (case cell_of r (lit ''parent_id'') of Cell (PStr p) \<Rightarrow> Some p | _ \<Rightarrow> None)"

text \<open>The walk up the ancestors of \<open>_validate_parent\<close>: false when it meets a seen ticket.\<close>

function parent_walk :: "tables \<Rightarrow> pystr set \<Rightarrow> pystr option \<Rightarrow> bool" where
  "parent_walk ts seen None = True"
| "parent_walk ts seen (Some i) =
     (case get_row ts Ticket i of
        None \<Rightarrow> True
      | Some r \<Rightarrow> if i \<in> seen then False else parent_walk ts (insert i seen) (parent_of r))"
  by pat_completeness auto
termination
proof (relation "measure (\<lambda>(ts, seen, i). card (set (dkeys (ts (m_table Ticket))) - seen))", goal_cases)
  case (2 ts seen i r)
  then have "i \<in> set (dkeys (ts (m_table Ticket)))"
    by (auto simp: get_row_def dest!: map_of_SomeD intro: rev_image_eqI)
  with 2 have "set (dkeys (ts (m_table Ticket))) - insert i seen \<subset> set (dkeys (ts (m_table Ticket))) - seen" by blast
  then have "card (set (dkeys (ts (m_table Ticket))) - insert i seen) < card (set (dkeys (ts (m_table Ticket))) - seen)"
    by (intro psubset_card_mono) simp_all
  then show ?case by simp
qed simp

definition validate_parent :: "tables \<Rightarrow> slot \<Rightarrow> slot \<Rightarrow> pystr option \<Rightarrow> service_error + unit" where
  "validate_parent ts parent project ticket =
     rbind (ensure (case ticket of None \<Rightarrow> True | Some t \<Rightarrow> parent \<noteq> Js (PStr t))) (\<lambda>_.
     rbind (require_row ts Ticket parent) (\<lambda>pob.
     rbind (ensure (attr pob ''project_id'' = project)) (\<lambda>_.
     case ticket of
       None \<Rightarrow> Inr ()
     | Some t \<Rightarrow> ensure (parent_walk ts {t} (Some (text_value parent))))))"

definition validated_ticket_fields ::
    "service \<Rightarrow> tables \<Rightarrow> object \<Rightarrow> slot \<Rightarrow> pystr option \<Rightarrow> service_error + object" where
  "validated_ticket_fields sv ts flds project ticket =
     rbind (strip_field sv ''title'' (Some TITLE_MAX) flds) (\<lambda>out.
     rbind (vocab_field ''status'' TICKET_STATUSES out) (\<lambda>out.
     rbind (vocab_field ''priority'' TICKET_PRIORITIES out) (\<lambda>out.
     rbind (labels_field out) (\<lambda>out.
     rbind (when_given out ''description'' (\<lambda>x. rbind (ensure (length (str_of sv x) \<le> BODY_MAX)) (\<lambda>_. Inr out))) (\<lambda>out.
     rbind (when_given out ''lifecycle_stage'' (\<lambda>x. rbind (ensure (is_stage (str_of sv x))) (\<lambda>_. Inr out))) (\<lambda>out.
     rbind (member_field ts ''assignee'' out) (\<lambda>out.
     when_given out ''parent_id'' (\<lambda>x.
       if x = Js PNone then Inr out
       else rbind (validate_parent ts x project ticket) (\<lambda>_. Inr out)))))))))"

definition lift :: "service_error + 'a \<Rightarrow> 'a svc" where
  "lift r = elift id r"

definition on_rows :: "(tables \<Rightarrow> service_error + 'a) \<Rightarrow> 'a svc" where
  "on_rows f = ebind (look rp_tables) (\<lambda>ts. lift (f ts))"

definition opt_text :: "pystr option \<Rightarrow> slot" where
  "opt_text x = (case x of None \<Rightarrow> Js PNone | Some s \<Rightarrow> Js (PStr s))"

definition opt_moment :: "moment option \<Rightarrow> slot" where
  "opt_moment x = (case x of None \<Rightarrow> Js PNone | Some m \<Rightarrow> At m)"

definition stamps :: "int \<Rightarrow> object" where
  "stamps ts = [(lit ''created_at'', At (Naive ts)), (lit ''updated_at'', At (Naive ts))]"

definition ref_own :: "model \<Rightarrow> object \<Rightarrow> pystr" where
  "ref_own m ob = ref_to (m_table m) (object_id ob)"

section \<open>Projects\<close>

definition create_project ::
    "service \<Rightarrow> pystr \<Rightarrow> pystr \<Rightarrow> pystr \<Rightarrow> pystr \<Rightarrow> pystr option \<Rightarrow> moment option \<Rightarrow> pystr \<Rightarrow> object svc" where
  "create_project sv workspace name goal scope owner target_date status =
     (let name = strip name in
      eseq (require (name \<noteq> []))
      (eseq (require (length name \<le> TITLE_MAX))
      (eseq (require (status \<in> set PROJECT_STATUSES))
      (ebind (get_entity Workspace workspace) (\<lambda>_.
      ebind (case owner of None \<Rightarrow> eret [] | Some i \<Rightarrow> get_entity Member i) (\<lambda>_.
      ebind (now sv) (\<lambda>ts.
      create_row sv Project ''project.create'' (ref_own Project) op_patch
        ([(lit ''workspace_id'', Js (PStr workspace)), (lit ''name'', Js (PStr name)), (lit ''goal'', Js (PStr goal)),
          (lit ''scope'', Js (PStr scope)), (lit ''owner'', opt_text owner),
          (lit ''target_date'', opt_moment target_date), (lit ''status'', Js (PStr status))] @ stamps ts) ts)))))))"

definition get_project :: "pystr \<Rightarrow> object svc" where
  "get_project i = get_entity Project i"

definition update_project :: "service \<Rightarrow> pystr \<Rightarrow> object \<Rightarrow> object svc" where
  "update_project sv i ch =
     ebind (get_project i) (\<lambda>ob.
     ebind (on_rows (\<lambda>ts.
       rbind (known_fields PROJECT_PATCHABLE ch) (\<lambda>_.
       rbind (strip_field sv ''name'' None ch) (\<lambda>ch.
       rbind (vocab_field ''status'' PROJECT_STATUSES ch) (\<lambda>ch.
       member_field ts ''owner'' ch))))) (\<lambda>ch.
     apply_patch sv Project ob ch ''project.update''))"

definition all_rows :: "tables \<Rightarrow> model \<Rightarrow> object list" where
  "all_rows ts m = map (load \<circ> snd) (ts (m_table m))"

definition text_is :: "string \<Rightarrow> pystr option \<Rightarrow> object \<Rightarrow> bool" where
  "text_is f x ob \<longleftrightarrow> (case x of None \<Rightarrow> True | Some s \<Rightarrow> attr ob f = Js (PStr s))"

definition newest_first :: "object list \<Rightarrow> object list" where
  "newest_first xs = List.rev (sort_key object_id xs)"

definition list_projects :: "tables \<Rightarrow> pystr option \<Rightarrow> object list" where
  "list_projects ts workspace = newest_first (filter (text_is ''workspace_id'' workspace) (all_rows ts Project))"

section \<open>Tickets\<close>

definition get_ticket :: "pystr \<Rightarrow> object svc" where
  "get_ticket i = get_entity Ticket i"

definition create_ticket ::
    "service \<Rightarrow> pystr \<Rightarrow> pystr \<Rightarrow> pystr \<Rightarrow> pystr \<Rightarrow> pystr \<Rightarrow> pystr list option \<Rightarrow> pystr option \<Rightarrow> moment option \<Rightarrow>
     pystr \<Rightarrow> pystr \<Rightarrow> pystr option \<Rightarrow> object svc" where
  "create_ticket sv project title description status priority labels assignee due_date criteria lifecycle_stage parent =
     ebind (get_project project) (\<lambda>_.
     ebind (on_rows (\<lambda>ts. validated_ticket_fields sv ts
       [(lit ''title'', Js (PStr title)), (lit ''description'', Js (PStr description)),
        (lit ''status'', Js (PStr status)), (lit ''priority'', Js (PStr priority)),
        (lit ''labels'', Js (PList (map PStr (case labels of None \<Rightarrow> [] | Some ls \<Rightarrow> ls)))),
        (lit ''assignee'', opt_text assignee), (lit ''due_date'', opt_moment due_date),
        (lit ''acceptance_criteria'', Js (PStr criteria)), (lit ''lifecycle_stage'', Js (PStr lifecycle_stage)),
        (lit ''parent_id'', opt_text parent)] (Js (PStr project)) None)) (\<lambda>flds.
     ebind (now sv) (\<lambda>ts.
     create_row sv Ticket ''ticket.create'' (ref_own Ticket) op_patch
       ([(lit ''project_id'', Js (PStr project)), (lit ''created_by'', Js (PStr (sv_actor sv)))] @ stamps ts @ flds) ts)))"

definition update_ticket :: "service \<Rightarrow> pystr \<Rightarrow> object \<Rightarrow> object svc" where
  "update_ticket sv i ch =
     ebind (get_ticket i) (\<lambda>ob.
     ebind (on_rows (\<lambda>ts.
       rbind (known_fields TICKET_PATCHABLE ch) (\<lambda>_.
       validated_ticket_fields sv ts ch (attr ob ''project_id'') (Some i)))) (\<lambda>ch.
     apply_patch sv Ticket ob ch ''ticket.update''))"

definition list_tickets ::
    "tables \<Rightarrow> pystr option \<Rightarrow> pystr option \<Rightarrow> pystr option \<Rightarrow> pystr option \<Rightarrow> pystr option \<Rightarrow> pystr option \<Rightarrow>
     object list" where
  "list_tickets ts project status assignee label lifecycle_stage parent =
     newest_first (filter (\<lambda>ob. text_is ''project_id'' project ob \<and> text_is ''status'' status ob \<and>
       text_is ''assignee'' assignee ob \<and> text_is ''lifecycle_stage'' lifecycle_stage ob \<and>
       text_is ''parent_id'' parent ob \<and>
       (case label of None \<Rightarrow> True
        | Some l \<Rightarrow> (case attr ob ''labels'' of Js (PList ls) \<Rightarrow> PStr l \<in> set ls | _ \<Rightarrow> False))) (all_rows ts Ticket))"

definition has_open_subtickets :: "tables \<Rightarrow> pystr \<Rightarrow> bool" where
  "has_open_subtickets ts i \<longleftrightarrow>
     list_ex (\<lambda>ob. attr ob ''parent_id'' = Js (PStr i) \<and> attr ob ''status'' \<noteq> Js (PStr (lit ''done''))) (all_rows ts Ticket)"

definition recommended_next :: "tables \<Rightarrow> object \<Rightarrow> pystr list" where
  "recommended_next ts ob =
     (case recommend_next (text_value (attr ob ''lifecycle_stage'')) (has_open_subtickets ts (object_id ob)) of
        Inl _ \<Rightarrow> [] | Inr out \<Rightarrow> out)"

section \<open>Relations\<close>

definition ticket_workspace :: "tables \<Rightarrow> object \<Rightarrow> slot" where
  "ticket_workspace ts ob =
     (case get_row ts Project (text_value (attr ob ''project_id'')) of
        None \<Rightarrow> attr ob ''project_id''
      | Some r \<Rightarrow> attr (load r) ''workspace_id'')"

definition relations_touching :: "tables \<Rightarrow> pystr list \<Rightarrow> row list" where
  "relations_touching ts ids =
     filter (\<lambda>r. text_of r ''from_id'' \<in> set ids \<or> text_of r ''to_id'' \<in> set ids) (relation_rows ts)"

definition add_relation :: "service \<Rightarrow> pystr \<Rightarrow> pystr \<Rightarrow> pystr \<Rightarrow> object svc" where
  "add_relation sv from_id to_id t =
     eseq (require (t \<in> set RELATIONSHIP_TYPES))
     (eseq (require (from_id \<noteq> to_id))
     (ebind (get_ticket from_id) (\<lambda>source.
     ebind (get_ticket to_id) (\<lambda>target.
     ebind (look rp_tables) (\<lambda>tabs.
     eseq (require (ticket_workspace tabs source = ticket_workspace tabs target))
     (eseq (require (list_all (\<lambda>r. relation_key (text_of r ''from_id'') (text_of r ''to_id'') (text_of r ''type'')
         \<noteq> relation_key from_id to_id t) (relations_touching tabs [from_id, to_id])))
     (eseq (require (case relation_arc from_id to_id t of None \<Rightarrow> True
         | Some (f, src, dst) \<Rightarrow> \<not> would_cycle tabs f src dst))
     (ebind (now sv) (\<lambda>ts.
     create_row sv TicketRelationship ''relation.create'' (\<lambda>_. ref_to (m_table Ticket) from_id) op_patch
       ([(lit ''from_id'', Js (PStr from_id)), (lit ''to_id'', Js (PStr to_id)), (lit ''type'', Js (PStr t)),
         (lit ''created_by'', Js (PStr (sv_actor sv)))] @ stamps ts) ts)))))))))"

definition remove_relation :: "service \<Rightarrow> pystr \<Rightarrow> unit svc" where
  "remove_relation sv i =
     ebind (get_entity TicketRelationship i) (\<lambda>ob.
     ebind (now sv) (\<lambda>ts.
     eseq (remove_row sv TicketRelationship ''relation.delete''
             (\<lambda>ob. ref_to (m_table Ticket) (text_value (attr ob ''from_id''))) ob ts)
     commit))"

definition relations_for :: "pystr \<Rightarrow> object list svc" where
  "relations_for i =
     ebind (get_ticket i) (\<lambda>_.
     ebind (look rp_tables) (\<lambda>ts. eret (sort_key object_id (map load (relations_touching ts [i])))))"

section \<open>Comments, activity, attachments\<close>

definition add_comment :: "service \<Rightarrow> pystr \<Rightarrow> pystr \<Rightarrow> object svc" where
  "add_comment sv i body =
     ebind (get_ticket i) (\<lambda>_.
     let body = strip body in
     eseq (require (body \<noteq> []))
     (eseq (require (length body \<le> BODY_MAX))
     (ebind (now sv) (\<lambda>ts.
     create_row sv Comment ''comment.create'' (\<lambda>_. ref_to (m_table Ticket) i) op_append
       ([(lit ''ticket_id'', Js (PStr i)), (lit ''author_actor_id'', Js (PStr (sv_actor sv))),
         (lit ''body'', Js (PStr body))] @ stamps ts) ts))))"

definition list_comments :: "pystr \<Rightarrow> object list svc" where
  "list_comments i =
     ebind (get_ticket i) (\<lambda>_.
     ebind (look rp_tables) (\<lambda>ts. eret (sort_key object_id (filter (text_is ''ticket_id'' (Some i)) (all_rows ts Comment)))))"

definition activity :: "pystr \<Rightarrow> audit_row list svc" where
  "activity i =
     ebind (get_ticket i) (\<lambda>_.
     ebind (look rp_trail) (\<lambda>t.
     eret (sort_key (\<lambda>r. (ar_created r, ar_id r)) (filter (\<lambda>r. ar_object r = Some (ref_to (m_table Ticket) i)) t))))"

record attachment_ref =
  at_blob_id :: pystr
  at_filename :: pystr
  at_media_type :: pystr
  at_size_bytes :: int

definition attachment_json :: "attachment_ref \<Rightarrow> pyval" where
  "attachment_json a = pdict
     [(lit ''blob_id'', PStr (at_blob_id a)), (lit ''filename'', PStr (at_filename a)),
      (lit ''media_type'', PStr (at_media_type a)), (lit ''size_bytes'', PInt (at_size_bytes a))]"

definition attachments_of :: "object \<Rightarrow> pyval list" where
  "attachments_of ob = (case attr ob ''attachments'' of Js (PList xs) \<Rightarrow> xs | _ \<Rightarrow> [])"

definition holds_blob :: "pystr \<Rightarrow> pyval \<Rightarrow> bool" where
  "holds_blob b x \<longleftrightarrow> (case x of PDict kvs \<Rightarrow> map_of kvs (PStr (lit ''blob_id'')) = Some (PStr b) | _ \<Rightarrow> False)"

definition add_attachment :: "service \<Rightarrow> pystr \<Rightarrow> attachment_ref \<Rightarrow> object svc" where
  "add_attachment sv i ref =
     ebind (get_ticket i) (\<lambda>ob.
     if list_ex (holds_blob (at_blob_id ref)) (attachments_of ob) then eret ob
     else apply_patch sv Ticket ob
       [(lit ''attachments'', Js (PList (attachments_of ob @ [attachment_json ref])))] ''ticket.attach'')"

section \<open>Milestones\<close>

definition create_milestone ::
    "service \<Rightarrow> pystr \<Rightarrow> pystr \<Rightarrow> pystr \<Rightarrow> moment option \<Rightarrow> pystr \<Rightarrow> object svc" where
  "create_milestone sv project name description target_date status =
     (let name = strip name in
      eseq (require (name \<noteq> []))
      (eseq (require (length name \<le> TITLE_MAX))
      (eseq (require (status \<in> set MILESTONE_STATUSES))
      (ebind (get_entity Project project) (\<lambda>_.
      ebind (now sv) (\<lambda>ts.
      create_row sv Milestone ''milestone.create'' (ref_own Milestone) op_patch
        ([(lit ''project_id'', Js (PStr project)), (lit ''name'', Js (PStr name)),
          (lit ''description'', Js (PStr description)),
          (lit ''target_date'', opt_moment (map_option (Naive \<circ> naive_utc) target_date)),
          (lit ''status'', Js (PStr status)), (lit ''created_by'', Js (PStr (sv_actor sv)))] @ stamps ts) ts))))))"

definition get_milestone :: "pystr \<Rightarrow> object svc" where
  "get_milestone i = get_entity Milestone i"

definition update_milestone :: "service \<Rightarrow> pystr \<Rightarrow> object \<Rightarrow> object svc" where
  "update_milestone sv i ch =
     ebind (get_milestone i) (\<lambda>ob.
     ebind (lift (
       rbind (known_fields MILESTONE_PATCHABLE ch) (\<lambda>_.
       rbind (strip_field sv ''name'' (Some TITLE_MAX) ch) (\<lambda>ch.
       rbind (vocab_field ''status'' MILESTONE_STATUSES ch) (\<lambda>ch.
       Inr (utc_field ''target_date'' ch)))))) (\<lambda>ch.
     apply_patch sv Milestone ob ch ''milestone.update''))"

text \<open>Dated ones first, earliest first, ties and undated by id.\<close>

definition due_key :: "string \<Rightarrow> object \<Rightarrow> (bool \<times> int) \<times> pystr" where
  "due_key f ob = (case attr ob f of At m \<Rightarrow> ((False, wall m), object_id ob) | _ \<Rightarrow> ((True, 0), object_id ob))"

definition list_milestones :: "tables \<Rightarrow> pystr option \<Rightarrow> bool \<Rightarrow> object list" where
  "list_milestones ts project include_archived =
     sort_key (due_key ''target_date'') (filter (\<lambda>ob. text_is ''project_id'' project ob \<and>
       (include_archived \<or> attr ob ''status'' \<noteq> Js (PStr (lit ''archived'')))) (all_rows ts Milestone))"

definition memberships_for :: "tables \<Rightarrow> pystr \<Rightarrow> object list" where
  "memberships_for ts i = filter (text_is ''milestone_id'' (Some i)) (all_rows ts TicketMilestone)"

definition tombstone_membership :: "service \<Rightarrow> int \<Rightarrow> object \<Rightarrow> unit svc" where
  "tombstone_membership sv ts ob =
     remove_row sv TicketMilestone ''milestone.remove_ticket''
       (\<lambda>ob. ref_to (m_table Ticket) (text_value (attr ob ''ticket_id''))) ob ts"

definition delete_milestone :: "service \<Rightarrow> pystr \<Rightarrow> unit svc" where
  "delete_milestone sv i =
     ebind (get_milestone i) (\<lambda>ob.
     ebind (now sv) (\<lambda>ts.
     ebind (look rp_tables) (\<lambda>tabs.
     eseq (efor (tombstone_membership sv ts) (memberships_for tabs i))
     (eseq (remove_row sv Milestone ''milestone.delete'' (ref_own Milestone) ob ts)
     commit))))"

definition add_ticket_to_milestone :: "service \<Rightarrow> pystr \<Rightarrow> pystr \<Rightarrow> object svc" where
  "add_ticket_to_milestone sv ticket milestone =
     ebind (get_ticket ticket) (\<lambda>tob.
     ebind (get_milestone milestone) (\<lambda>mob.
     eseq (require (attr tob ''project_id'' = attr mob ''project_id''))
     (ebind (look rp_tables) (\<lambda>tabs.
     eseq (require (list_all (\<lambda>ob. attr ob ''ticket_id'' \<noteq> Js (PStr ticket)) (memberships_for tabs milestone)))
     (ebind (now sv) (\<lambda>ts.
     create_row sv TicketMilestone ''milestone.add_ticket'' (\<lambda>_. ref_to (m_table Ticket) ticket) op_patch
       ([(lit ''ticket_id'', Js (PStr ticket)), (lit ''milestone_id'', Js (PStr milestone)),
         (lit ''created_by'', Js (PStr (sv_actor sv)))] @ stamps ts) ts))))))"

definition remove_ticket_from_milestone :: "service \<Rightarrow> pystr \<Rightarrow> unit svc" where
  "remove_ticket_from_milestone sv i =
     ebind (get_entity TicketMilestone i) (\<lambda>ob.
     ebind (now sv) (\<lambda>ts. eseq (tombstone_membership sv ts ob) commit))"

definition remove_ticket_from_milestone_by_pair :: "service \<Rightarrow> pystr \<Rightarrow> pystr \<Rightarrow> unit svc" where
  "remove_ticket_from_milestone_by_pair sv ticket milestone =
     ebind (look rp_tables) (\<lambda>tabs.
     case List.find (text_is ''ticket_id'' (Some ticket)) (memberships_for tabs milestone) of
       None \<Rightarrow> eraise (NotFoundError (m_table TicketMilestone) (ref_to ticket milestone))
     | Some ob \<Rightarrow> ebind (now sv) (\<lambda>ts. eseq (tombstone_membership sv ts ob) commit))"

definition rows_with_ids :: "tables \<Rightarrow> model \<Rightarrow> pystr list \<Rightarrow> object list" where
  "rows_with_ids ts m ids = sort_key object_id (filter (\<lambda>ob. object_id ob \<in> set ids) (all_rows ts m))"

definition milestones_for_ticket :: "pystr \<Rightarrow> object list svc" where
  "milestones_for_ticket i =
     ebind (get_ticket i) (\<lambda>_.
     ebind (look rp_tables) (\<lambda>ts. eret (rows_with_ids ts Milestone
       (map (\<lambda>ob. text_value (attr ob ''milestone_id''))
         (filter (text_is ''ticket_id'' (Some i)) (all_rows ts TicketMilestone))))))"

definition tickets_for_milestone :: "pystr \<Rightarrow> object list svc" where
  "tickets_for_milestone i =
     ebind (get_milestone i) (\<lambda>_.
     ebind (look rp_tables) (\<lambda>ts. eret (rows_with_ids ts Ticket
       (map (\<lambda>ob. text_value (attr ob ''ticket_id'')) (memberships_for ts i)))))"

section \<open>Follow-ups\<close>

definition create_follow_up ::
    "service \<Rightarrow> pystr \<Rightarrow> pystr \<Rightarrow> pystr \<Rightarrow> moment option \<Rightarrow> pyval \<Rightarrow> object svc" where
  "create_follow_up sv ticket title body due_at provenance =
     (let title = strip title in
      eseq (require (title \<noteq> []))
      (eseq (require (length title \<le> TITLE_MAX))
      (ebind (get_entity Ticket ticket) (\<lambda>_.
      ebind (now sv) (\<lambda>ts.
      create_row sv FollowUp ''follow_up.create'' (ref_own FollowUp) op_patch
        ([(lit ''ticket_id'', Js (PStr ticket)), (lit ''title'', Js (PStr title)), (lit ''body'', Js (PStr body)),
          (lit ''status'', Js (PStr (lit ''open''))),
          (lit ''due_at'', opt_moment (map_option (Naive \<circ> naive_utc) due_at)),
          (lit ''created_by'', Js (PStr (sv_actor sv))),
          (lit ''provenance'', Js (if truthy provenance then provenance
            else pdict [(lit ''origin'', PStr (lit ''manual'')), (lit ''actor_id'', PStr (sv_actor sv)),
                        (lit ''captured_at'', PStr (sv_iso sv ts))]))] @ stamps ts) ts)))))"

definition get_follow_up :: "pystr \<Rightarrow> object svc" where
  "get_follow_up i = get_entity FollowUp i"

definition update_follow_up :: "service \<Rightarrow> pystr \<Rightarrow> object \<Rightarrow> object svc" where
  "update_follow_up sv i ch =
     ebind (get_follow_up i) (\<lambda>ob.
     ebind (lift (
       rbind (known_fields FOLLOW_UP_PATCHABLE ch) (\<lambda>_.
       rbind (strip_field sv ''title'' (Some TITLE_MAX) ch) (\<lambda>ch.
       Inr (utc_field ''due_at'' ch))))) (\<lambda>ch.
     apply_patch sv FollowUp ob ch ''follow_up.update''))"

definition complete_follow_up :: "service \<Rightarrow> pystr \<Rightarrow> pystr \<Rightarrow> object svc" where
  "complete_follow_up sv i status =
     eseq (require (status \<in> set FOLLOW_UP_RESOLVED_STATUSES))
     (ebind (get_follow_up i) (\<lambda>ob.
     eseq (require (attr ob ''status'' = Js (PStr (lit ''open''))))
     (apply_patch sv FollowUp ob [(lit ''status'', Js (PStr status))] ''follow_up.complete'')))"

definition search_follow_ups ::
    "tables \<Rightarrow> pystr option \<Rightarrow> moment option \<Rightarrow> pystr option \<Rightarrow> service_error + object list" where
  "search_follow_ups ts ticket due_before status =
     rbind (ensure (case status of None \<Rightarrow> True | Some s \<Rightarrow> s \<in> set FOLLOW_UP_STATUSES)) (\<lambda>_.
     Inr (sort_key (due_key ''due_at'') (filter (\<lambda>ob. text_is ''ticket_id'' ticket ob \<and> text_is ''status'' status ob \<and>
       (case due_before of None \<Rightarrow> True
        | Some m \<Rightarrow> (case attr ob ''due_at'' of At d \<Rightarrow> wall d < naive_utc m | _ \<Rightarrow> False))) (all_rows ts FollowUp))))"

end
