(* ===== verification/Tracking.thy ===== *)
theory Tracking
  imports Faithful Tracker
begin

text \<open>
  What the tracker promises of every operation: it fails without a trace, it leaves every row equal
  to the fold of its events, and it keeps the well-formedness of the relationship graph and of the
  parent links.  \<open>yields\<close> is a partial-correctness triple for sessions; \<open>reads\<close> marks the
  computations that only look; the rules for both drive one proof per operation.
\<close>

section \<open>Operations\<close>

definition ignore :: "'a svc \<Rightarrow> unit svc" where
  "ignore m = ebind m (\<lambda>_. eret ())"

inductive tracker_op :: "service \<Rightarrow> unit svc \<Rightarrow> bool" for sv where
  "tracker_op sv (ignore (create_project sv workspace name goal scope owner target status))"
| "dict_ok ch \<Longrightarrow> tracker_op sv (ignore (update_project sv i ch))"
| "tracker_op sv (ignore (create_ticket sv project title descr status priority labels assignee due criteria stage parent))"
| "dict_ok ch \<Longrightarrow> tracker_op sv (ignore (update_ticket sv i ch))"
| "tracker_op sv (ignore (add_attachment sv i atch))"
| "tracker_op sv (ignore (add_relation sv a b t))"
| "tracker_op sv (remove_relation sv i)"
| "tracker_op sv (ignore (add_comment sv i body))"
| "tracker_op sv (ignore (create_milestone sv project name descr target status))"
| "dict_ok ch \<Longrightarrow> tracker_op sv (ignore (update_milestone sv i ch))"
| "tracker_op sv (delete_milestone sv i)"
| "tracker_op sv (ignore (add_ticket_to_milestone sv a b))"
| "tracker_op sv (remove_ticket_from_milestone sv i)"
| "tracker_op sv (remove_ticket_from_milestone_by_pair sv a b)"
| "tracker_op sv (ignore (create_follow_up sv i title body due provenance))"
| "dict_ok ch \<Longrightarrow> tracker_op sv (ignore (update_follow_up sv i ch))"
| "tracker_op sv (ignore (complete_follow_up sv i status))"

lemmas ticket_op_defs = create_ticket_def update_ticket_def add_attachment_def get_ticket_def get_project_def
lemmas relation_op_defs = add_relation_def remove_relation_def get_ticket_def
lemmas milestone_op_defs = create_milestone_def update_milestone_def delete_milestone_def get_milestone_def get_ticket_def
  add_ticket_to_milestone_def remove_ticket_from_milestone_def remove_ticket_from_milestone_by_pair_def tombstone_membership_def
lemmas follow_up_op_defs = create_follow_up_def update_follow_up_def complete_follow_up_def get_follow_up_def
lemmas tracker_op_defs = create_project_def update_project_def get_project_def ticket_op_defs relation_op_defs
  add_comment_def milestone_op_defs follow_up_op_defs

section \<open>All or nothing\<close>

lemma quiet_rows [moves_intros]: "moves quiet (lift r)" "moves quiet (on_rows g)"
  unfolding lift_def on_rows_def by (intro moves_intros)+

lemma late_ignore [late_intros]: "late m \<Longrightarrow> late (ignore m)"
  by (auto simp: late_def ignore_def ebind_Inl)

lemma late_prod [late_intros]: "(\<And>a b. late (f a b)) \<Longrightarrow> late (case x of (a, b) \<Rightarrow> f a b)"
  by (cases x) auto

lemma tracker_op_late: "tracker_op sv m \<Longrightarrow> late m"
  by (induction rule: tracker_op.induct; unfold tracker_op_defs Let_def; intro late_intros moves_intros)

section \<open>Looking without touching\<close>

definition reads :: "session \<Rightarrow> session \<Rightarrow> bool" where
  "reads s s' \<longleftrightarrow> ss_db s' = ss_db s \<and> ss_stored s' = ss_stored s \<and> ss_fresh s \<le> ss_fresh s'"

interpretation reads: progress reads
  by unfold_locales (simp_all add: reads_def)

definition yields :: "(session \<Rightarrow> bool) \<Rightarrow> 'a svc \<Rightarrow> ('a \<Rightarrow> session \<Rightarrow> bool) \<Rightarrow> bool" where
  "yields P m Q \<longleftrightarrow> (\<forall>s x s'. P s \<longrightarrow> m s = (Inr x, s') \<longrightarrow> Q x s')"

named_theorems yields_intros

text \<open>A precondition that survives the identifiers and instants an operation consumes.\<close>

definition stable :: "(session \<Rightarrow> bool) \<Rightarrow> bool" where
  "stable P \<longleftrightarrow> (\<forall>s n. P s \<longrightarrow> ss_fresh s \<le> n \<longrightarrow> P (s\<lparr>ss_fresh := n\<rparr>))"

named_theorems stable_intros

lemma stable_conj [stable_intros]: "stable P \<Longrightarrow> stable Q \<Longrightarrow> stable (\<lambda>s. P s \<and> Q s)"
  by (simp add: stable_def)

lemma stable_db [stable_intros]: "stable (\<lambda>s. P (ss_db s))"
  by (simp add: stable_def)

lemma yieldsI: "(\<And>s x s'. P s \<Longrightarrow> m s = (Inr x, s') \<Longrightarrow> Q x s') \<Longrightarrow> yields P m Q"
  unfolding yields_def by blast

lemma yieldsD: "yields P m Q \<Longrightarrow> P s \<Longrightarrow> m s = (Inr x, s') \<Longrightarrow> Q x s'"
  unfolding yields_def by blast

lemma yields_now [yields_intros]: "stable P \<Longrightarrow> (\<And>t. yields P (k t) Q) \<Longrightarrow> yields P (ebind (now sv) k) Q"
  unfolding yields_def ebind_Inr now_iff stable_def by (metis le_add2 plus_1_eq_Suc)

lemma yields_get [yields_intros]:
  "(\<And>r. yields (\<lambda>s. P s \<and> get_row (rp_tables (ss_db s)) m i = Some r) (k (load r)) Q) \<Longrightarrow>
     yields P (ebind (get_entity m i) k) Q"
  by (auto simp: yields_def ebind_Inr get_entity_iff)

lemma yields_require [yields_intros]: "(b \<Longrightarrow> yields P m Q) \<Longrightarrow> yields P (eseq (require b) m) Q"
  by (auto simp: yields_def eseq_Inr)

lemma yields_look [yields_intros]:
  "(\<And>d. yields (\<lambda>s. P s \<and> ss_db s = d) (k (f d)) Q) \<Longrightarrow> yields P (ebind (look f) k) Q"
  by (auto simp: yields_def ebind_Inr)

lemma lift_iff [simp]: "lift r s = (Inr x, s') \<longleftrightarrow> r = Inr x \<and> s' = s"
  by (auto simp: lift_def)

lemma yields_rows [yields_intros]:
  "(\<And>d y. f (rp_tables d) = Inr y \<Longrightarrow> yields (\<lambda>s. P s \<and> ss_db s = d) (k y) Q) \<Longrightarrow> yields P (ebind (on_rows f) k) Q"
  by (auto simp: yields_def ebind_Inr on_rows_def)

lemma yields_lift [yields_intros]: "(\<And>y. r = Inr y \<Longrightarrow> yields P (k y) Q) \<Longrightarrow> yields P (ebind (lift r) k) Q"
  by (auto simp: yields_def ebind_Inr)

lemma yields_optional [yields_intros]:
  "(\<And>y. yields P (k y) Q) \<Longrightarrow> yields P (ebind (case z of None \<Rightarrow> eret d | Some i \<Rightarrow> get_entity m i) k) Q"
  by (cases z) (auto simp: yields_def ebind_Inr get_entity_iff)

lemma yields_if [yields_intros]: "(b \<Longrightarrow> yields P m Q) \<Longrightarrow> (\<not> b \<Longrightarrow> yields P n Q) \<Longrightarrow> yields P (if b then m else n) Q"
  by simp

lemma yields_let [yields_intros]: "(\<And>z. z = y \<Longrightarrow> yields P (f z) Q) \<Longrightarrow> yields P (Let y f) Q"
  by simp

lemma yields_ignore [yields_intros]: "yields P m (\<lambda>_. Q) \<Longrightarrow> yields P (ignore m) (\<lambda>_. Q)"
  by (auto simp: yields_def ignore_def ebind_Inr)

lemma yields_pre: "yields P' m Q \<Longrightarrow> (\<And>s. P s \<Longrightarrow> P' s) \<Longrightarrow> yields P m Q"
  by (auto simp: yields_def)

lemma yields_post: "yields P m R \<Longrightarrow> (\<And>x s. R x s \<Longrightarrow> Q x s) \<Longrightarrow> yields P m Q"
  by (auto simp: yields_def)

lemma yields_eseq: "yields P m (\<lambda>_. R) \<Longrightarrow> yields R n Q \<Longrightarrow> yields P (eseq m n) Q"
  by (auto simp: yields_def eseq_Inr)

section \<open>Validation keeps the keys of a patch\<close>

definition same_keys :: "object \<Rightarrow> object \<Rightarrow> bool" where
  "same_keys ch ch' \<longleftrightarrow> fst ` set ch' = fst ` set ch \<and> (dict_ok ch \<longrightarrow> dict_ok ch')"

lemma same_keys_refl [simp]: "same_keys ch ch"
  by (simp add: same_keys_def)

lemma same_keys_trans: "same_keys a b \<Longrightarrow> same_keys b c \<Longrightarrow> same_keys a c"
  by (simp add: same_keys_def)

lemma same_keys_dset: "dget ch f = Some x \<Longrightarrow> same_keys ch (dset f y ch)"
  by (auto simp: same_keys_def dict_ok_dset dest!: map_of_SomeD intro: rev_image_eqI)

lemma ensure_Inr [simp]: "ensure b = Inr u \<longleftrightarrow> b"
  by (simp add: ensure_def)

lemma field_keys:
  "strip_field sv f n ch = Inr ch' \<Longrightarrow> same_keys ch ch'"
  "vocab_field f vs ch = Inr ch' \<Longrightarrow> same_keys ch ch'"
  "labels_field ch = Inr ch' \<Longrightarrow> same_keys ch ch'"
  "member_field ts f ch = Inr ch' \<Longrightarrow> same_keys ch ch'"
  "same_keys ch (utc_field f ch)"
  by (auto simp: strip_field_def vocab_field_def labels_field_def member_field_def utc_field_def when_given_def
      rbind_Inr_iff Let_def same_keys_dset split: option.splits slot.splits pyval.splits if_splits)

lemma ticket_field_keys:
  assumes "validated_ticket_fields sv ts ch project i = Inr ch'"
  shows "same_keys ch ch'"
proof -
  from assms obtain c1 c2 c3 c4 where "strip_field sv ''title'' (Some TITLE_MAX) ch = Inr c1"
      "vocab_field ''status'' TICKET_STATUSES c1 = Inr c2" "vocab_field ''priority'' TICKET_PRIORITIES c2 = Inr c3"
      "labels_field c3 = Inr c4" "same_keys c4 ch'"
    by (auto simp: validated_ticket_fields_def rbind_Inr_iff when_given_def dest!: field_keys(4)
        split: option.splits if_splits)
  then show ?thesis using field_keys(1-3) same_keys_trans by meson
qed

lemma known_keys: "known_fields fs ch = Inr u \<Longrightarrow> same_keys ch ch' \<Longrightarrow> fst ` set ch' \<subseteq> set fs"
  by (auto simp: known_fields_def same_keys_def)

section \<open>The rows are the folds of their events\<close>

definition TRACKED :: "model list" where
  "TRACKED = [Project, Ticket, Comment, TicketRelationship, Milestone, TicketMilestone, FollowUp]"

lemma models_ok_TRACKED: "models_ok TRACKED"
  by code_simp

lemma TRACKED_simps [simp]:
  "Project \<in> set TRACKED" "Ticket \<in> set TRACKED" "Comment \<in> set TRACKED" "TicketRelationship \<in> set TRACKED"
  "Milestone \<in> set TRACKED" "TicketMilestone \<in> set TRACKED" "FollowUp \<in> set TRACKED"
  by (simp_all add: TRACKED_def)

lemma stable_in_step [stable_intros]: "stable (in_step sv dt k ms)"
  by (auto simp: stable_def in_step_def fresh_ids_def)

lemma op_neq_tombstone: "op_patch \<noteq> op_tombstone" "op_append \<noteq> op_tombstone"
  by (simp_all add: op_patch_def op_append_def op_tombstone_def)

definition settled :: "service \<Rightarrow> (pystr \<Rightarrow> int option) \<Rightarrow> sink \<Rightarrow> session \<Rightarrow> bool" where
  "settled sv dt k s \<longleftrightarrow> in_step sv dt k TRACKED s \<and> ss_stored s = ss_db s"

lemma yields_create:
  assumes "service_ok sv dt k" "m \<in> set TRACKED" "opn \<noteq> op_tombstone" "dget flds (lit ''id'') = None"
    and "\<And>s. P s \<Longrightarrow> in_step sv dt k TRACKED s"
  shows "yields P (create_row sv m action rf opn flds ts) (\<lambda>_. settled sv dt k)"
  unfolding settled_def
  using create_row_in_step [OF _ assms(5,1) models_ok_TRACKED assms(2-4)] by (intro yieldsI)

lemma yields_patch:
  assumes "service_ok sv dt k" "m \<in> set TRACKED" "lit ''id'' \<notin> fst ` set ch"
    and "\<And>s. P s \<Longrightarrow> in_step sv dt k TRACKED s \<and> get_row (rp_tables (ss_db s)) m e = Some r"
  shows "yields P (apply_patch sv m (load r) ch action) (\<lambda>_. settled sv dt k)"
  unfolding settled_def
  using apply_patch_in_step [OF _ _ assms(1) models_ok_TRACKED assms(2) _ assms(3)] assms(4) by (blast intro: yieldsI)

lemma yields_removed:
  assumes "service_ok sv dt k" "m \<in> set TRACKED"
    and "\<And>s. P s \<Longrightarrow> in_step sv dt k TRACKED s \<and> get_row (rp_tables (ss_db s)) m e = Some r"
  shows "yields P (eseq (remove_row sv m action rf (load r) ts) commit) (\<lambda>_. settled sv dt k)"
  unfolding settled_def
proof (rule yieldsI)
  fix s x s' assume "P s" "eseq (remove_row sv m action rf (load r) ts) commit s = (Inr x, s')"
  then obtain t where "remove_row sv m action rf (load r) ts s = (Inr (), t)" "s' = t\<lparr>ss_stored := ss_db t\<rparr>"
    by (auto simp: eseq_Inr)
  moreover from this(1) have "in_step sv dt k TRACKED t"
    using remove_row_in_step [OF _ _ assms(1) models_ok_TRACKED assms(2)] assms(3) [OF \<open>P s\<close>] by blast
  ultimately show "in_step sv dt k TRACKED s' \<and> ss_stored s' = ss_db s'" by (simp add: in_step_def fresh_ids_def)
qed

text \<open>No patch names the key.\<close>

lemma patchable_ids: "lit ''id'' \<notin> set PROJECT_PATCHABLE" "lit ''id'' \<notin> set TICKET_PATCHABLE"
  "lit ''id'' \<notin> set MILESTONE_PATCHABLE" "lit ''id'' \<notin> set FOLLOW_UP_PATCHABLE"
  by code_simp+

lemma no_id: "known_fields fs ch = Inr u \<Longrightarrow> same_keys ch ch' \<Longrightarrow> lit ''id'' \<notin> set fs \<Longrightarrow> lit ''id'' \<notin> fst ` set ch'"
  using known_keys by blast

lemma project_ops_settle:
  assumes "service_ok sv dt k"
  shows "yields (in_step sv dt k TRACKED) (create_project sv w n g sc ow td st) (\<lambda>_. settled sv dt k)"
    and "yields (in_step sv dt k TRACKED) (update_project sv i ch) (\<lambda>_. settled sv dt k)"
proof -
  show "yields (in_step sv dt k TRACKED) (create_project sv w n g sc ow td st) (\<lambda>_. settled sv dt k)"
    unfolding create_project_def Let_def
    by (intro yields_intros yields_create stable_intros assms op_neq_tombstone) (auto simp: stamps_def)
  show "yields (in_step sv dt k TRACKED) (update_project sv i ch) (\<lambda>_. settled sv dt k)"
    unfolding update_project_def get_project_def
  proof (intro yields_intros)
    fix r y and d :: replica assume "rbind (known_fields PROJECT_PATCHABLE ch) (\<lambda>_. rbind (strip_field sv ''name'' None ch) (\<lambda>ch.
        rbind (vocab_field ''status'' PROJECT_STATUSES ch) (\<lambda>ch. member_field (rp_tables d) ''owner'' ch))) = Inr y"
    then have "known_fields PROJECT_PATCHABLE ch = Inr ()" "same_keys ch y"
      by (auto simp: rbind_Inr_iff dest!: field_keys(1,2,4) intro: same_keys_trans)
    from no_id [OF this patchable_ids(1)]
    have "lit ''id'' \<notin> fst ` set y" .
    then show "yields (\<lambda>s. (in_step sv dt k TRACKED s \<and> get_row (rp_tables (ss_db s)) Project i = Some r) \<and> ss_db s = d)
        (apply_patch sv Project (load r) y ''project.update'') (\<lambda>_. settled sv dt k)"
      by (intro yields_patch [where e = i] assms) auto
  qed
qed

lemma ticket_ops_settle:
  assumes "service_ok sv dt k"
  shows "yields (in_step sv dt k TRACKED) (create_ticket sv p t d st pr ls a du c stage parent) (\<lambda>_. settled sv dt k)"
    and "yields (in_step sv dt k TRACKED) (update_ticket sv i ch) (\<lambda>_. settled sv dt k)"
    and "yields (settled sv dt k) (add_attachment sv i atch) (\<lambda>_. settled sv dt k)"
proof -
  show "yields (in_step sv dt k TRACKED) (create_ticket sv p t d st pr ls a du c stage parent) (\<lambda>_. settled sv dt k)"
    unfolding create_ticket_def get_project_def
  proof (intro yields_intros yields_create stable_intros assms op_neq_tombstone)
    fix y ts and e :: replica
    assume "validated_ticket_fields sv (rp_tables e) [(lit ''title'', Js (PStr t)), (lit ''description'', Js (PStr d)),
      (lit ''status'', Js (PStr st)), (lit ''priority'', Js (PStr pr)),
      (lit ''labels'', Js (PList (map PStr (case ls of None \<Rightarrow> [] | Some ls \<Rightarrow> ls)))),
      (lit ''assignee'', opt_text a), (lit ''due_date'', opt_moment du), (lit ''acceptance_criteria'', Js (PStr c)),
      (lit ''lifecycle_stage'', Js (PStr stage)), (lit ''parent_id'', opt_text parent)] (Js (PStr p)) None = Inr y"
    from ticket_field_keys [OF this] have "lit ''id'' \<notin> fst ` set y" by (simp add: same_keys_def)
    then show "dget ([(lit ''project_id'', Js (PStr p)), (lit ''created_by'', Js (PStr (sv_actor sv)))] @ stamps ts @ y)
        (lit ''id'') = None"
      by (simp add: stamps_def map_of_eq_None_iff)
  qed auto
  show "yields (in_step sv dt k TRACKED) (update_ticket sv i ch) (\<lambda>_. settled sv dt k)"
    unfolding update_ticket_def get_ticket_def
  proof (intro yields_intros)
    fix r y and e :: replica assume "rbind (known_fields TICKET_PATCHABLE ch) (\<lambda>_.
        validated_ticket_fields sv (rp_tables e) ch (attr (load r) ''project_id'') (Some i)) = Inr y"
    then have "known_fields TICKET_PATCHABLE ch = Inr ()" "same_keys ch y"
      by (auto simp: rbind_Inr_iff dest!: ticket_field_keys)
    from no_id [OF this patchable_ids(2)]
    show "yields (\<lambda>s. (in_step sv dt k TRACKED s \<and> get_row (rp_tables (ss_db s)) Ticket i = Some r) \<and> ss_db s = e)
        (apply_patch sv Ticket (load r) y ''ticket.update'') (\<lambda>_. settled sv dt k)"
      by (intro yields_patch [where e = i] assms) auto
  qed
  show "yields (settled sv dt k) (add_attachment sv i atch) (\<lambda>_. settled sv dt k)"
    unfolding add_attachment_def get_ticket_def
    by (intro yields_intros yields_patch [OF assms, where e = i]) (auto simp: settled_def yields_def)
qed

lemma other_creates_settle:
  assumes "service_ok sv dt k"
  shows "yields (in_step sv dt k TRACKED) (add_relation sv a b t) (\<lambda>_. settled sv dt k)"
    and "yields (in_step sv dt k TRACKED) (add_comment sv i body) (\<lambda>_. settled sv dt k)"
    and "yields (in_step sv dt k TRACKED) (create_milestone sv p n d tgt st) (\<lambda>_. settled sv dt k)"
    and "yields (in_step sv dt k TRACKED) (add_ticket_to_milestone sv a b) (\<lambda>_. settled sv dt k)"
    and "yields (in_step sv dt k TRACKED) (create_follow_up sv i ti body due prov) (\<lambda>_. settled sv dt k)"
  unfolding add_relation_def add_comment_def create_milestone_def add_ticket_to_milestone_def create_follow_up_def
    get_ticket_def get_milestone_def Let_def
  by (intro yields_intros yields_create stable_intros assms op_neq_tombstone; auto simp: stamps_def)+

lemma other_patches_settle:
  assumes "service_ok sv dt k"
  shows "yields (in_step sv dt k TRACKED) (update_milestone sv i ch) (\<lambda>_. settled sv dt k)"
    and "yields (in_step sv dt k TRACKED) (update_follow_up sv i ch) (\<lambda>_. settled sv dt k)"
    and "yields (in_step sv dt k TRACKED) (complete_follow_up sv i status) (\<lambda>_. settled sv dt k)"
proof -
  show "yields (in_step sv dt k TRACKED) (update_milestone sv i ch) (\<lambda>_. settled sv dt k)"
    unfolding update_milestone_def get_milestone_def
  proof (intro yields_intros)
    fix r y assume "rbind (known_fields MILESTONE_PATCHABLE ch) (\<lambda>_. rbind (strip_field sv ''name'' (Some TITLE_MAX) ch) (\<lambda>ch.
        rbind (vocab_field ''status'' MILESTONE_STATUSES ch) (\<lambda>ch. Inr (utc_field ''target_date'' ch)))) = Inr y"
    then have "known_fields MILESTONE_PATCHABLE ch = Inr ()" "same_keys ch y"
      by (auto simp: rbind_Inr_iff dest!: field_keys(1,2) intro: same_keys_trans field_keys(5))
    from no_id [OF this patchable_ids(3)]
    show "yields (\<lambda>s. in_step sv dt k TRACKED s \<and> get_row (rp_tables (ss_db s)) Milestone i = Some r)
        (apply_patch sv Milestone (load r) y ''milestone.update'') (\<lambda>_. settled sv dt k)"
      by (intro yields_patch [where e = i] assms) auto
  qed
  show "yields (in_step sv dt k TRACKED) (update_follow_up sv i ch) (\<lambda>_. settled sv dt k)"
    unfolding update_follow_up_def get_follow_up_def
  proof (intro yields_intros)
    fix r y assume "rbind (known_fields FOLLOW_UP_PATCHABLE ch) (\<lambda>_. rbind (strip_field sv ''title'' (Some TITLE_MAX) ch)
        (\<lambda>ch. Inr (utc_field ''due_at'' ch))) = Inr y"
    then have "known_fields FOLLOW_UP_PATCHABLE ch = Inr ()" "same_keys ch y"
      by (auto simp: rbind_Inr_iff dest!: field_keys(1) intro: same_keys_trans field_keys(5))
    from no_id [OF this patchable_ids(4)]
    show "yields (\<lambda>s. in_step sv dt k TRACKED s \<and> get_row (rp_tables (ss_db s)) FollowUp i = Some r)
        (apply_patch sv FollowUp (load r) y ''follow_up.update'') (\<lambda>_. settled sv dt k)"
      by (intro yields_patch [where e = i] assms) auto
  qed
  show "yields (in_step sv dt k TRACKED) (complete_follow_up sv i status) (\<lambda>_. settled sv dt k)"
    unfolding complete_follow_up_def get_follow_up_def
    by (intro yields_intros yields_patch [where e = i] assms) auto
qed

lemma removals_settle:
  assumes "service_ok sv dt k"
  shows "yields (in_step sv dt k TRACKED) (remove_relation sv i) (\<lambda>_. settled sv dt k)"
    and "yields (in_step sv dt k TRACKED) (remove_ticket_from_milestone sv i) (\<lambda>_. settled sv dt k)"
  unfolding remove_relation_def remove_ticket_from_milestone_def tombstone_membership_def
  by (intro yields_intros stable_intros yields_removed [OF assms, where e = i]; simp)+

section \<open>The tables stay well-typed\<close>

definition typed :: "session \<Rightarrow> bool" where
  "typed s \<longleftrightarrow> (\<forall>m \<in> set COLLECTION_MODELS. table_ok (rp_tables (ss_db s)) m)"

lemma collection_tables_distinct: "distinct (map m_table COLLECTION_MODELS)"
  by code_simp

lemma keeps_typed_tables:
  assumes "m \<in> set COLLECTION_MODELS" "\<And>ts ts'. f ts = Inr ts' \<Longrightarrow> table_ok ts m \<Longrightarrow> table_ok ts' m"
    and "\<And>ts ts' t. f ts = Inr ts' \<Longrightarrow> t \<noteq> m_table m \<Longrightarrow> ts' t = ts t"
  shows "keeps typed (on_tables f)"
proof (rule keepsI)
  fix s r s' assume typed: "typed s" and run: "on_tables f s = (r, s')"
  show "typed s'"
  proof (cases r)
    case (Inr u)
    with run obtain ts where ts: "f (rp_tables (ss_db s)) = Inr ts" "rp_tables (ss_db s') = ts"
      by (auto simp: on_tables_Inr)
    have "table_ok ts m'" if "m' \<in> set COLLECTION_MODELS" for m'
    proof (cases "m' = m")
      case True
      with typed assms(1,2) ts(1) show ?thesis by (auto simp: typed_def)
    next
      case False
      with that assms(1) collection_tables_distinct have "m_table m' \<noteq> m_table m"
        by (auto simp: distinct_map inj_on_def)
      with assms(3) [OF ts(1)] have "ts (m_table m') = rp_tables (ss_db s) (m_table m')" by blast
      with typed that show ?thesis by (simp add: typed_def table_ok_def)
    qed
    with ts(2) show ?thesis by (simp add: typed_def)
  next
    case (Inl e)
    with run typed show ?thesis by (simp add: on_tables_Inl)
  qed
qed

lemma keeps_typed_same: "(\<And>s r s'. m s = (r, s') \<Longrightarrow> rp_tables (ss_db s') = rp_tables (ss_db s)) \<Longrightarrow> keeps typed m"
  by (rule keepsI) (simp add: typed_def)

lemma keeps_typed_prims [keeps_intros]:
  "keeps typed (fresh_env sv)" "keeps typed (now sv)" "keeps typed (look f)" "keeps typed (require b)"
  "keeps typed (get_entity m i)" "keeps typed commit" "keeps typed (write_audit sv action ref before after ts)"
  "keeps typed (emit_event sv c i opn pl)" "keeps typed (lift r)" "keeps typed (on_rows g)"
proof -
  show a: "keeps typed (fresh_env sv)" by (rule keeps_typed_same) (auto simp: fresh_env_def)
  show b: "keeps typed (look f)" for f :: "replica \<Rightarrow> 'z" by (rule keeps_typed_same) (auto simp: look_def eget_def)
  show "keeps typed (now sv)" unfolding now_def by (intro keeps_intros a)
  show "keeps typed (require b)" unfolding require_def by (intro keeps_intros)
  show "keeps typed (get_entity m i)" unfolding get_entity_def by (intro keeps_intros b)
  show "keeps typed commit" by (rule keeps_typed_same) (auto simp: commit_def emod_def)
  show "keeps typed (write_audit sv action ref before after ts)"
    unfolding write_audit_def by (intro keeps_intros a b) (rule keeps_typed_same; auto simp: mod_db_def emod_def)
  show "keeps typed (emit_event sv c i opn pl)"
    unfolding emit_event_def by (intro keeps_intros a b) (rule keeps_typed_same; auto simp: mod_db_def emod_def)
  show "keeps typed (lift r)" unfolding lift_def by (intro keeps_intros)
  show "keeps typed (on_rows g)" unfolding on_rows_def lift_def by (intro keeps_intros b)
qed

lemma keeps_typed_row_ops:
  assumes "m \<in> set COLLECTION_MODELS"
  shows "keeps typed (on_tables (row_insert m r))" "keeps typed (on_tables (row_update m i r))"
    "keeps typed (on_tables (row_delete m i))"
proof -
  show "keeps typed (on_tables (row_insert m r))"
    by (rule keeps_typed_tables [OF assms]) (erule row_insert_table_ok row_ops_touch; assumption)+
  show "keeps typed (on_tables (row_update m i r))"
    by (rule keeps_typed_tables [OF assms]) (erule row_update_table_ok row_ops_touch; assumption)+
  show "keeps typed (on_tables (row_delete m i))"
    by (rule keeps_typed_tables [OF assms]) (erule row_delete_table_ok row_ops_touch; assumption)+
qed

lemma keeps_typed_writes:
  assumes "m \<in> set COLLECTION_MODELS"
  shows "keeps typed (create_row sv m action rf opn flds ts)" "keeps typed (apply_patch sv m ob ch action)"
    "keeps typed (remove_row sv m action rf ob ts)"
  unfolding create_row_def apply_patch_def remove_row_def flush_new_def flush_set_def Let_def
  by (intro keeps_intros keeps_typed_row_ops [OF assms])+

lemma keeps_ignore [keeps_intros]: "keeps P m \<Longrightarrow> keeps P (ignore m)"
  unfolding ignore_def by (intro keeps_intros)

lemma tracked_collections:
  "Project \<in> set COLLECTION_MODELS" "Ticket \<in> set COLLECTION_MODELS" "Comment \<in> set COLLECTION_MODELS"
  "TicketRelationship \<in> set COLLECTION_MODELS" "Milestone \<in> set COLLECTION_MODELS"
  "TicketMilestone \<in> set COLLECTION_MODELS" "FollowUp \<in> set COLLECTION_MODELS"
  by (simp_all add: COLLECTION_MODELS_def)

lemma tracker_op_typed: "tracker_op sv m \<Longrightarrow> keeps typed m"
  by (induction rule: tracker_op.induct; unfold tracker_op_defs Let_def; intro keeps_intros keeps_typed_writes tracked_collections)

section \<open>Removing memberships\<close>

definition rows_there :: "model \<Rightarrow> object list \<Rightarrow> tables \<Rightarrow> bool" where
  "rows_there m obs ts \<longleftrightarrow>
     (\<forall>ob \<in> set obs. \<exists>r. ob = load r \<and> get_row ts m (object_id ob) = Some r) \<and> distinct (map object_id obs)"

lemma all_rows_there:
  assumes "in_step sv dt k ms s" "m \<in> set ms" "dict_ok (rp_tables (ss_db s) (m_table m))"
  shows "rows_there m (all_rows (rp_tables (ss_db s)) m) (rp_tables (ss_db s))"
proof -
  let ?d = "rp_tables (ss_db s) (m_table m)"
  have row: "object_id (load r) = i \<and> get_row (rp_tables (ss_db s)) m i = Some r" if "(i, r) \<in> set ?d" for i r
  proof -
    have g: "get_row (rp_tables (ss_db s)) m i = Some r" using that assms(3) by (simp add: get_row_def dict_ok_def)
    obtain d where "id_of r = Some i" using in_step_row [OF assms(1,2) g] by metis
    with g show ?thesis by (simp add: object_id_id_of)
  qed
  have "map (object_id \<circ> (load \<circ> snd)) ?d = map fst ?d" using row by (auto intro!: map_cong)
  then have "map object_id (all_rows (rp_tables (ss_db s)) m) = map fst ?d" by (simp add: all_rows_def comp_assoc)
  with assms(3) have "distinct (map object_id (all_rows (rp_tables (ss_db s)) m))" by (simp add: dict_ok_def)
  moreover have "\<exists>r. ob = load r \<and> get_row (rp_tables (ss_db s)) m (object_id ob) = Some r"
    if "ob \<in> set (all_rows (rp_tables (ss_db s)) m)" for ob
    using that row by (force simp: all_rows_def)
  ultimately show ?thesis unfolding rows_there_def by blast
qed

lemma rows_there_filter: "rows_there m obs ts \<Longrightarrow> rows_there m (filter P obs) ts"
  unfolding rows_there_def by (auto simp: distinct_map_filter)

lemma remove_row_run:
  assumes "remove_row sv m action rf ob ts s = (Inr u, s')"
  shows "rp_tables (ss_db s') = (rp_tables (ss_db s))(m_table m := AList.delete (object_id ob) (rp_tables (ss_db s) (m_table m)))"
proof -
  from assms obtain s1 s2 ts' where r: "write_audit sv action (rf ob) (Some (snapshot sv ob)) None ts s = (Inr (), s1)"
      "emit_event sv (m_table m) (object_id ob) op_tombstone [] s1 = (Inr (), s2)"
      "row_delete m (object_id ob) (rp_tables (ss_db s2)) = Inr ts'" "s' = s2\<lparr>ss_db := (ss_db s2)\<lparr>rp_tables := ts'\<rparr>\<rparr>"
    by (auto simp: remove_row_def eseq_Inr on_tables_Inr)
  have "rp_tables (ss_db s1) = rp_tables (ss_db s)" using r(1) by (auto elim: write_audit_run)
  moreover have "rp_tables (ss_db s2) = rp_tables (ss_db s1)" using r(2)
    by (cases "sv_sink sv") (auto simp: emit_event_def ebind_Inr fresh_env_iff)
  ultimately show ?thesis using r(3,4) by (auto simp: row_delete_def split: if_splits)
qed

lemma rows_there_delete:
  assumes "rows_there m (ob # obs) ts"
  shows "rows_there m obs (ts(m_table m := AList.delete (object_id ob) (ts (m_table m))))"
  unfolding rows_there_def
proof (intro conjI ballI)
  show "distinct (map object_id obs)" using assms by (simp add: rows_there_def)
  fix x assume x: "x \<in> set obs"
  then have "object_id x \<noteq> object_id ob" using assms unfolding rows_there_def by (metis distinct.simps(2) image_eqI image_set list.simps(9))
  moreover obtain r where "x = load r" "get_row ts m (object_id x) = Some r"
    using assms x unfolding rows_there_def by (meson list.set_intros(2))
  ultimately show "\<exists>r. x = load r \<and>
      get_row (ts(m_table m := AList.delete (object_id ob) (ts (m_table m)))) m (object_id x) = Some r"
    by (intro exI [of _ r]) (simp add: get_row_def delete_conv')
qed

lemma tombstones_settle:
  assumes "service_ok sv dt k"
  shows "yields (\<lambda>s. in_step sv dt k TRACKED s \<and> rows_there TicketMilestone obs (rp_tables (ss_db s)) \<and>
      get_row (rp_tables (ss_db s)) Milestone i = Some r)
    (efor (tombstone_membership sv ts) obs)
    (\<lambda>_ s. in_step sv dt k TRACKED s \<and> get_row (rp_tables (ss_db s)) Milestone i = Some r)"
proof (induction obs)
  case (Cons ob obs)
  let ?P = "\<lambda>obs s. in_step sv dt k TRACKED s \<and> rows_there TicketMilestone obs (rp_tables (ss_db s)) \<and>
      get_row (rp_tables (ss_db s)) Milestone i = Some r"
  have "yields (?P (ob # obs)) (tombstone_membership sv ts ob) (\<lambda>_. ?P obs)"
    unfolding tombstone_membership_def
  proof (rule yieldsI)
    fix s x s' assume P: "?P (ob # obs) s" and run: "remove_row sv TicketMilestone ''milestone.remove_ticket''
        (\<lambda>ob. ref_to (m_table Ticket) (text_value (attr ob ''ticket_id''))) ob ts s = (Inr x, s')"
    from P obtain rw where rw: "ob = load rw" "get_row (rp_tables (ss_db s)) TicketMilestone (object_id ob) = Some rw"
      unfolding rows_there_def by auto
    have "in_step sv dt k TRACKED s'"
      using remove_row_in_step [OF run [unfolded rw(1)] _ assms models_ok_TRACKED _ rw(2)] P by simp
    moreover have "m_table Milestone \<noteq> m_table TicketMilestone" by (simp add: Milestone_def TicketMilestone_def)
    moreover have "rows_there TicketMilestone obs (rp_tables (ss_db s'))"
      unfolding remove_row_run [OF run] by (rule rows_there_delete) (use P in blast)
    ultimately show "?P obs s'"
      using P unfolding remove_row_run [OF run] get_row_def by simp
  qed
  then show ?case using Cons.IH by (simp add: yields_eseq)
qed (simp add: yields_def)

lemma memberships_there:
  assumes "in_step sv dt k TRACKED s" "typed s"
  shows "rows_there TicketMilestone (memberships_for (rp_tables (ss_db s)) i) (rp_tables (ss_db s))"
  using assms tracked_collections(6)
  by (auto simp: memberships_for_def typed_def table_ok_def intro!: rows_there_filter all_rows_there)

lemma membership_ops_settle:
  assumes "service_ok sv dt k"
  shows "yields (\<lambda>s. in_step sv dt k TRACKED s \<and> typed s) (delete_milestone sv i) (\<lambda>_. settled sv dt k)"
    and "yields (\<lambda>s. in_step sv dt k TRACKED s \<and> typed s) (remove_ticket_from_milestone_by_pair sv a b) (\<lambda>_. settled sv dt k)"
proof -
  have st: "stable typed" by (simp add: stable_def typed_def)
  show "yields (\<lambda>s. in_step sv dt k TRACKED s \<and> typed s) (delete_milestone sv i) (\<lambda>_. settled sv dt k)"
    unfolding delete_milestone_def get_milestone_def
  proof (intro yields_intros stable_intros st)
    fix r ts and d :: replica
    show "yields (\<lambda>s. ((in_step sv dt k TRACKED s \<and> typed s) \<and> get_row (rp_tables (ss_db s)) Milestone i = Some r) \<and> ss_db s = d)
      (eseq (efor (tombstone_membership sv ts) (memberships_for (rp_tables d) i))
        (eseq (remove_row sv Milestone ''milestone.delete'' (ref_own Milestone) (load r) ts) commit)) (\<lambda>_. settled sv dt k)"
      by (rule yields_eseq [OF yields_pre [OF tombstones_settle [OF assms]]])
        (auto intro: memberships_there intro!: yields_removed [OF assms, where e = i])
  qed
  show "yields (\<lambda>s. in_step sv dt k TRACKED s \<and> typed s) (remove_ticket_from_milestone_by_pair sv a b) (\<lambda>_. settled sv dt k)"
    unfolding remove_ticket_from_milestone_by_pair_def tombstone_membership_def
  proof (intro yields_intros)
    fix d :: replica
    let ?P = "\<lambda>s. (in_step sv dt k TRACKED s \<and> typed s) \<and> ss_db s = d"
    show "yields ?P (case List.find (text_is ''ticket_id'' (Some a)) (memberships_for (rp_tables d) b) of
        None \<Rightarrow> eraise (NotFoundError (m_table TicketMilestone) (ref_to a b))
      | Some ob \<Rightarrow> ebind (now sv) (\<lambda>ts. eseq (remove_row sv TicketMilestone ''milestone.remove_ticket''
          (\<lambda>ob. ref_to (m_table Ticket) (text_value (attr ob ''ticket_id''))) ob ts) commit)) (\<lambda>_. settled sv dt k)"
    proof (cases "List.find (text_is ''ticket_id'' (Some a)) (memberships_for (rp_tables d) b)")
      case (Some ob)
      then have ob: "ob \<in> set (memberships_for (rp_tables d) b)" by (auto simp: find_Some_iff)
      show ?thesis
      proof (cases "\<exists>r. ob = load r \<and> get_row (rp_tables d) TicketMilestone (object_id ob) = Some r")
        case True
        then obtain r where "ob = load r" "get_row (rp_tables d) TicketMilestone (object_id ob) = Some r" by blast
        then show ?thesis using Some
          by (auto intro!: yields_now stable_intros st yields_removed [OF assms, where e = "object_id ob"])
      next
        case False
        then have "\<not> ?P s" for s using memberships_there [of sv dt k s b] ob unfolding rows_there_def by metis
        then show ?thesis unfolding yields_def by blast
      qed
    qed (simp add: yields_def)
  qed
qed

section \<open>Requests, one after another\<close>

definition rested :: "session \<Rightarrow> bool" where
  "rested s \<longleftrightarrow> ss_stored s = ss_db s"

lemma stable_rested [stable_intros]: "stable rested"
  by (simp add: stable_def rested_def)

lemma yields_commit: "yields P (eseq m commit) (\<lambda>_. rested)"
  by (auto simp: yields_def eseq_Inr rested_def)

lemma yields_commits:
  "yields P (create_row sv m action rf opn flds ts) (\<lambda>_. rested)" "yields P (apply_patch sv m ob ch action) (\<lambda>_. rested)"
  by (auto simp: yields_def create_row_def apply_patch_def Let_def ebind_Inr eseq_Inr rested_def)

lemma eseq_assoc: "eseq a (eseq b c) = eseq (eseq a b) c"
  by (rule ext) (auto simp: eseq_def ebind_def split: prod.splits sum.splits)

lemma yields_found [yields_intros]:
  "yields P m Q \<Longrightarrow> (\<And>y. yields P (n y) Q) \<Longrightarrow> yields P (case z of None \<Rightarrow> m | Some y \<Rightarrow> n y) Q"
  by (cases z) auto

lemma yields_raise: "yields P (eraise e) Q"
  by (simp add: yields_def)

lemma tracker_op_rested: "tracker_op sv m \<Longrightarrow> yields rested m (\<lambda>_. rested)"
proof (induction rule: tracker_op.induct)
  case (5 i atch)
  show ?case unfolding add_attachment_def get_ticket_def
    by (intro yields_intros yields_commits) (auto simp: yields_def)
next
  case (11 i)
  show ?case unfolding delete_milestone_def get_milestone_def eseq_assoc
    by (intro yields_intros yields_commit stable_intros)
qed (unfold tracker_op_defs Let_def; intro yields_intros yields_commits yields_commit yields_raise stable_intros)+

lemma tracker_op_settles:
  assumes "service_ok sv dt k" "tracker_op sv m"
  shows "yields (\<lambda>s. settled sv dt k s \<and> typed s) m (\<lambda>_. settled sv dt k)"
proof -
  have pre: "yields (in_step sv dt k TRACKED) n Q \<Longrightarrow> yields (\<lambda>s. settled sv dt k s \<and> typed s) n Q"
    "yields (\<lambda>s. in_step sv dt k TRACKED s \<and> typed s) n Q \<Longrightarrow> yields (\<lambda>s. settled sv dt k s \<and> typed s) n Q"
    "yields (settled sv dt k) n Q \<Longrightarrow> yields (\<lambda>s. settled sv dt k s \<and> typed s) n Q" for n :: "'z svc" and Q
    by (auto simp: yields_def settled_def)
  from assms(2) show ?thesis
    by cases (simp_all only: yields_ignore pre project_ops_settle [OF assms(1)] ticket_ops_settle [OF assms(1)]
      other_creates_settle [OF assms(1)] other_patches_settle [OF assms(1)] removals_settle [OF assms(1)]
      membership_ops_settle [OF assms(1)])
qed

definition advances :: "session \<Rightarrow> session \<Rightarrow> bool" where
  "advances s s' \<longleftrightarrow> ss_fresh s \<le> ss_fresh s'"

interpretation advances: progress advances
  by unfold_locales (simp_all add: advances_def)

lemma advances_prims [moves_intros]:
  "moves advances (fresh_env sv)" "moves advances (now sv)" "moves advances (look f)" "moves advances (mod_db g)"
  "moves advances (require b)" "moves advances (get_entity m i)" "moves advances (on_tables h)" "moves advances commit"
  "moves advances (lift r)" "moves advances (on_rows j)" "moves advances (write_audit sv action ref before after ts)"
  "moves advances (emit_event sv c i opn pl)"
proof -
  show a: "moves advances (fresh_env sv)" "moves advances (look f)" "moves advances (mod_db g)" "moves advances commit"
    for f :: "replica \<Rightarrow> 'z" and g
    by (rule movesI; simp add: fresh_env_def look_def eget_def mod_db_def emod_def commit_def advances_def; force)+
  show "moves advances (now sv)" unfolding now_def by (intro moves_intros a)
  show "moves advances (require b)" unfolding require_def by (intro moves_intros)
  show "moves advances (get_entity m i)" unfolding get_entity_def by (intro moves_intros a)
  show "moves advances (on_tables h)" unfolding on_tables_def by (intro moves_intros a)
  show "moves advances (lift r)" unfolding lift_def by (intro moves_intros)
  show "moves advances (on_rows j)" unfolding on_rows_def lift_def by (intro moves_intros a)
  show "moves advances (write_audit sv action ref before after ts)" unfolding write_audit_def by (intro moves_intros a)
  show "moves advances (emit_event sv c i opn pl)" unfolding emit_event_def by (intro moves_intros a)
qed

lemma advances_writes [moves_intros]:
  "moves advances (create_row sv m action rf opn flds ts)" "moves advances (apply_patch sv m ob ch action)"
  "moves advances (remove_row sv m action rf ob ts)"
  unfolding create_row_def apply_patch_def remove_row_def flush_new_def flush_set_def Let_def by (intro moves_intros)+

lemma tracker_op_advances: "tracker_op sv m \<Longrightarrow> moves advances m"
  by (induction rule: tracker_op.induct; unfold tracker_op_defs Let_def ignore_def; intro moves_intros)

inductive tracker_runs :: "service \<Rightarrow> session \<Rightarrow> session \<Rightarrow> bool" for sv s where
  runs_refl: "tracker_runs sv s s"
| runs_step: "tracker_runs sv s t \<Longrightarrow> tracker_op sv m \<Longrightarrow> tracker_runs sv s (snd (request m t))"

text \<open>A request that fails only consumed identifiers; one that succeeds leaves nothing uncommitted.\<close>

lemma request_outcome:
  assumes "tracker_op sv m" "rested s" "request m s = (r, t)"
  shows "rested t \<and> advances s t \<and> (case r of Inl e \<Rightarrow> ss_db t = ss_db s | Inr x \<Rightarrow> m s = (Inr x, t))"
proof -
  obtain u where u: "m s = (r, u)" "t = u\<lparr>ss_db := ss_stored u\<rparr>" using assms(3) by (auto simp: request_def split: prod.splits)
  have "advances s t" using movesD [OF tracker_op_advances [OF assms(1)] u(1)] u(2) by (simp add: advances_def)
  moreover have "case r of Inl e \<Rightarrow> ss_db t = ss_db s | Inr x \<Rightarrow> m s = (Inr x, t)"
  proof (cases r)
    case (Inl e)
    with tracker_op_late [OF assms(1)] u assms(2) show ?thesis by (simp add: late_def rested_def)
  next
    case (Inr x)
    with yieldsD [OF tracker_op_rested [OF assms(1)] assms(2)] u have "ss_stored u = ss_db u" by (simp add: rested_def)
    with u Inr show ?thesis by simp
  qed
  ultimately show ?thesis using u(2) by (simp add: rested_def)
qed

lemma runs_invariant:
  assumes "tracker_runs sv s t" "rested s" "I s"
    and "\<And>m u x v. tracker_op sv m \<Longrightarrow> rested u \<Longrightarrow> I u \<Longrightarrow> m u = (Inr x, v) \<Longrightarrow> I v"
    and "\<And>u v. I u \<Longrightarrow> ss_db v = ss_db u \<Longrightarrow> rested v \<Longrightarrow> advances u v \<Longrightarrow> I v"
  shows "rested t \<and> I t"
  using assms(1)
proof induction
  case (runs_step t m)
  obtain r u where req: "request m t = (r, u)" by force
  note out = request_outcome [OF runs_step.hyps(2) _ req]
  show ?case
  proof (cases r)
    case (Inl e)
    with out runs_step.IH assms(5) [of t u] req show ?thesis by simp
  next
    case (Inr x)
    with out runs_step.IH assms(4) [OF runs_step.hyps(2), of t x u] req show ?thesis by simp
  qed
qed (use assms(2,3) in simp)

lemma runs_settled:
  assumes "tracker_runs sv s t" "service_ok sv dt k" "settled sv dt k s" "typed s"
  shows "settled sv dt k t \<and> typed t"
proof -
  have "rested t \<and> (settled sv dt k t \<and> typed t)"
  proof (rule runs_invariant [OF assms(1)])
    show "rested s" "settled sv dt k s \<and> typed s" using assms(3,4) by (simp_all add: settled_def rested_def)
  next
    fix m u x v assume "tracker_op sv m" "settled sv dt k u \<and> typed u" "m u = (Inr x, v)"
    then show "settled sv dt k v \<and> typed v"
      using yieldsD [OF tracker_op_settles [OF assms(2)]] keepsD [OF tracker_op_typed] by blast
  next
    fix u v assume "settled sv dt k u \<and> typed u" "ss_db v = ss_db u" "rested v" "advances u v"
    then show "settled sv dt k v \<and> typed v"
      by (auto simp: settled_def in_step_def fresh_ids_def typed_def rested_def advances_def)
  qed
  then show ?thesis by simp
qed

end
