(* ===== verification/Structure.thy ===== *)
theory Structure
  imports Tracking
begin

text \<open>
  The shape of the tracker's data: relationships form an acyclic graph per family in which no fact
  is stored twice, and parent links form a forest inside each project.  Both hold of every session
  the tracker's operations lead to.
\<close>

section \<open>The row an operation wrote\<close>

lemma write_audit_tables: "write_audit sv action ref before after ts s = (Inr u, s') \<Longrightarrow> rp_tables (ss_db s') = rp_tables (ss_db s)"
  by (auto elim: write_audit_run)

lemma emit_event_tables: "emit_event sv c i opn pl s = (Inr u, s') \<Longrightarrow> rp_tables (ss_db s') = rp_tables (ss_db s)"
  by (cases "sv_sink sv") (auto simp: emit_event_def ebind_Inr fresh_env_iff)

lemma create_row_run:
  assumes "create_row sv m action rf opn flds ts s = (Inr ob, s')"
  obtains v where "row_insert m (to_row (new_object v m flds)) (rp_tables (ss_db s)) = Inr (rp_tables (ss_db s'))"
  using assms
  by (auto simp: create_row_def flush_new_def ebind_Inr eseq_Inr fresh_env_iff on_tables_Inr Let_def
      dest!: write_audit_tables emit_event_tables)

lemma apply_patch_run:
  assumes "apply_patch sv m ob ch action s = (Inr ob', s')"
  obtains ts where "row_update m (object_id (dset (lit ''updated_at'') (At (Naive ts)) (dupdate ob ch)))
    (to_row (dset (lit ''updated_at'') (At (Naive ts)) (dupdate ob ch))) (rp_tables (ss_db s)) = Inr (rp_tables (ss_db s'))"
proof -
  from assms show thesis
    unfolding apply_patch_def Let_def ebind_Inr now_iff
    by (auto simp: eseq_Inr flush_set_def on_tables_Inr dest!: write_audit_tables emit_event_tables intro: that)
qed

lemma dset_absent: "dget d i = None \<Longrightarrow> dset i r d = d @ [(i, r)]"
  by (induction d) (auto split: if_splits)

lemma row_insert_run:
  assumes "row_insert m (to_row (new_object v m flds)) ts = Inr ts'"
  obtains i where "get_row ts m i = None" "ts' = put_row m i (to_row (new_object v m flds)) ts"
    "ts' (m_table m) = ts (m_table m) @ [(i, to_row (new_object v m flds))]"
    "fk_ok ts m (to_row (new_object v m flds))" "id_of (to_row (new_object v m flds)) = Some i"
  using assms
  by (auto simp: row_insert_def get_row_def rbind_Inr_iff check_row_Inr put_row_def dset_absent split: option.splits if_splits)

section \<open>Relationships\<close>

definition row_key :: "row \<Rightarrow> relation_key" where
  "row_key r = relation_key (text_of r ''from_id'') (text_of r ''to_id'') (text_of r ''type'')"

definition relations_ok :: "tables \<Rightarrow> bool" where
  "relations_ok ts \<longleftrightarrow> (\<forall>f. acyclic (arcs ts f)) \<and> distinct (map row_key (relation_rows ts)) \<and>
     (\<forall>r \<in> set (relation_rows ts). text_of r ''type'' \<in> set RELATIONSHIP_TYPES)"

lemma relations_ok_cong: "ts' (m_table TicketRelationship) = ts (m_table TicketRelationship) \<Longrightarrow> relations_ok ts' = relations_ok ts"
  by (simp add: relations_ok_def relation_rows_def arcs_def)

text \<open>Rows with the same key share their endpoints, so looking at the rows that touch them is enough.\<close>

lemma same_key_touches:
  assumes "t \<in> set RELATIONSHIP_TYPES" "text_of r ''type'' \<in> set RELATIONSHIP_TYPES" "row_key r = relation_key a b t"
  shows "text_of r ''from_id'' \<in> {a, b}"
  using relation_key_eq [OF assms(2,1)] assms(3) by (auto simp: row_key_def)

lemma relations_ok_insert:
  assumes ok: "relations_ok ts" and t: "t \<in> set RELATIONSHIP_TYPES" "a \<noteq> b"
    and dup: "list_all (\<lambda>r. relation_key (text_of r ''from_id'') (text_of r ''to_id'') (text_of r ''type'')
      \<noteq> relation_key a b t) (relations_touching ts [a, b])"
    and cyc: "case relation_arc a b t of None \<Rightarrow> True | Some (f, src, dst) \<Rightarrow> \<not> would_cycle ts f src dst"
    and rows: "relation_rows ts' = relation_rows ts @ [r]"
    and r: "text_of r ''from_id'' = a" "text_of r ''to_id'' = b" "text_of r ''type'' = t"
  shows "relations_ok ts'"
proof -
  have "acyclic (arcs ts' f)" for f
  proof (cases "\<exists>src dst. relation_arc a b t = Some (f, src, dst)")
    case True
    then obtain src dst where arc: "relation_arc a b t = Some (f, src, dst)" by blast
    then have "src \<noteq> dst" using t(2) by (auto simp: relation_arc_def split: if_splits)
    moreover have "arcs ts' f = insert (src, dst) (arcs ts f)" using arc by (auto simp: arcs_def rows row_arc_def r)
    ultimately show ?thesis using guard_keeps_acyclic [of ts f src dst] ok cyc arc by (simp add: relations_ok_def)
  next
    case False
    then have "arcs ts' f = arcs ts f" by (auto simp: arcs_def rows row_arc_def r)
    then show ?thesis using ok by (simp add: relations_ok_def)
  qed
  moreover have "row_key r \<notin> row_key ` set (relation_rows ts)"
  proof
    assume "row_key r \<in> row_key ` set (relation_rows ts)"
    then obtain s where s: "s \<in> set (relation_rows ts)" "row_key s = relation_key a b t" by (auto simp: row_key_def r)
    from s(1) ok have "text_of s ''type'' \<in> set RELATIONSHIP_TYPES" by (simp add: relations_ok_def)
    from same_key_touches [OF t(1) this s(2)] s(1) have "s \<in> set (relations_touching ts [a, b])"
      by (auto simp: relations_touching_def)
    with dup s(2) show False by (simp add: list_all_iff row_key_def)
  qed
  ultimately show ?thesis using ok t(1) r by (auto simp: relations_ok_def rows)
qed

lemma relations_ok_delete:
  assumes "relations_ok ts"
  shows "relations_ok (ts(m_table TicketRelationship := AList.delete i (ts (m_table TicketRelationship))))"
proof -
  let ?ts = "ts(m_table TicketRelationship := AList.delete i (ts (m_table TicketRelationship)))"
  obtain P where rows: "relation_rows ?ts = map snd (filter P (ts (m_table TicketRelationship)))"
    by (simp add: relation_rows_def AList.delete_eq)
  then have sub: "set (relation_rows ?ts) \<subseteq> set (relation_rows ts)" by (auto simp: relation_rows_def)
  then have "arcs ?ts f \<subseteq> arcs ts f" for f by (auto simp: arcs_def)
  moreover have "distinct (map row_key (relation_rows ?ts))"
    unfolding rows map_map
    by (rule distinct_map_filter) (use assms in \<open>simp add: relations_ok_def relation_rows_def\<close>)
  ultimately show ?thesis using assms sub unfolding relations_ok_def by (meson acyclic_subset subsetD)
qed

lemma new_relation_fields:
  assumes "flds = [(lit ''from_id'', Js (PStr a)), (lit ''to_id'', Js (PStr b)), (lit ''type'', Js (PStr t)), (lit ''created_by'', c)] @ stamps ts"
  shows "text_of (to_row (new_object v TicketRelationship flds)) ''from_id'' = a"
    "text_of (to_row (new_object v TicketRelationship flds)) ''to_id'' = b"
    "text_of (to_row (new_object v TicketRelationship flds)) ''type'' = t"
  unfolding text_of_def cell_of_def dget_views assms
  by (simp_all add: new_object_def TicketRelationship_def CollectionBase_def column_def stamps_def)

lemma add_relation_ok:
  "yields (\<lambda>s. relations_ok (rp_tables (ss_db s))) (add_relation sv a b t) (\<lambda>_ s. relations_ok (rp_tables (ss_db s)))"
proof (rule yieldsI)
  fix s x s' assume ok: "relations_ok (rp_tables (ss_db s))" and run: "add_relation sv a b t s = (Inr x, s')"
  define ts where "ts = rp_tables (ss_db s)"
  define instant where "instant = env_now (sv_env sv (ss_fresh s))"
  define s1 where "s1 = s\<lparr>ss_fresh := Suc (ss_fresh s)\<rparr>"
  have s1_tables: "rp_tables (ss_db s1) = ts" by (simp add: s1_def ts_def)
  from run have guards: "t \<in> set RELATIONSHIP_TYPES" "a \<noteq> b"
      "list_all (\<lambda>r. relation_key (text_of r ''from_id'') (text_of r ''to_id'') (text_of r ''type'')
        \<noteq> relation_key a b t) (relations_touching ts [a, b])"
      "case relation_arc a b t of None \<Rightarrow> True | Some (f, src, dst) \<Rightarrow> \<not> would_cycle ts f src dst"
    and create: "create_row sv TicketRelationship ''relation.create'' (\<lambda>_. ref_to (m_table Ticket) a) op_patch
      ([(lit ''from_id'', Js (PStr a)), (lit ''to_id'', Js (PStr b)), (lit ''type'', Js (PStr t)),
        (lit ''created_by'', Js (PStr (sv_actor sv)))] @ stamps instant) instant s1 = (Inr x, s')"
    unfolding add_relation_def get_ticket_def eseq_Inr ebind_Inr require_iff get_entity_iff look_iff now_iff ts_def s1_def instant_def by auto
  from create obtain v where "row_insert TicketRelationship (to_row (new_object v TicketRelationship
      ([(lit ''from_id'', Js (PStr a)), (lit ''to_id'', Js (PStr b)), (lit ''type'', Js (PStr t)),
        (lit ''created_by'', Js (PStr (sv_actor sv)))] @ stamps instant))) ts = Inr (rp_tables (ss_db s'))"
    by (rule create_row_run) (simp add: s1_tables)
  then obtain i where "rp_tables (ss_db s') (m_table TicketRelationship) = ts (m_table TicketRelationship) @
      [(i, to_row (new_object v TicketRelationship
      ([(lit ''from_id'', Js (PStr a)), (lit ''to_id'', Js (PStr b)), (lit ''type'', Js (PStr t)),
        (lit ''created_by'', Js (PStr (sv_actor sv)))] @ stamps instant)))]"
    by (rule row_insert_run)
  then have rows: "relation_rows (rp_tables (ss_db s')) = relation_rows ts @ [to_row (new_object v TicketRelationship
      ([(lit ''from_id'', Js (PStr a)), (lit ''to_id'', Js (PStr b)), (lit ''type'', Js (PStr t)),
        (lit ''created_by'', Js (PStr (sv_actor sv)))] @ stamps instant))]"
    by (simp add: relation_rows_def)
  show "relations_ok (rp_tables (ss_db s'))"
    by (rule relations_ok_insert [OF ok [folded ts_def] guards rows]) (rule new_relation_fields [OF refl])+
qed

lemma remove_relation_ok:
  "yields (\<lambda>s. relations_ok (rp_tables (ss_db s))) (remove_relation sv i) (\<lambda>_ s. relations_ok (rp_tables (ss_db s)))"
  unfolding remove_relation_def
  by (rule yieldsI) (auto simp: ebind_Inr eseq_Inr now_iff get_entity_iff remove_row_run relations_ok_delete)

section \<open>Operations on other tables\<close>

lemma touches_rows [moves_intros]: "moves (touches ns) (lift r)" "moves (touches ns) (on_rows g)"
  unfolding lift_def on_rows_def by (intro moves_intros)+

definition other :: "model \<Rightarrow> pystr set" where
  "other m = - {m_table m}"

lemma other_simps [simp]:
  "m_table Project \<in> other TicketRelationship" "m_table Ticket \<in> other TicketRelationship"
  "m_table Comment \<in> other TicketRelationship" "m_table Milestone \<in> other TicketRelationship"
  "m_table TicketMilestone \<in> other TicketRelationship" "m_table FollowUp \<in> other TicketRelationship"
  "m_table Project \<in> other Ticket" "m_table TicketRelationship \<in> other Ticket"
  "m_table Comment \<in> other Ticket" "m_table Milestone \<in> other Ticket"
  "m_table TicketMilestone \<in> other Ticket" "m_table FollowUp \<in> other Ticket"
  by (simp_all add: other_def Project_def Ticket_def Comment_def Milestone_def TicketMilestone_def FollowUp_def TicketRelationship_def)

lemma yields_other:
  assumes "moves (touches (other m)) p" "\<And>ts ts'. ts' (m_table m) = ts (m_table m) \<Longrightarrow> R ts' = R ts"
  shows "yields (\<lambda>s. R (rp_tables (ss_db s))) p (\<lambda>_ s. R (rp_tables (ss_db s)))"
proof (rule yieldsI)
  fix s x s' assume "R (rp_tables (ss_db s))" "p s = (Inr x, s')"
  then show "R (rp_tables (ss_db s'))" using movesD [OF assms(1)] assms(2) by (metis touches_def other_def ComplD insertI1)
qed

lemma tracker_op_elsewhere:
  assumes "tracker_op sv m"
  shows "(\<exists>a b t. m = ignore (add_relation sv a b t)) \<or> (\<exists>i. m = remove_relation sv i) \<or> moves (touches (other TicketRelationship)) m"
    and "(\<exists>p t d st pr ls a du c stage parent. m = ignore (create_ticket sv p t d st pr ls a du c stage parent)) \<or>
      (\<exists>i ch. dict_ok ch \<and> m = ignore (update_ticket sv i ch)) \<or> (\<exists>i atch. m = ignore (add_attachment sv i atch)) \<or>
      moves (touches (other Ticket)) m"
  using assms
  by (induction rule: tracker_op.induct;
      ((intro disjI2, unfold tracker_op_defs Let_def ignore_def, (intro moves_intros; simp; fail)) | blast))+

lemma runs_keep_tables:
  assumes "tracker_runs sv s t" "rested s" "R (rp_tables (ss_db s))"
    and "\<And>m. tracker_op sv m \<Longrightarrow> yields (\<lambda>s. R (rp_tables (ss_db s))) m (\<lambda>_ s. R (rp_tables (ss_db s)))"
  shows "R (rp_tables (ss_db t))"
proof -
  have "rested t \<and> R (rp_tables (ss_db t))"
    by (rule runs_invariant [OF assms(1,2), where I = "\<lambda>s. R (rp_tables (ss_db s))"])
      (use assms(3,4) in \<open>auto dest: yieldsD\<close>)
  then show ?thesis by simp
qed

lemma tracker_op_relations:
  assumes "tracker_op sv m"
  shows "yields (\<lambda>s. relations_ok (rp_tables (ss_db s))) m (\<lambda>_ s. relations_ok (rp_tables (ss_db s)))"
  using tracker_op_elsewhere(1) [OF assms] yields_ignore [OF add_relation_ok] remove_relation_ok
    yields_other [where R = relations_ok, OF _ relations_ok_cong]
  by blast

section \<open>Parents\<close>

definition parent_links :: "tables \<Rightarrow> (pystr \<times> pystr) set" where
  "parent_links ts = {(i, p). \<exists>r. get_row ts Ticket i = Some r \<and> parent_of r = Some p}"

definition project_of :: "row \<Rightarrow> cell" where
  "project_of r = cell_of r (lit ''project_id'')"

definition parents_ok :: "tables \<Rightarrow> bool" where
  "parents_ok ts \<longleftrightarrow> acyclic (parent_links ts) \<and> (\<forall>i r. get_row ts Ticket i = Some r \<longrightarrow> id_of r = Some i) \<and>
     (\<forall>i r p. get_row ts Ticket i = Some r \<longrightarrow> parent_of r = Some p \<longrightarrow>
        (\<exists>q. get_row ts Ticket p = Some q \<and> project_of q = project_of r))"

lemma parents_ok_cong: "ts' (m_table Ticket) = ts (m_table Ticket) \<Longrightarrow> parents_ok ts' = parents_ok ts"
  by (simp add: parents_ok_def parent_links_def get_row_def)

lemma parents_okD:
  "parents_ok ts \<Longrightarrow> get_row ts Ticket i = Some r \<Longrightarrow> parent_of r = Some p \<Longrightarrow>
     \<exists>q. get_row ts Ticket p = Some q \<and> project_of q = project_of r"
  unfolding parents_ok_def by blast

text \<open>The walk up from a ticket meets no seen ticket when it ends.\<close>

lemma parent_walk_avoids:
  "parent_walk ts seen cur \<Longrightarrow> cur = Some p \<Longrightarrow> (p, x) \<in> (parent_links ts)\<^sup>* \<Longrightarrow> get_row ts Ticket x \<noteq> None \<Longrightarrow> x \<notin> seen"
proof (induction ts seen cur arbitrary: p rule: parent_walk.induct)
  case (2 ts seen i)
  have p: "p = i" using 2(3) by simp
  show ?case
  proof (cases "x = i")
    case True
    with 2(2,5) show ?thesis by (cases "get_row ts Ticket i") (auto split: if_splits)
  next
    case False
    obtain q where q: "(i, q) \<in> parent_links ts" "(q, x) \<in> (parent_links ts)\<^sup>*"
      using 2(4) False unfolding p by (blast elim: converse_rtranclE)
    then obtain r where r: "get_row ts Ticket i = Some r" "parent_of r = Some q" unfolding parent_links_def by blast
    from 2(2) r(1) have w: "i \<notin> seen" "parent_walk ts (insert i seen) (parent_of r)" by (simp_all split: if_splits)
    from 2(1) [OF r(1) w r(2) q(2) 2(5)] show ?thesis by simp
  qed
qed simp

text \<open>Writing one ticket's row.\<close>

lemma parents_ok_put:
  assumes ok: "parents_ok ts" and id: "id_of r = Some i" and proj: "\<And>r0. get_row ts Ticket i = Some r0 \<Longrightarrow> project_of r = project_of r0"
    and par: "\<And>p. parent_of r = Some p \<Longrightarrow> (\<exists>q. get_row ts Ticket p = Some q \<and> project_of q = project_of r) \<and>
      p \<noteq> i \<and> (p, i) \<notin> (parent_links ts)\<^sup>*"
  shows "parents_ok (put_row Ticket i r ts)"
proof -
  let ?old = "{(a, b) \<in> parent_links ts. a \<noteq> i}"
  have links: "parent_links (put_row Ticket i r ts) = (case parent_of r of None \<Rightarrow> ?old | Some p \<Rightarrow> insert (i, p) ?old)"
    by (auto simp: parent_links_def split: option.splits if_splits)
  have old: "acyclic ?old" using ok by (auto simp: parents_ok_def intro: acyclic_subset)
  have "acyclic (parent_links (put_row Ticket i r ts))"
  proof (cases "parent_of r")
    case (Some p)
    have "(p, i) \<notin> ?old\<^sup>*" using par [OF Some] rtrancl_mono [of ?old "parent_links ts"] by auto
    with old Some show ?thesis by (simp add: links acyclic_insert)
  qed (use old links in simp)
  moreover have "\<exists>q. get_row (put_row Ticket i r ts) Ticket p = Some q \<and> project_of q = project_of s"
    if s: "get_row (put_row Ticket i r ts) Ticket j = Some s" "parent_of s = Some p" for j s p
  proof -
    have "\<exists>q. get_row ts Ticket p = Some q \<and> project_of q = project_of s"
      using s par parents_okD [OF ok, of j s p] by (auto split: if_splits)
    then show ?thesis using proj by auto
  qed
  moreover have "id_of s = Some j" if "get_row (put_row Ticket i r ts) Ticket j = Some s" for j s
    using that id ok by (auto simp: parents_ok_def split: if_splits)
  ultimately show ?thesis unfolding parents_ok_def by blast
qed

lemma attr_load: "attr (load r) f = loaded (cell_of r (lit f))"
  by (simp add: attr_def cell_of_def dget_views split: option.splits)

lemma loaded_inject [simp]: "loaded a = loaded b \<longleftrightarrow> a = b"
  by (cases a; cases b) simp_all

lemma validate_parent_Inr:
  assumes "validate_parent ts x project t = Inr u"
  obtains p q where "x = Js (PStr p)" "get_row ts Ticket p = Some q" "loaded (project_of q) = project"
    "case t of None \<Rightarrow> True | Some i \<Rightarrow> p \<noteq> i \<and> parent_walk ts {i} (Some p)"
  using assms
  by (auto simp: validate_parent_def rbind_Inr_iff require_row_def attr_load project_of_def text_value_def
      split: slot.splits pyval.splits option.splits)

text \<open>What validated fields say of the parent, and that they leave the key and the project alone.\<close>

lemma validated_parent:
  assumes "validated_ticket_fields sv ts ch project t = Inr ch'" "dget ch' (lit ''parent_id'') = Some x" "x \<noteq> Js PNone"
  obtains p q where "x = Js (PStr p)" "get_row ts Ticket p = Some q" "loaded (project_of q) = project"
    "case t of None \<Rightarrow> True | Some i \<Rightarrow> p \<noteq> i \<and> parent_walk ts {i} (Some p)"
proof -
  from assms(1) obtain out where "when_given out ''parent_id'' (\<lambda>x. if x = Js PNone then Inr out
      else rbind (validate_parent ts x project t) (\<lambda>_. Inr out)) = Inr ch'"
    by (auto simp: validated_ticket_fields_def rbind_Inr_iff)
  with assms(2,3) have "validate_parent ts x project t = Inr ()"
    by (auto simp: when_given_def rbind_Inr_iff split: option.splits if_splits)
  then show thesis using that by (rule validate_parent_Inr)
qed

lemma parent_of_stored: "dget ob (lit ''parent_id'') = Some x \<Longrightarrow> parent_of (to_row ob) = Some p \<longleftrightarrow> x = Js (PStr p)"
  by (cases x) (auto simp: parent_of_def cell_of_to_row split: pyval.splits)

lemma create_ticket_ok:
  "yields (\<lambda>s. parents_ok (rp_tables (ss_db s))) (create_ticket sv project t d st pr ls a du c stage parent)
     (\<lambda>_ s. parents_ok (rp_tables (ss_db s)))"
proof (rule yieldsI)
  fix s x s' assume ok: "parents_ok (rp_tables (ss_db s))"
    and run: "create_ticket sv project t d st pr ls a du c stage parent s = (Inr x, s')"
  define ts where "ts = rp_tables (ss_db s)"
  define instant where "instant = env_now (sv_env sv (ss_fresh s))"
  define s1 where "s1 = s\<lparr>ss_fresh := Suc (ss_fresh s)\<rparr>"
  have s1_tables: "rp_tables (ss_db s1) = ts" by (simp add: s1_def ts_def)
  from run obtain y where fields: "validated_ticket_fields sv ts [(lit ''title'', Js (PStr t)), (lit ''description'', Js (PStr d)),
      (lit ''status'', Js (PStr st)), (lit ''priority'', Js (PStr pr)),
      (lit ''labels'', Js (PList (map PStr (case ls of None \<Rightarrow> [] | Some ls \<Rightarrow> ls)))),
      (lit ''assignee'', opt_text a), (lit ''due_date'', opt_moment du), (lit ''acceptance_criteria'', Js (PStr c)),
      (lit ''lifecycle_stage'', Js (PStr stage)), (lit ''parent_id'', opt_text parent)] (Js (PStr project)) None = Inr y"
    and create: "create_row sv Ticket ''ticket.create'' (ref_own Ticket) op_patch ([(lit ''project_id'', Js (PStr project)),
      (lit ''created_by'', Js (PStr (sv_actor sv)))] @ stamps instant @ y) instant s1 = (Inr x, s')"
    unfolding create_ticket_def get_project_def ebind_Inr get_entity_iff on_rows_def look_iff lift_iff now_iff
      ts_def s1_def instant_def by auto
  define flds where "flds = [(lit ''project_id'', Js (PStr project)), (lit ''created_by'', Js (PStr (sv_actor sv)))] @ stamps instant @ y"
  from create obtain v where "row_insert Ticket (to_row (new_object v Ticket flds)) ts = Inr (rp_tables (ss_db s'))"
    by (rule create_row_run) (simp add: s1_tables flds_def)
  then obtain i where new: "get_row ts Ticket i = None" "rp_tables (ss_db s') = put_row Ticket i (to_row (new_object v Ticket flds)) ts"
      "id_of (to_row (new_object v Ticket flds)) = Some i"
    by (rule row_insert_run)
  have proj: "project_of (to_row (new_object v Ticket flds)) = Cell (PStr project)"
    unfolding project_of_def cell_of_def dget_views
    by (simp add: new_object_def Ticket_def CollectionBase_def column_def flds_def)
  have par: "dget (new_object v Ticket flds) (lit ''parent_id'') = dget y (lit ''parent_id'')"
  proof -
    have "lit ''parent_id'' \<in> fst ` set y" using ticket_field_keys [OF fields] by (simp add: same_keys_def)
    then obtain z where z: "dget y (lit ''parent_id'') = Some z" by (metis map_of_eq_None_iff not_Some_eq)
    then have "dget flds (lit ''parent_id'') = Some z" by (simp add: flds_def stamps_def)
    with z show ?thesis by (simp add: new_object_def Ticket_def CollectionBase_def column_def)
  qed
  show "parents_ok (rp_tables (ss_db s'))"
    unfolding new(2)
  proof (rule parents_ok_put [OF ok [folded ts_def] new(3)])
    fix r0 assume "get_row ts Ticket i = Some r0"
    with new(1) show "project_of (to_row (new_object v Ticket flds)) = project_of r0" by simp
  next
    fix p assume p: "parent_of (to_row (new_object v Ticket flds)) = Some p"
    obtain z where z: "dget y (lit ''parent_id'') = Some z"
      using p par by (cases "dget y (lit ''parent_id'')") (auto simp: parent_of_def cell_of_def dget_views)
    with p par have "z = Js (PStr p)" using parent_of_stored by simp
    with validated_parent [OF fields z] obtain q where q: "get_row ts Ticket p = Some q" "loaded (project_of q) = Js (PStr project)"
      by auto
    then have "project_of q = Cell (PStr project)" by (cases "project_of q") simp_all
    moreover have "p \<noteq> i" using q(1) new(1) by auto
    moreover have "(p, i) \<notin> (parent_links ts)\<^sup>*"
    proof
      assume "(p, i) \<in> (parent_links ts)\<^sup>*"
      with \<open>p \<noteq> i\<close> obtain j where "(j, i) \<in> parent_links ts" by (metis rtranclE)
      then show False using parents_okD [OF ok [folded ts_def], of j _ i] new(1) unfolding parent_links_def by auto
    qed
    ultimately show "(\<exists>q. get_row ts Ticket p = Some q \<and> project_of q = project_of (to_row (new_object v Ticket flds))) \<and>
        p \<noteq> i \<and> (p, i) \<notin> (parent_links ts)\<^sup>*"
      using q(1) proj by simp
  qed
qed

lemma dget_dupdate_dict: "dict_ok e \<Longrightarrow> dget (dupdate d e) f = (case dget e f of None \<Rightarrow> dget d f | Some x \<Rightarrow> Some x)"
  by (simp add: dget_dupdate map_add_def)

text \<open>A patch of a ticket whose changes, if they name a parent, name a valid one.\<close>

lemma patch_ticket_ok:
  assumes ok: "parents_ok (rp_tables (ss_db s))" and row: "get_row (rp_tables (ss_db s)) Ticket i = Some r"
    and run: "apply_patch sv Ticket (load r) ch action s = (Inr x, s')"
    and ch: "dict_ok ch" "lit ''id'' \<notin> fst ` set ch" "lit ''project_id'' \<notin> fst ` set ch"
    and par: "\<And>y p. dget ch (lit ''parent_id'') = Some y \<Longrightarrow> y = Js (PStr p) \<Longrightarrow>
      (\<exists>q. get_row (rp_tables (ss_db s)) Ticket p = Some q \<and> project_of q = project_of r) \<and>
      p \<noteq> i \<and> parent_walk (rp_tables (ss_db s)) {i} (Some p)"
  shows "parents_ok (rp_tables (ss_db s'))"
proof -
  define ts where "ts = rp_tables (ss_db s)"
  obtain now where upd: "row_update Ticket (object_id (dset (lit ''updated_at'') (At (Naive now)) (dupdate (load r) ch)))
      (to_row (dset (lit ''updated_at'') (At (Naive now)) (dupdate (load r) ch))) ts = Inr (rp_tables (ss_db s'))"
    using run unfolding ts_def by (rule apply_patch_run)
  define nob where "nob = dset (lit ''updated_at'') (At (Naive now)) (dupdate (load r) ch)"
  have get: "dget nob f = (case dget ch f of None \<Rightarrow> map_option loaded (dget r f) | Some x \<Rightarrow> Some x)"
    if "f \<noteq> lit ''updated_at''" for f
    using that by (simp add: nob_def dget_dupdate_dict [OF ch(1)] dget_views split: option.splits)
  have kept: "cell_of (to_row nob) f = cell_of r f" if "f \<noteq> lit ''updated_at''" "dget ch f = None" for f
    using get [OF that(1)] that(2) by (simp add: cell_of_def dget_views option.map_comp comp_def option.map_ident)
  have id: "id_of (to_row nob) = Some i" "object_id nob = i" "project_of (to_row nob) = project_of r"
  proof -
    have "id_of r = Some i" using ok row by (simp add: parents_ok_def)
    then show a: "id_of (to_row nob) = Some i" using ch(2) by (simp add: id_of_def kept map_of_eq_None_iff)
    then show "object_id nob = i" by (rule object_id_id_of)
    show "project_of (to_row nob) = project_of r" using ch(3) by (simp add: project_of_def kept map_of_eq_None_iff)
  qed
  from upd have put: "rp_tables (ss_db s') = put_row Ticket i (to_row nob) ts"
    unfolding nob_def [symmetric] id(2) using id(1) by (auto simp: row_update_def rbind_Inr_iff)
  show ?thesis
    unfolding put
  proof (rule parents_ok_put [OF ok [folded ts_def] id(1)])
    fix r0 assume "get_row ts Ticket i = Some r0"
    with row id(3) show "project_of (to_row nob) = project_of r0" by (simp add: ts_def)
  next
    fix p assume p: "parent_of (to_row nob) = Some p"
    show "(\<exists>q. get_row ts Ticket p = Some q \<and> project_of q = project_of (to_row nob)) \<and> p \<noteq> i \<and> (p, i) \<notin> (parent_links ts)\<^sup>*"
    proof (cases "dget ch (lit ''parent_id'')")
      case None
      with p kept have "parent_of r = Some p" by (simp add: parent_of_def)
      with row have link: "(i, p) \<in> parent_links ts" by (simp add: parent_links_def ts_def)
      have acyc: "acyclic (parent_links ts)" using ok by (simp add: parents_ok_def ts_def)
      have "\<not> (p = i \<or> (p, i) \<in> (parent_links ts)\<^sup>*)"
        using acyc link unfolding acyclic_def by (metis rtrancl_into_trancl2 r_into_trancl')
      moreover have "\<exists>q. get_row ts Ticket p = Some q \<and> project_of q = project_of r"
        using parents_okD [OF ok row \<open>parent_of r = Some p\<close>] by (simp add: ts_def)
      ultimately show ?thesis using id(3) by simp
    next
      case (Some y)
      then have "dget nob (lit ''parent_id'') = Some y" by (simp add: get)
      with p have y: "y = Js (PStr p)" using parent_of_stored by simp
      note valid = par [OF Some y]
      then have "(p, i) \<notin> (parent_links ts)\<^sup>*"
        using parent_walk_avoids [of ts "{i}" "Some p" p i] row by (auto simp: ts_def)
      with valid id(3) show ?thesis by (simp add: ts_def)
    qed
  qed
qed

lemma update_ticket_ok:
  assumes "dict_ok ch"
  shows "yields (\<lambda>s. parents_ok (rp_tables (ss_db s))) (update_ticket sv i ch) (\<lambda>_ s. parents_ok (rp_tables (ss_db s)))"
proof (rule yieldsI)
  fix s x s' assume ok: "parents_ok (rp_tables (ss_db s))" and run: "update_ticket sv i ch s = (Inr x, s')"
  from run obtain r y where row: "get_row (rp_tables (ss_db s)) Ticket i = Some r"
      and known: "known_fields TICKET_PATCHABLE ch = Inr ()"
      and fields: "validated_ticket_fields sv (rp_tables (ss_db s)) ch (attr (load r) ''project_id'') (Some i) = Inr y"
      and patch: "apply_patch sv Ticket (load r) y ''ticket.update'' s = (Inr x, s')"
    unfolding update_ticket_def get_ticket_def on_rows_def
    by (auto simp: ebind_Inr get_entity_iff rbind_Inr_iff)
  have keys: "dict_ok y" "fst ` set y \<subseteq> set TICKET_PATCHABLE"
    using ticket_field_keys [OF fields] known_keys [OF known] assms by (auto simp: same_keys_def)
  show "parents_ok (rp_tables (ss_db s'))"
  proof (rule patch_ticket_ok [OF ok row patch keys(1)])
    show "lit ''id'' \<notin> fst ` set y" using keys(2) patchable_ids(2) by blast
    have "lit ''project_id'' \<notin> set TICKET_PATCHABLE" by code_simp
    with keys(2) show "lit ''project_id'' \<notin> fst ` set y" by blast
  next
    fix z p assume z: "dget y (lit ''parent_id'') = Some z" "z = Js (PStr p)"
    from validated_parent [OF fields z(1)] z(2) obtain q where
      "get_row (rp_tables (ss_db s)) Ticket p = Some q" "loaded (project_of q) = attr (load r) ''project_id''"
      "p \<noteq> i \<and> parent_walk (rp_tables (ss_db s)) {i} (Some p)"
      by auto
    then show "(\<exists>q. get_row (rp_tables (ss_db s)) Ticket p = Some q \<and> project_of q = project_of r) \<and>
      p \<noteq> i \<and> parent_walk (rp_tables (ss_db s)) {i} (Some p)"
      by (simp add: attr_load project_of_def)
  qed
qed

lemma add_attachment_ok:
  "yields (\<lambda>s. parents_ok (rp_tables (ss_db s))) (add_attachment sv i atch) (\<lambda>_ s. parents_ok (rp_tables (ss_db s)))"
proof (rule yieldsI)
  fix s x s' assume ok: "parents_ok (rp_tables (ss_db s))" and run: "add_attachment sv i atch s = (Inr x, s')"
  from run obtain r where row: "get_row (rp_tables (ss_db s)) Ticket i = Some r"
      and how: "s' = s \<or> apply_patch sv Ticket (load r)
        [(lit ''attachments'', Js (PList (attachments_of (load r) @ [attachment_json atch])))] ''ticket.attach'' s = (Inr x, s')"
    unfolding add_attachment_def get_ticket_def
    by (auto simp: ebind_Inr get_entity_iff split: if_splits)
  from how show "parents_ok (rp_tables (ss_db s'))"
  proof
    assume "s' = s"
    with ok show ?thesis by simp
  next
    assume "apply_patch sv Ticket (load r)
      [(lit ''attachments'', Js (PList (attachments_of (load r) @ [attachment_json atch])))] ''ticket.attach'' s = (Inr x, s')"
    from patch_ticket_ok [OF ok row this] show ?thesis by (simp add: dict_ok_def)
  qed
qed

lemma tracker_op_parents:
  assumes "tracker_op sv m"
  shows "yields (\<lambda>s. parents_ok (rp_tables (ss_db s))) m (\<lambda>_ s. parents_ok (rp_tables (ss_db s)))"
  using tracker_op_elsewhere(2) [OF assms] yields_ignore [OF create_ticket_ok] yields_ignore [OF update_ticket_ok]
    yields_ignore [OF add_attachment_ok] yields_other [where R = parents_ok, OF _ parents_ok_cong]
  by blast

end
