(* ===== verification/Proposals.thy ===== *)
theory Proposals
  imports Structure
begin

text \<open>
  Deciding an agent's proposal (\<open>core/proposals.py\<close>): approve applies its diff through the tracker,
  reject does not.  The status flip is a conditional update that only a pending row passes.  A
  diff is a JSON value; \<open>fi\<close> stands for \<open>datetime.fromisoformat\<close>.  The telemetry record of a
  decision goes to a local table of its own and is left out.
\<close>

section \<open>Errors\<close>

datatype proposal_error =
    ProposalNotFoundError pystr
  | ProposalConflictError
  | ProposalChangesError
  | AttributeError
  | AssertionError
  | Unhandled service_error

type_synonym 'a psvc = "(session, proposal_error, 'a) eff"

definition uncaught :: "'a svc \<Rightarrow> 'a psvc" where
  "uncaught m s = (case m s of (Inl e, t) \<Rightarrow> (Inl (Unhandled e), t) | (Inr x, t) \<Rightarrow> (Inr x, t))"

definition reject_with :: "proposal_error \<Rightarrow> 'a psvc" where
  "reject_with e = eseq (uncaught rollback) (eraise e)"

text \<open>The except clauses around the apply.\<close>

definition applying :: "pystr \<Rightarrow> 'a psvc \<Rightarrow> 'a psvc" where
  "applying ticket m = ecatch m (\<lambda>e. case e of
     Unhandled (NotFoundError _ _) \<Rightarrow> reject_with (ProposalNotFoundError ticket)
   | Unhandled ValidationError \<Rightarrow> reject_with ProposalChangesError
   | ProposalChangesError \<Rightarrow> reject_with ProposalChangesError
   | _ \<Rightarrow> eraise e)"

section \<open>Diffs\<close>

definition item :: "pyval \<Rightarrow> string \<Rightarrow> pyval option" where
  "item d k = (case d of PDict kvs \<Rightarrow> map_of kvs (PStr (lit k)) | _ \<Rightarrow> None)"

definition dict_item :: "pyval \<Rightarrow> string \<Rightarrow> pyval option" where
  "dict_item d k = (case item d k of Some (PDict kvs) \<Rightarrow> Some (PDict kvs) | _ \<Rightarrow> None)"

text \<open>The entries of a JSON object; its keys are strings.\<close>

definition str_items :: "(pyval \<times> pyval) list \<Rightarrow> object" where
  "str_items kvs = List.map_filter (\<lambda>(k, v). case k of PStr s \<Rightarrow> Some (s, Js v) | _ \<Rightarrow> None) kvs"

definition diff_of :: "object \<Rightarrow> pyval" where
  "diff_of pob = (case attr pob ''diff'' of Js v \<Rightarrow> if truthy v then v else PDict [] | _ \<Rightarrow> PDict [])"

definition KIND_TICKET_UPDATE :: pyval where "KIND_TICKET_UPDATE = PStr (lit ''ticket.update'')"
definition FOLLOW_UP_KINDS :: "pyval list" where
  "FOLLOW_UP_KINDS = map (PStr \<circ> lit) [''follow_up.create'', ''follow_up.update'', ''follow_up.complete'']"

definition kind_of :: "pyval \<Rightarrow> proposal_error + pyval" where
  "kind_of d = (case d of PDict _ \<Rightarrow> Inr (case item d ''kind'' of None \<Rightarrow> KIND_TICKET_UPDATE | Some k \<Rightarrow> k)
     | _ \<Rightarrow> Inl AttributeError)"

definition parse_moment :: "(pystr \<Rightarrow> moment option) \<Rightarrow> pystr \<Rightarrow> proposal_error + moment" where
  "parse_moment fi s = (case fi s of None \<Rightarrow> Inl ProposalChangesError | Some m \<Rightarrow> Inr m)"

definition changes_of :: "pyval \<Rightarrow> proposal_error + object" where
  "changes_of d = (case item d ''changes'' of Some (PDict (kv # kvs)) \<Rightarrow> Inr (str_items (kv # kvs)) | _ \<Rightarrow> Inl ProposalChangesError)"

definition coerce_changes :: "(pystr \<Rightarrow> moment option) \<Rightarrow> pyval \<Rightarrow> proposal_error + object" where
  "coerce_changes fi d =
     rbind (changes_of d) (\<lambda>ch.
     case dget ch (lit ''due_date'') of
       Some (Js (PStr s)) \<Rightarrow> rbind (parse_moment fi s) (\<lambda>m. Inr (dset (lit ''due_date'') (At m) ch))
     | _ \<Rightarrow> Inr ch)"

text \<open>\<open>_opt_datetime\<close>\<close>

definition opt_datetime :: "(pystr \<Rightarrow> moment option) \<Rightarrow> pyval option \<Rightarrow> proposal_error + moment option" where
  "opt_datetime fi v = (case v of Some (PStr s) \<Rightarrow> rbind (parse_moment fi s) (\<lambda>m. Inr (Some m)) | _ \<Rightarrow> Inr None)"

definition str_item :: "service \<Rightarrow> pyval \<Rightarrow> string \<Rightarrow> string \<Rightarrow> pystr" where
  "str_item sv d k dflt = (case item d k of None \<Rightarrow> lit dflt | Some v \<Rightarrow> str_of sv (Js v))"

section \<open>Decisions\<close>

definition proposal_ticket :: "object \<Rightarrow> pystr" where
  "proposal_ticket pob = text_value (attr pob ''ticket_id'')"

definition get_pending :: "pystr \<Rightarrow> object psvc" where
  "get_pending i =
     ebind (uncaught (look rp_tables)) (\<lambda>ts.
     case get_row ts AgentProposal i of
       None \<Rightarrow> eraise (ProposalNotFoundError i)
     | Some r \<Rightarrow> if cell_of r (lit ''status'') = Cell (PStr (lit ''pending'')) then eret (load r)
                 else eraise ProposalConflictError)"

definition apply_follow_up :: "service \<Rightarrow> (pystr \<Rightarrow> moment option) \<Rightarrow> object \<Rightarrow> object psvc" where
  "apply_follow_up sv fi pob =
     (let d = diff_of pob; kind = item d ''kind''; i = str_item sv d ''follow_up_id'' '''' in
      if kind = Some (PStr (lit ''follow_up.create'')) then
        (case dict_item d ''follow_up'' of
           None \<Rightarrow> eraise ProposalChangesError
         | Some p \<Rightarrow>
             ebind (elift id (opt_datetime fi (item p ''due_at''))) (\<lambda>due.
             uncaught (create_follow_up sv (proposal_ticket pob) (str_item sv p ''title'' '''') (str_item sv p ''body'' '''')
               due (case item p ''provenance'' of None \<Rightarrow> PNone | Some x \<Rightarrow> x))))
      else if i = [] then eraise ProposalChangesError
      else if kind = Some (PStr (lit ''follow_up.update'')) then
        ebind (elift id (changes_of d)) (\<lambda>ch.
        ebind (case dget ch (lit ''due_at'') of
                 None \<Rightarrow> eret ch
               | Some x \<Rightarrow> ebind (elift id (opt_datetime fi (case x of Js v \<Rightarrow> Some v | _ \<Rightarrow> None)))
                             (\<lambda>due. eret (dset (lit ''due_at'') (opt_moment due) ch))) (\<lambda>ch.
        uncaught (update_follow_up sv i ch)))
      else if kind = Some (PStr (lit ''follow_up.complete'')) then
        uncaught (complete_follow_up sv i (str_item sv d ''status'' ''done''))
      else eraise ProposalChangesError)"

text \<open>The service the decision writes through: its own event sink, the clock stopped at \<open>ts\<close>.\<close>

definition deciding :: "service \<Rightarrow> event_signer option \<Rightarrow> int \<Rightarrow> service" where
  "deciding sv signer ts =
     sv\<lparr>sv_sink := Some \<lparr>sink_actor = sv_actor sv, sink_signer = signer\<rparr>, sv_env := (\<lambda>n. (sv_env sv n)\<lparr>env_now := ts\<rparr>)\<rparr>"

definition decided :: "pystr \<Rightarrow> int \<Rightarrow> row \<Rightarrow> row" where
  "decided status ts r = dset (lit ''updated_at'') (Time ts) (dset (lit ''status'') (Cell (PStr status)) r)"

definition with_reason :: "pystr \<Rightarrow> payload \<Rightarrow> payload" where
  "with_reason reason after = (if reason = [] then after else dset (lit ''reason'') (PStr reason) after)"

definition decision_action :: "pystr \<Rightarrow> string" where
  "decision_action status = (if status = lit ''approved'' then ''proposal.approve'' else ''proposal.reject'')"

text \<open>\<open>_flip_status\<close>: the compare-and-swap, its audit row and its event.\<close>

definition flip_status :: "service \<Rightarrow> object \<Rightarrow> pystr \<Rightarrow> int \<Rightarrow> pystr \<Rightarrow> object psvc" where
  "flip_status sv pob status ts reason =
     (let i = object_id pob; before = snapshot sv pob in
      ebind (uncaught (look rp_tables)) (\<lambda>tabs.
      case get_row tabs AgentProposal i of
        None \<Rightarrow> reject_with ProposalConflictError
      | Some r \<Rightarrow>
          if cell_of r (lit ''status'') \<noteq> Cell (PStr (lit ''pending'')) then reject_with ProposalConflictError
          else
            let ob = load (decided status ts r); after = snapshot sv ob in
            eseq (uncaught (on_tables (row_update AgentProposal i (to_row ob))))
            (eseq (uncaught (write_audit sv (decision_action status) (ref_to (m_table AgentProposal) i) (Some before)
                     (Some (with_reason reason after)) ts))
            (eseq (uncaught (emit_event sv (m_table AgentProposal) i op_patch after))
            (eret ob)))))"

definition refresh :: "model \<Rightarrow> pystr \<Rightarrow> object psvc" where
  "refresh m i = eget (\<lambda>s. case get_row (rp_tables (ss_db s)) m i of None \<Rightarrow> [] | Some r \<Rightarrow> load r)"

definition tag_origin :: "pystr \<Rightarrow> int \<Rightarrow> pystr \<Rightarrow> unit psvc" where
  "tag_origin a n i = uncaught (mod_db (\<lambda>d. d\<lparr>rp_log := mark_proposal_origin a n i (rp_log d)\<rparr>))"

text \<open>Approval: claim the proposal, then apply its diff and tag the ticket write.\<close>

definition claim_proposal ::
    "service \<Rightarrow> (pystr \<Rightarrow> moment option) \<Rightarrow> event_signer option \<Rightarrow> pystr \<Rightarrow>
     (service \<times> pyval \<times> object option \<times> pystr \<times> object) psvc" where
  "claim_proposal sv fi signer i =
     ebind (uncaught (now sv)) (\<lambda>ts.
     ebind (get_pending i) (\<lambda>pob.
     ebind (elift id (kind_of (diff_of pob))) (\<lambda>kind.
     ebind (elift id (if kind = KIND_TICKET_UPDATE then rbind (coerce_changes fi (diff_of pob)) (\<lambda>ch. Inr (Some ch))
                      else Inr None)) (\<lambda>changes.
     ebind (flip_status (deciding sv signer ts) pob (lit ''approved'') ts []) (\<lambda>pob'.
     eret (deciding sv signer ts, kind, changes, proposal_ticket pob, pob'))))))"

definition apply_approved ::
    "service \<Rightarrow> (pystr \<Rightarrow> moment option) \<Rightarrow> pystr \<Rightarrow> pyval \<Rightarrow> object option \<Rightarrow> pystr \<Rightarrow> object \<Rightarrow> (object \<times> object) psvc" where
  "apply_approved sv fi i kind changes ticket pob =
     (if kind \<in> set FOLLOW_UP_KINDS then
       ebind (applying ticket (ebind (apply_follow_up sv fi pob) (\<lambda>_. uncaught (get_ticket ticket)))) (\<lambda>tob.
       ebind (refresh AgentProposal i) (\<lambda>pob. eret (pob, tob)))
     else
       (case changes of
          None \<Rightarrow> eraise AssertionError
        | Some ch \<Rightarrow>
            ebind (uncaught (look (\<lambda>d. next_actor_seq (rp_log d) (sv_actor sv)))) (\<lambda>patch_seq.
            ebind (applying ticket (uncaught (update_ticket sv ticket ch))) (\<lambda>tob.
            eseq (tag_origin (sv_actor sv) patch_seq i)
            (ebind (refresh AgentProposal i) (\<lambda>pob. eret (pob, tob)))))))"

definition approve_proposal ::
    "service \<Rightarrow> (pystr \<Rightarrow> moment option) \<Rightarrow> event_signer option \<Rightarrow> pystr \<Rightarrow> (object \<times> object) psvc" where
  "approve_proposal sv fi signer i =
     ebind (claim_proposal sv fi signer i) (\<lambda>(sv', kind, changes, ticket, pob).
     apply_approved sv' fi i kind changes ticket pob)"

definition reject_proposal :: "service \<Rightarrow> event_signer option \<Rightarrow> pystr \<Rightarrow> pystr \<Rightarrow> object psvc" where
  "reject_proposal sv signer i reason =
     ebind (uncaught (now sv)) (\<lambda>ts.
     ebind (get_pending i) (\<lambda>pob.
     ebind (flip_status (deciding sv signer ts) pob (lit ''rejected'') ts reason) (\<lambda>_.
     eseq (uncaught commit) (refresh AgentProposal i))))"

section \<open>Runs\<close>

lemma uncaught_Inr [simp]: "uncaught m s = (Inr x, t) \<longleftrightarrow> m s = (Inr x, t)"
  by (auto simp: uncaught_def split: prod.splits sum.splits)

lemma uncaught_Inl: "uncaught m s = (Inl e, t) \<longleftrightarrow> (\<exists>x. e = Unhandled x \<and> m s = (Inl x, t))"
  by (auto simp: uncaught_def split: prod.splits sum.splits)

lemma look_Inl [simp]: "look f s \<noteq> (Inl e, t)"
  by (simp add: look_def)

lemma reject_with_run [simp]: "reject_with e s = (Inl e, s\<lparr>ss_db := ss_stored s\<rparr>)"
  by (simp add: reject_with_def eseq_def ebind_def uncaught_def rollback_def emod_def eraise_def)

lemma applying_Inr [simp]: "applying tk m s = (Inr x, t) \<longleftrightarrow> m s = (Inr x, t)"
  by (auto simp: applying_def ecatch_def eraise_def split: prod.splits sum.splits proposal_error.splits service_error.splits)

lemma get_pending_Inr:
  "get_pending i s = (Inr ob, t) \<longleftrightarrow> t = s \<and> (\<exists>r. get_row (rp_tables (ss_db s)) AgentProposal i = Some r \<and> ob = load r \<and>
     cell_of r (lit ''status'') = Cell (PStr (lit ''pending'')))"
  by (auto simp: get_pending_def ebind_Inr split: option.splits if_splits)

lemma refresh_Inr: "refresh m i s = (Inr ob, t) \<longleftrightarrow> t = s \<and> ob = (case get_row (rp_tables (ss_db s)) m i of None \<Rightarrow> [] | Some r \<Rightarrow> load r)"
  by (auto simp: refresh_def)

lemma emit_event_log:
  assumes "emit_event sv c i opn pl s = (Inr u, s')" "sv_sink sv = Some k"
  obtains r where "rp_log (ss_db s') = rp_log (ss_db s) @ [r]" "origin_proposal_id r = None" "actor_id r = sink_actor k"
    "actor_seq r = next_actor_seq (rp_log (ss_db s)) (sink_actor k)" "collection r = c" "entity_id r = i"
    "rp_tables (ss_db s') = rp_tables (ss_db s)"
proof -
  from assms obtain l' where em: "emit (sv_ed sv) (env_id (sv_env sv (ss_fresh s))) k \<lparr>de_collection = c, de_entity_id = i,
      de_op = opn, de_payload = pl, de_base_rev = None, de_committed_rev = None\<rparr> (rp_log (ss_db s)) = Inr l'"
    "s' = s\<lparr>ss_db := (ss_db s)\<lparr>rp_log := l'\<rparr>, ss_fresh := Suc (ss_fresh s)\<rparr>"
    by (rule emit_event_run)
  from em(1) obtain ev where ev: "emit_signed (sv_ed sv) k (emit_envelope (env_id (sv_env sv (ss_fresh s))) k
      \<lparr>de_collection = c, de_entity_id = i, de_op = opn, de_payload = pl, de_base_rev = None, de_committed_rev = None\<rparr>
      (rp_log (ss_db s))) = Inr ev" "l' = rp_log (ss_db s) @ [make_row ev None None]"
    by (rule emit_row)
  show thesis
    by (rule that [of "make_row ev None None"]) (use emit_signed_envelope [OF ev(1)] ev(2) em(2) in simp_all)
qed

text \<open>What a flip needs and what it leaves: one pending row decided, one event, nothing committed.\<close>

lemma flip_status_run:
  assumes "flip_status sv pob status ts reason s = (Inr ob, t)" "sv_sink sv = Some k"
  obtains r where "get_row (rp_tables (ss_db s)) AgentProposal (object_id pob) = Some r"
    "cell_of r (lit ''status'') = Cell (PStr (lit ''pending''))" "ob = load (decided status ts r)"
    "row_update AgentProposal (object_id pob) (decided status ts r) (rp_tables (ss_db s)) = Inr (rp_tables (ss_db t))"
    "ss_stored t = ss_stored s"
    "\<exists>e. rp_log (ss_db t) = rp_log (ss_db s) @ [e] \<and> origin_proposal_id e = None \<and> collection e = m_table AgentProposal \<and>
      actor_id e = sink_actor k"
proof -
  from assms(1) obtain r where r: "get_row (rp_tables (ss_db s)) AgentProposal (object_id pob) = Some r"
      "cell_of r (lit ''status'') = Cell (PStr (lit ''pending''))"
    by (auto simp: flip_status_def Let_def ebind_Inr split: option.splits if_splits)
  have "ob = load (decided status ts r) \<and> (\<exists>ts' s1.
      row_update AgentProposal (object_id pob) (decided status ts r) (rp_tables (ss_db s)) = Inr ts' \<and>
      write_audit sv (decision_action status) (ref_to (m_table AgentProposal) (object_id pob)) (Some (snapshot sv pob))
          (Some (with_reason reason (snapshot sv (load (decided status ts r))))) ts
          (s\<lparr>ss_db := (ss_db s)\<lparr>rp_tables := ts'\<rparr>\<rparr>) = (Inr (), s1) \<and>
      emit_event sv (m_table AgentProposal) (object_id pob) op_patch (snapshot sv (load (decided status ts r))) s1 = (Inr (), t))"
    using assms(1) r unfolding flip_status_def Let_def ebind_Inr by (auto simp: eseq_Inr on_tables_Inr)
  then obtain ts' s1 where ob: "ob = load (decided status ts r)"
      and upd: "row_update AgentProposal (object_id pob) (decided status ts r) (rp_tables (ss_db s)) = Inr ts'"
      and s1: "write_audit sv (decision_action status) (ref_to (m_table AgentProposal) (object_id pob)) (Some (snapshot sv pob))
          (Some (with_reason reason (snapshot sv (load (decided status ts r))))) ts
          (s\<lparr>ss_db := (ss_db s)\<lparr>rp_tables := ts'\<rparr>\<rparr>) = (Inr (), s1)"
      and s2: "emit_event sv (m_table AgentProposal) (object_id pob) op_patch (snapshot sv (load (decided status ts r))) s1 = (Inr (), t)"
    by (elim exE conjE)
  from s1 obtain tr where "s1 = s\<lparr>ss_db := (ss_db s)\<lparr>rp_tables := ts', rp_trail := tr\<rparr>, ss_fresh := Suc (ss_fresh s)\<rparr>"
    by (rule write_audit_run) simp
  moreover from s2 assms(2) obtain e where "rp_log (ss_db t) = rp_log (ss_db s1) @ [e]" "origin_proposal_id e = None"
      "collection e = m_table AgentProposal" "actor_id e = sink_actor k" "rp_tables (ss_db t) = rp_tables (ss_db s1)"
    by (rule emit_event_log) blast
  moreover have "ss_stored t = ss_stored s1" using s2 assms(2) by (auto elim: emit_event_run)
  ultimately show thesis by (intro that [of r] r ob) (use upd in auto)
qed

lemma update_ticket_run:
  assumes "update_ticket sv i ch s = (Inr ob, t)" "sv_sink sv = Some k"
  obtains r where "rp_log (ss_db t) = rp_log (ss_db s) @ [r]" "origin_proposal_id r = None" "actor_id r = sink_actor k"
    "actor_seq r = next_actor_seq (rp_log (ss_db s)) (sink_actor k)" "collection r = m_table Ticket"
    "ss_stored t = ss_db t" "rp_tables (ss_db t) (m_table AgentProposal) = rp_tables (ss_db s) (m_table AgentProposal)"
proof -
  from assms(1) obtain r y where patch: "apply_patch sv Ticket (load r) y ''ticket.update'' s = (Inr ob, t)"
    unfolding update_ticket_def get_ticket_def on_rows_def
    by (auto simp: ebind_Inr get_entity_iff)
  have tables: "rp_tables (ss_db t) (m_table AgentProposal) = rp_tables (ss_db s) (m_table AgentProposal)"
    using movesD [OF touches_writes(4) [of Ticket "{m_table Ticket}"] patch]
    by (simp add: touches_def AgentProposal_def Ticket_def)
  define nob where "nob = dset (lit ''updated_at'') (At (Naive (env_now (sv_env sv (ss_fresh s))))) (dupdate (load r) y)"
  from patch obtain s1 s2 s3 where s1: "flush_set Ticket nob (s\<lparr>ss_fresh := Suc (ss_fresh s)\<rparr>) = (Inr (), s1)"
    and s2: "write_audit sv ''ticket.update'' (ref_to (m_table Ticket) (object_id nob)) (Some (snapshot sv (load r)))
        (Some (snapshot sv nob)) (env_now (sv_env sv (ss_fresh s))) s1 = (Inr (), s2)"
    and s3: "emit_event sv (m_table Ticket) (object_id nob) op_patch (patch_payload (snapshot sv nob) y) s2 = (Inr (), s3)"
    and t: "t = s3\<lparr>ss_stored := ss_db s3\<rparr>"
    unfolding apply_patch_def Let_def ebind_Inr now_iff nob_def by (auto simp: eseq_Inr)
  have l1: "rp_log (ss_db s1) = rp_log (ss_db s)" using s1 by (auto simp: flush_set_def on_tables_Inr)
  have l2: "rp_log (ss_db s2) = rp_log (ss_db s1)" using s2 by (auto elim: write_audit_run)
  from s3 assms(2) obtain e where e: "rp_log (ss_db s3) = rp_log (ss_db s2) @ [e]" "origin_proposal_id e = None"
      "actor_id e = sink_actor k" "actor_seq e = next_actor_seq (rp_log (ss_db s2)) (sink_actor k)" "collection e = m_table Ticket"
    by (rule emit_event_log) blast
  show thesis by (rule that [of e]) (use e l1 l2 t tables in simp_all)
qed

section \<open>Approving a change to a ticket\<close>

lemma deciding_simps [simp]:
  "sv_actor (deciding sv signer ts) = sv_actor sv"
  "sv_sink (deciding sv signer ts) = Some \<lparr>sink_actor = sv_actor sv, sink_signer = signer\<rparr>"
  by (simp_all add: deciding_def)

lemma approve_ticket_run:
  assumes run: "approve_proposal sv fi signer i s = (Inr x, t)"
    and row: "get_row (rp_tables (ss_db s)) AgentProposal i = Some r"
    and kind: "kind_of (diff_of (load r)) = Inr KIND_TICKET_UPDATE"
  defines "s0 \<equiv> s\<lparr>ss_fresh := Suc (ss_fresh s)\<rparr>" and "ts \<equiv> env_now (sv_env sv (ss_fresh s))"
  obtains ch ob u tob v where "coerce_changes fi (diff_of (load r)) = Inr ch"
    "flip_status (deciding sv signer ts) (load r) (lit ''approved'') ts [] s0 = (Inr ob, u)"
    "update_ticket (deciding sv signer ts) (proposal_ticket (load r)) ch u = (Inr tob, v)"
    "t = v\<lparr>ss_db := (ss_db v)\<lparr>rp_log := mark_proposal_origin (sv_actor sv)
      (next_actor_seq (rp_log (ss_db u)) (sv_actor sv)) i (rp_log (ss_db v))\<rparr>\<rparr>"
proof -
  have nf: "KIND_TICKET_UPDATE \<notin> set FOLLOW_UP_KINDS" by (simp add: KIND_TICKET_UPDATE_def FOLLOW_UP_KINDS_def)
  have "\<exists>ch ob u tob v. coerce_changes fi (diff_of (load r)) = Inr ch \<and>
    flip_status (deciding sv signer ts) (load r) (lit ''approved'') ts [] s0 = (Inr ob, u) \<and>
    update_ticket (deciding sv signer ts) (proposal_ticket (load r)) ch u = (Inr tob, v) \<and>
    t = v\<lparr>ss_db := (ss_db v)\<lparr>rp_log := mark_proposal_origin (sv_actor sv)
      (next_actor_seq (rp_log (ss_db u)) (sv_actor sv)) i (rp_log (ss_db v))\<rparr>\<rparr>"
    using run unfolding approve_proposal_def claim_proposal_def apply_approved_def s0_def ts_def
    by (auto simp: ebind_Inr now_iff get_pending_Inr Let_def row kind nf rbind_Inr_iff eseq_Inr tag_origin_def refresh_Inr)
  then show thesis by (elim exE conjE) (rule that)
qed

lemma find_append: "List.find P (xs @ ys) = (case List.find P xs of None \<Rightarrow> List.find P ys | Some x \<Rightarrow> Some x)"
  by (induction xs) auto

text \<open>Tagging the row just appended under the actor's next sequence number.\<close>

lemma mark_appended:
  assumes "actor_id e = a" "actor_seq e = next_actor_seq l a"
  shows "e\<lparr>origin_proposal_id := Some i\<rparr> \<in> set (mark_proposal_origin a (next_actor_seq l a) i (l @ [e]))"
proof -
  have "event_row (l @ [e]) a (next_actor_seq l a) = Some e"
  proof -
    have "List.find (\<lambda>r. actor_id r = a \<and> actor_seq r = next_actor_seq l a) l = None"
      using next_actor_seq_greater [of _ l a] by (fastforce simp: find_None_iff)
    then show ?thesis using assms by (simp add: event_row_def find_append)
  qed
  then show ?thesis by (simp add: mark_proposal_origin_def update_row_def)
qed

text \<open>The tag is written after the commit: a session that ends there never stores it.\<close>

lemma approval_tag:
  assumes run: "approve_proposal sv fi signer i s = (Inr x, t)" and rest: "rested s"
    and row: "get_row (rp_tables (ss_db s)) AgentProposal i = Some r" "id_of r = Some i"
    and kind: "kind_of (diff_of (load r)) = Inr KIND_TICKET_UPDATE"
    and new: "\<forall>e \<in> set (rp_log (ss_db s)). origin_proposal_id e \<noteq> Some i"
  shows "\<exists>e \<in> set (rp_log (ss_db t)). origin_proposal_id e = Some i \<and> collection e = m_table Ticket \<and> actor_id e = sv_actor sv"
    and "\<forall>e \<in> set (rp_log (ss_stored t)). origin_proposal_id e \<noteq> Some i"
    and "\<exists>q. get_row (rp_tables (ss_stored t)) AgentProposal i = Some q \<and> cell_of q (lit ''status'') = Cell (PStr (lit ''approved''))"
    and "get_row (rp_tables (ss_stored t)) AgentProposal i = get_row (rp_tables (ss_db t)) AgentProposal i"
proof -
  let ?ts = "env_now (sv_env sv (ss_fresh s))"
  obtain ch ob u tob v where "coerce_changes fi (diff_of (load r)) = Inr ch"
    and flip: "flip_status (deciding sv signer ?ts) (load r) (lit ''approved'') ?ts [] (s\<lparr>ss_fresh := Suc (ss_fresh s)\<rparr>) = (Inr ob, u)"
    and upd: "update_ticket (deciding sv signer ?ts) (proposal_ticket (load r)) ch u = (Inr tob, v)"
    and t: "t = v\<lparr>ss_db := (ss_db v)\<lparr>rp_log := mark_proposal_origin (sv_actor sv)
      (next_actor_seq (rp_log (ss_db u)) (sv_actor sv)) i (rp_log (ss_db v))\<rparr>\<rparr>"
    by (rule approve_ticket_run [OF run row(1) kind]) (rule that)
  have id: "object_id (load r) = i" using row(2) by (intro object_id_id_of) simp
  obtain r1 where r1: "get_row (rp_tables (ss_db (s\<lparr>ss_fresh := Suc (ss_fresh s)\<rparr>))) AgentProposal (object_id (load r)) = Some r1"
    and u1: "row_update AgentProposal (object_id (load r)) (decided (lit ''approved'') ?ts r1)
      (rp_tables (ss_db (s\<lparr>ss_fresh := Suc (ss_fresh s)\<rparr>))) = Inr (rp_tables (ss_db u))"
    and e1: "\<exists>e. rp_log (ss_db u) = rp_log (ss_db (s\<lparr>ss_fresh := Suc (ss_fresh s)\<rparr>)) @ [e] \<and> origin_proposal_id e = None \<and>
      collection e = m_table AgentProposal \<and> actor_id e = sink_actor \<lparr>sink_actor = sv_actor sv, sink_signer = signer\<rparr>"
    by (rule flip_status_run [OF flip deciding_simps(2)]) (rule that)
  have "r1 = r" using r1 row(1) id by simp
  with u1 have u3: "row_update AgentProposal i (decided (lit ''approved'') ?ts r) (rp_tables (ss_db s)) = Inr (rp_tables (ss_db u))"
    by (simp add: id)
  from e1 obtain e1 where u: "rp_log (ss_db u) = rp_log (ss_db s) @ [e1]" "origin_proposal_id e1 = None" by auto
  obtain e2 where v: "rp_log (ss_db v) = rp_log (ss_db u) @ [e2]" "origin_proposal_id e2 = None"
      "actor_id e2 = sink_actor \<lparr>sink_actor = sv_actor sv, sink_signer = signer\<rparr>"
      "actor_seq e2 = next_actor_seq (rp_log (ss_db u)) (sink_actor \<lparr>sink_actor = sv_actor sv, sink_signer = signer\<rparr>)"
      "collection e2 = m_table Ticket" "ss_stored v = ss_db v"
      "rp_tables (ss_db v) (m_table AgentProposal) = rp_tables (ss_db u) (m_table AgentProposal)"
    by (rule update_ticket_run [OF upd deciding_simps(2)]) (rule that)
  have "e2\<lparr>origin_proposal_id := Some i\<rparr> \<in> set (rp_log (ss_db t))"
    unfolding t by (simp add: v(1) mark_appended [OF v(3,4), simplified])
  then show "\<exists>e \<in> set (rp_log (ss_db t)). origin_proposal_id e = Some i \<and> collection e = m_table Ticket \<and> actor_id e = sv_actor sv"
    by (intro bexI [of _ "e2\<lparr>origin_proposal_id := Some i\<rparr>"]) (simp_all add: v(3,5))
  show "\<forall>e \<in> set (rp_log (ss_stored t)). origin_proposal_id e \<noteq> Some i"
    using new by (auto simp: t v(1,2,6) u(1,2))
  have "id_of (decided (lit ''approved'') ?ts r) = Some i" using row(2) by (simp add: decided_def id_of_def cell_of_def)
  then have "put_row AgentProposal i (decided (lit ''approved'') ?ts r) (rp_tables (ss_db s)) = rp_tables (ss_db u)"
    using u3 by (auto simp: row_update_def rbind_Inr_iff)
  then have "get_row (rp_tables (ss_db u)) AgentProposal i = Some (decided (lit ''approved'') ?ts r)"
    by (metis get_put_row)
  then show "\<exists>q. get_row (rp_tables (ss_stored t)) AgentProposal i = Some q \<and> cell_of q (lit ''status'') = Cell (PStr (lit ''approved''))"
    by (simp add: t v(6) get_row_def v(7) decided_def cell_of_def)
  show "get_row (rp_tables (ss_stored t)) AgentProposal i = get_row (rp_tables (ss_db t)) AgentProposal i"
    by (simp add: t v(6))
qed

section \<open>Decisions are final and leave no trace when they fail\<close>

text \<open>A proposal that is not pending cannot be decided, whatever the decider has read of it before.\<close>

lemma not_pending_refused:
  assumes "get_row (rp_tables (ss_db s)) AgentProposal i = Some r" "cell_of r (lit ''status'') \<noteq> Cell (PStr (lit ''pending''))"
  shows "approve_proposal sv fi signer i s = (Inl ProposalConflictError, s\<lparr>ss_fresh := Suc (ss_fresh s)\<rparr>)"
    "reject_proposal sv signer i reason s = (Inl ProposalConflictError, s\<lparr>ss_fresh := Suc (ss_fresh s)\<rparr>)"
    "object_id pob = i \<Longrightarrow> flip_status sv pob status ts reason s = (Inl ProposalConflictError, s\<lparr>ss_db := ss_stored s\<rparr>)"
proof -
  have g: "get_pending i (s\<lparr>ss_fresh := n\<rparr>) = (Inl ProposalConflictError, s\<lparr>ss_fresh := n\<rparr>)" for n
    using assms by (simp add: get_pending_def ebind_def uncaught_def look_def eget_def eraise_def)
  have n: "uncaught (now sv) s = (Inr (env_now (sv_env sv (ss_fresh s))), s\<lparr>ss_fresh := Suc (ss_fresh s)\<rparr>)"
    by (simp add: now_iff)
  show "approve_proposal sv fi signer i s = (Inl ProposalConflictError, s\<lparr>ss_fresh := Suc (ss_fresh s)\<rparr>)"
    by (simp add: approve_proposal_def claim_proposal_def ebind_def n g)
  show "reject_proposal sv signer i reason s = (Inl ProposalConflictError, s\<lparr>ss_fresh := Suc (ss_fresh s)\<rparr>)"
    by (simp add: reject_proposal_def ebind_def n g)
  show "object_id pob = i \<Longrightarrow> flip_status sv pob status ts reason s = (Inl ProposalConflictError, s\<lparr>ss_db := ss_stored s\<rparr>)"
    using assms by (simp add: flip_status_def Let_def ebind_def uncaught_def look_def eget_def)
qed

lemma quiet_uncaught [moves_intros]: "moves quiet m \<Longrightarrow> moves quiet (uncaught m)"
  by (rule movesI) (auto simp: uncaught_def quiet_def dest!: movesD split: prod.splits sum.splits)

lemma late_uncaught [late_intros]: "late m \<Longrightarrow> late (uncaught m)"
  by (auto simp: late_def uncaught_Inl)

lemma late_applying [late_intros]:
  assumes "late m"
  shows "late (applying tk m)"
proof -
  have "ss_stored s' = ss_stored s" if "applying tk m s = (Inl e, s')" for s e s'
  proof -
    from that obtain e' t where m: "m s = (Inl e', t)" and "s' = t \<or> s' = t\<lparr>ss_db := ss_stored t\<rparr>"
      by (cases "m s") (auto simp: applying_def ecatch_def eraise_def
          split: sum.splits proposal_error.splits service_error.splits)
    then show ?thesis using assms m by (auto simp: late_def)
  qed
  then show ?thesis by (simp add: late_def)
qed

lemma late_then_total: "late m \<Longrightarrow> (\<And>x s e s'. k x s \<noteq> (Inl e, s')) \<Longrightarrow> late (ebind m k)"
  by (auto simp: late_def ebind_Inl)

lemma quiet_decision_steps [moves_intros]:
  "moves quiet (get_pending i)" "moves quiet (uncaught rollback :: unit psvc)" "moves quiet (reject_with e)"
  "moves quiet (flip_status sv pob status ts reason)"
proof -
  show "moves quiet (get_pending i)" unfolding get_pending_def by (intro moves_intros)
  show "moves quiet (uncaught rollback :: unit psvc)"
    by (rule movesI) (auto simp: uncaught_def rollback_def emod_def quiet_def)
  show r: "moves quiet (reject_with e)" for e by (rule movesI) (auto simp: quiet_def)
  show "moves quiet (flip_status sv pob status ts reason)"
    unfolding flip_status_def Let_def by (intro moves_intros r)
qed

lemma late_sums [late_intros]: "late (elift f r)"
  by (auto simp: late_def)

lemma follow_up_ops_late: "late (create_follow_up sv i t b due prov)" "late (update_follow_up sv i ch)" "late (complete_follow_up sv i st)"
  unfolding follow_up_op_defs Let_def by (intro late_intros moves_intros)+

lemma update_ticket_late: "late (update_ticket sv i ch)"
  unfolding update_ticket_def get_ticket_def by (intro late_intros moves_intros)

lemma apply_follow_up_late: "late (apply_follow_up sv fi pob)"
  unfolding apply_follow_up_def Let_def
  by (intro late_intros late_uncaught follow_up_ops_late moves_intros)

lemma touches_uncaught [moves_intros]: "moves (touches ns) m \<Longrightarrow> moves (touches ns) (uncaught m)"
  by (rule movesI) (auto simp: uncaught_def dest!: movesD split: prod.splits sum.splits)

lemma apply_follow_up_touches: "moves (touches (other Ticket)) (apply_follow_up sv fi pob)"
proof -
  have "moves (touches (other Ticket)) (create_follow_up sv i t b due prov)"
    "moves (touches (other Ticket)) (update_follow_up sv i ch)" "moves (touches (other Ticket)) (complete_follow_up sv i st)"
    for i t b due prov ch st
    unfolding follow_up_op_defs Let_def by (intro moves_intros; simp)+
  then show ?thesis
    unfolding apply_follow_up_def Let_def
    by (intro moves_intros)
qed

definition late_on :: "(session \<Rightarrow> bool) \<Rightarrow> (session, 'e, 'a) eff \<Rightarrow> bool" where
  "late_on P m \<longleftrightarrow> (\<forall>s e s'. P s \<longrightarrow> m s = (Inl e, s') \<longrightarrow> ss_stored s' = ss_stored s)"

lemma late_on_bind:
  assumes "moves quiet m" "\<And>s x t. P s \<Longrightarrow> m s = (Inr x, t) \<Longrightarrow> Q x t" "\<And>x. late_on (Q x) (k x)"
  shows "late_on P (ebind m k)"
  unfolding late_on_def
proof (intro allI impI)
  fix s e s' assume P: "P s" and "ebind m k s = (Inl e, s')"
  then consider "m s = (Inl e, s')" | x t where "m s = (Inr x, t)" "k x t = (Inl e, s')" by (auto simp: ebind_Inl)
  then show "ss_stored s' = ss_stored s"
  proof cases
    case 1
    with movesD [OF assms(1)] show ?thesis by (simp add: quiet_def)
  next
    case 2
    with movesD [OF assms(1) 2(1)] assms(3) assms(2) [OF P] show ?thesis by (simp add: late_on_def quiet_def)
  qed
qed

lemma late_on_late: "late m \<Longrightarrow> late_on P m"
  by (simp add: late_def late_on_def)

lemma late_on_applying:
  assumes "late_on P m"
  shows "late_on P (applying i m)"
  unfolding late_on_def
proof (intro allI impI)
  fix s e s' assume P: "P s" and run: "applying i m s = (Inl e, s')"
  then obtain e' t where m: "m s = (Inl e', t)" and "s' = t \<or> s' = t\<lparr>ss_db := ss_stored t\<rparr>"
    by (cases "m s") (auto simp: applying_def ecatch_def eraise_def
        split: sum.splits proposal_error.splits service_error.splits)
  then show "ss_stored s' = ss_stored s" using assms P m by (auto simp: late_on_def)
qed

text \<open>A follow-up is applied before its anchor ticket is read again, so the ticket must be there.\<close>

lemma follow_up_late:
  "late_on (\<lambda>s. get_row (rp_tables (ss_db s)) Ticket i \<noteq> None)
     (applying i (ebind (apply_follow_up sv fi pob) (\<lambda>_. uncaught (get_ticket i))))"
proof -
  have "late_on (\<lambda>s. get_row (rp_tables (ss_db s)) Ticket i \<noteq> None) (ebind (apply_follow_up sv fi pob) (\<lambda>_. uncaught (get_ticket i)))"
    unfolding late_on_def
  proof (intro allI impI)
    fix s e s' assume there: "get_row (rp_tables (ss_db s)) Ticket i \<noteq> None"
      and "ebind (apply_follow_up sv fi pob) (\<lambda>_. uncaught (get_ticket i)) s = (Inl e, s')"
    then consider "apply_follow_up sv fi pob s = (Inl e, s')"
      | x t where "apply_follow_up sv fi pob s = (Inr x, t)" "uncaught (get_ticket i) t = (Inl e, s')" by (auto simp: ebind_Inl)
    then show "ss_stored s' = ss_stored s"
    proof cases
      case 1
      with apply_follow_up_late show ?thesis by (auto simp: late_def)
    next
      case 2
      have "get_row (rp_tables (ss_db t)) Ticket i = get_row (rp_tables (ss_db s)) Ticket i"
        using movesD [OF apply_follow_up_touches 2(1)] by (simp add: touches_def other_def get_row_def)
      with there obtain r where "get_row (rp_tables (ss_db t)) Ticket i = Some r" by auto
      then have "get_ticket i t = (Inr (load r), t)" unfolding get_ticket_def by (simp add: get_entity_iff)
      with 2(2) show ?thesis by (simp add: uncaught_def)
    qed
  qed
  then show ?thesis by (rule late_on_applying)
qed

lemma flip_keeps_tickets:
  assumes "flip_status (deciding sv signer ts) pob status ts reason s = (Inr ob, t)"
  shows "get_row (rp_tables (ss_db t)) Ticket i = get_row (rp_tables (ss_db s)) Ticket i"
proof -
  obtain r where "row_update AgentProposal (object_id pob) (decided status ts r) (rp_tables (ss_db s)) = Inr (rp_tables (ss_db t))"
    by (rule flip_status_run [OF assms deciding_simps(2)]) (rule that)
  from row_ops_touch(2) [OF this, of "m_table Ticket"] show ?thesis
    by (simp add: get_row_def Ticket_def AgentProposal_def)
qed

text \<open>A decision that fails stores nothing.\<close>

lemma claim_quiet: "moves quiet (claim_proposal sv fi signer i)"
  unfolding claim_proposal_def by (intro moves_intros)

lemma claim_Inr:
  assumes "claim_proposal sv fi signer i s = (Inr (sv', kind, changes, ticket, pob), t)"
  obtains r where "get_row (rp_tables (ss_db s)) AgentProposal i = Some r" "ticket = proposal_ticket (load r)"
    "get_row (rp_tables (ss_db t)) Ticket ticket = get_row (rp_tables (ss_db s)) Ticket ticket"
proof -
  from assms obtain r ts where r: "get_row (rp_tables (ss_db s)) AgentProposal i = Some r" "ticket = proposal_ticket (load r)"
    and "flip_status (deciding sv signer ts) (load r) (lit ''approved'') ts [] (s\<lparr>ss_fresh := Suc (ss_fresh s)\<rparr>) = (Inr pob, t)"
    by (auto simp: claim_proposal_def ebind_Inr now_iff get_pending_Inr)
  from flip_keeps_tickets [OF this(3)] r show thesis by (intro that [OF r]) simp
qed

lemma apply_approved_late:
  "late_on (\<lambda>s. get_row (rp_tables (ss_db s)) Ticket ticket \<noteq> None) (apply_approved sv fi i kind changes ticket pob)"
proof -
  have tail: "late_on P (ebind m (\<lambda>tob. ebind (refresh AgentProposal i) (\<lambda>p. eret (p, tob))))" if "late_on P m"
    for m :: "object psvc" and P
    using that by (auto simp: late_on_def ebind_Inl refresh_def)
  have "late (ebind (applying ticket (uncaught (update_ticket sv ticket ch))) (\<lambda>tob.
      eseq (tag_origin a n i) (ebind (refresh AgentProposal i) (\<lambda>pob. eret (pob, tob)))))" for ch a n
    by (rule late_then_total, intro late_intros update_ticket_late)
      (auto simp: eseq_Inl ebind_Inl refresh_def tag_origin_def uncaught_Inl mod_db_def)
  then have body: "late (ebind (uncaught (look (\<lambda>d. next_actor_seq (rp_log d) a))) (\<lambda>patch_seq.
      ebind (applying ticket (uncaught (update_ticket sv ticket ch))) (\<lambda>tob.
      eseq (tag_origin a patch_seq i) (ebind (refresh AgentProposal i) (\<lambda>pob. eret (pob, tob))))))" for ch a
    by (rule late_ebind [rotated]) (intro moves_intros)
  have "late (case changes of None \<Rightarrow> eraise AssertionError | Some ch \<Rightarrow>
      ebind (uncaught (look (\<lambda>d. next_actor_seq (rp_log d) (sv_actor sv)))) (\<lambda>patch_seq.
      ebind (applying ticket (uncaught (update_ticket sv ticket ch))) (\<lambda>tob.
      eseq (tag_origin (sv_actor sv) patch_seq i) (ebind (refresh AgentProposal i) (\<lambda>pob. eret (pob, tob))))))"
    by (intro late_option late_eraise body)
  then show ?thesis
    unfolding apply_approved_def using tail [OF follow_up_late] by (simp add: late_on_late)
qed

lemma approve_late:
  assumes "\<And>r. get_row (rp_tables (ss_db s)) AgentProposal i = Some r \<Longrightarrow>
      get_row (rp_tables (ss_db s)) Ticket (proposal_ticket (load r)) \<noteq> None"
    and "approve_proposal sv fi signer i s = (Inl e, t)"
  shows "ss_stored t = ss_stored s"
proof -
  from assms(2) consider "claim_proposal sv fi signer i s = (Inl e, t)"
    | sv' kind changes ticket pob u where "claim_proposal sv fi signer i s = (Inr (sv', kind, changes, ticket, pob), u)"
        "apply_approved sv' fi i kind changes ticket pob u = (Inl e, t)"
    by (auto simp: approve_proposal_def ebind_Inl)
  then show ?thesis
  proof cases
    case 1
    with movesD [OF claim_quiet] show ?thesis by (simp add: quiet_def)
  next
    case 2
    have "get_row (rp_tables (ss_db u)) Ticket ticket \<noteq> None"
      by (rule claim_Inr [OF 2(1)]) (use assms(1) in simp)
    with apply_approved_late 2(2) have "ss_stored t = ss_stored u" by (simp add: late_on_def)
    with movesD [OF claim_quiet 2(1)] show ?thesis by (simp add: quiet_def)
  qed
qed

lemma reject_late: "late (reject_proposal sv signer i reason)"
proof -
  have "late (eseq (uncaught commit) (refresh AgentProposal i))"
    by (auto simp: late_def eseq_Inl uncaught_Inl refresh_def commit_def)
  then show ?thesis unfolding reject_proposal_def by (intro late_ebind moves_intros)
qed

end
