(* ===== verification/Policy.thy ===== *)
theory Policy
  imports Service
begin

text \<open>
  The memory-read policy (\<open>core/memory_policy.py\<close>): which memory entries an agent role may read.
  Policies are data; \<open>decide\<close> reports the first gate that refuses an entry, privacy first, and
  \<open>filter\<close> partitions a list of entries.  An entry is a memory object; \<open>instant\<close> is the injected
  clock.  The rationale texts of the policies are left out.
\<close>

section \<open>Roles and policies\<close>

datatype visibility = Local | Team | Public

definition VISIBILITY_RANK :: "(pystr, int) dict" where
  "VISIBILITY_RANK = [(lit ''local'', 0), (lit ''team'', 1), (lit ''public'', 2)]"

fun visibility_slug :: "visibility \<Rightarrow> pystr" where
  "visibility_slug Local = lit ''local''"
| "visibility_slug Team = lit ''team''"
| "visibility_slug Public = lit ''public''"

datatype agent_role = CodeAgent | QaAgent | DesignAgent | ProductAgent

fun role_slug :: "agent_role \<Rightarrow> pystr" where
  "role_slug CodeAgent = lit ''code_agent''"
| "role_slug QaAgent = lit ''qa_agent''"
| "role_slug DesignAgent = lit ''design_agent''"
| "role_slug ProductAgent = lit ''product_agent''"

definition WITHHELD_REVIEW_STATUSES :: "pystr list" where
  "WITHHELD_REVIEW_STATUSES = map lit [''stale'', ''rejected'']"

datatype policy_error = UnknownAgentRoleError pystr

record memory_policy =
  mp_id :: pystr
  mp_role :: agent_role
  mp_include :: "pystr list"
  mp_exclude :: "pystr list"
  mp_min_visibility :: visibility
  mp_withheld :: "pystr list"

definition make_policy :: "string \<Rightarrow> agent_role \<Rightarrow> string list \<Rightarrow> string list \<Rightarrow> memory_policy" where
  "make_policy i role inc exc = \<lparr>mp_id = lit i, mp_role = role, mp_include = map lit inc, mp_exclude = map lit exc,
     mp_min_visibility = Team, mp_withheld = WITHHELD_REVIEW_STATUSES\<rparr>"

definition POLICIES :: "memory_policy list" where
  "POLICIES =
    [make_policy ''memory-policy/code_agent/v1'' CodeAgent [''codebase'', ''decision'', ''ticket'', ''project'']
       [''release'', ''workspace'', ''agent_run''],
     make_policy ''memory-policy/qa_agent/v1'' QaAgent [''ticket'', ''release'', ''codebase'', ''decision'']
       [''workspace'', ''project'', ''agent_run''],
     make_policy ''memory-policy/design_agent/v1'' DesignAgent [''project'', ''ticket'', ''decision'', ''workspace'']
       [''codebase'', ''release'', ''agent_run''],
     make_policy ''memory-policy/product_agent/v1'' ProductAgent
       [''workspace'', ''project'', ''ticket'', ''decision'', ''release''] [''codebase'', ''agent_run'']]"

definition ROLE_SLUGS :: "pystr list" where
  "ROLE_SLUGS = map (role_slug \<circ> mp_role) POLICIES"

definition is_agent_role :: "pystr \<Rightarrow> bool" where
  "is_agent_role role \<longleftrightarrow> role \<in> set ROLE_SLUGS"

definition policy_for :: "pystr \<Rightarrow> policy_error + memory_policy" where
  "policy_for role =
     (case List.find (\<lambda>p. role_slug (mp_role p) = role) POLICIES of
        None \<Rightarrow> Inl (UnknownAgentRoleError role)
      | Some p \<Rightarrow> Inr p)"

section \<open>Deciding\<close>

definition rank_of :: "pystr \<Rightarrow> int" where
  "rank_of v = (case dget VISIBILITY_RANK v of None \<Rightarrow> - 1 | Some n \<Rightarrow> n)"

definition admits :: "visibility \<Rightarrow> pystr \<Rightarrow> bool" where
  "admits least v \<longleftrightarrow> rank_of (visibility_slug least) \<le> rank_of v"

record policy_decision =
  pd_entry_id :: pystr
  pd_included :: bool
  pd_reason :: pystr

definition text_attr :: "object \<Rightarrow> string \<Rightarrow> pystr" where
  "text_attr ob f = text_value (attr ob f)"

definition expired :: "int \<Rightarrow> object \<Rightarrow> bool" where
  "expired instant ob \<longleftrightarrow> (case attr ob ''expires_at'' of At m \<Rightarrow> wall m \<le> instant | _ \<Rightarrow> False)"

definition decide :: "memory_policy \<Rightarrow> object \<Rightarrow> int \<Rightarrow> policy_decision" where
  "decide p ob instant =
     (let answer = (\<lambda>inc reason. \<lparr>pd_entry_id = object_id ob, pd_included = inc, pd_reason = reason\<rparr>);
          v = text_attr ob ''visibility''; st = text_attr ob ''review_status''; sp = text_attr ob ''space'' in
      if \<not> admits (mp_min_visibility p) v then answer False (lit ''privacy_filter:visibility_'' @ v)
      else if expired instant ob then answer False (lit ''expired'')
      else if st \<in> set (mp_withheld p) then answer False (lit ''review_status:'' @ st)
      else if sp \<in> set (mp_exclude p) then answer False (lit ''exclude_scope:'' @ sp)
      else if sp \<notin> set (mp_include p) then answer False (lit ''out_of_scope:'' @ sp)
      else answer True (lit ''include_scope:'' @ sp))"

record filter_result =
  fr_included :: "object list"
  fr_excluded :: "(object \<times> pystr) list"
  fr_decisions :: "policy_decision list"

definition filter_step :: "memory_policy \<Rightarrow> int \<Rightarrow> filter_result \<Rightarrow> object \<Rightarrow> filter_result" where
  "filter_step p instant fr ob =
     (let d = decide p ob instant; fr = fr\<lparr>fr_decisions := fr_decisions fr @ [d]\<rparr> in
      if pd_included d then fr\<lparr>fr_included := fr_included fr @ [ob]\<rparr>
      else fr\<lparr>fr_excluded := fr_excluded fr @ [(ob, pd_reason d)]\<rparr>)"

definition filter_entries :: "object list \<Rightarrow> memory_policy \<Rightarrow> int \<Rightarrow> filter_result" where
  "filter_entries obs p instant =
     foldl (filter_step p instant) \<lparr>fr_included = [], fr_excluded = [], fr_decisions = []\<rparr> obs"

section \<open>What a decision says\<close>

text \<open>The four gates, and nothing else, decide.\<close>

lemma decide_included:
  "pd_included (decide p ob instant) \<longleftrightarrow>
     admits (mp_min_visibility p) (text_attr ob ''visibility'') \<and> \<not> expired instant ob \<and>
     text_attr ob ''review_status'' \<notin> set (mp_withheld p) \<and> text_attr ob ''space'' \<notin> set (mp_exclude p) \<and>
     text_attr ob ''space'' \<in> set (mp_include p)"
  by (auto simp: decide_def Let_def)

lemma filter_loop:
  "foldl (filter_step p instant) fr obs =
     \<lparr>fr_included = fr_included fr @ filter (\<lambda>ob. pd_included (decide p ob instant)) obs,
      fr_excluded = fr_excluded fr @ map (\<lambda>ob. (ob, pd_reason (decide p ob instant)))
        (filter (\<lambda>ob. \<not> pd_included (decide p ob instant)) obs),
      fr_decisions = fr_decisions fr @ map (\<lambda>ob. decide p ob instant) obs\<rparr>"
  by (induction obs arbitrary: fr) (auto simp: filter_step_def Let_def)

lemma filter_entries_result:
  "fr_included (filter_entries obs p instant) = filter (\<lambda>ob. pd_included (decide p ob instant)) obs"
  "fr_excluded (filter_entries obs p instant) =
     map (\<lambda>ob. (ob, pd_reason (decide p ob instant))) (filter (\<lambda>ob. \<not> pd_included (decide p ob instant)) obs)"
  "fr_decisions (filter_entries obs p instant) = map (\<lambda>ob. decide p ob instant) obs"
  by (simp_all add: filter_entries_def filter_loop)

text \<open>Below the team floor the reason names the visibility, whatever else is wrong with the entry.\<close>

lemma admits_team: "admits Team v \<longleftrightarrow> v \<in> {lit ''team'', lit ''public''}"
  by (auto simp: admits_def rank_of_def VISIBILITY_RANK_def split: if_splits)

lemma privacy_first:
  "\<not> admits (mp_min_visibility p) (text_attr ob ''visibility'') \<Longrightarrow>
     decide p ob instant = \<lparr>pd_entry_id = object_id ob, pd_included = False,
       pd_reason = lit ''privacy_filter:visibility_'' @ text_attr ob ''visibility''\<rparr>"
  by (simp add: decide_def)

section \<open>The locked policies\<close>

definition SPACES :: "pystr list" where
  "SPACES = map lit [''workspace'', ''project'', ''ticket'', ''codebase'', ''decision'', ''release'', ''agent_run'']"

lemma policies_partition_spaces:
  "list_all (\<lambda>p. set (mp_include p) \<union> set (mp_exclude p) = set SPACES \<and> set (mp_include p) \<inter> set (mp_exclude p) = {} \<and>
     mp_min_visibility p = Team \<and> mp_withheld p = WITHHELD_REVIEW_STATUSES) POLICIES"
  by (auto simp: POLICIES_def make_policy_def SPACES_def)

lemma policy_for_total: "(\<exists>p. policy_for role = Inr p) \<longleftrightarrow> is_agent_role role"
  by (auto simp: policy_for_def is_agent_role_def ROLE_SLUGS_def POLICIES_def make_policy_def split: option.splits if_splits)

lemma policy_for_role: "policy_for (role_slug r) = Inr p \<Longrightarrow> mp_role p = r \<and> p \<in> set POLICIES"
  by (cases r) (auto simp: policy_for_def POLICIES_def make_policy_def split: if_splits)

end
