(* ===== verification/Memory.thy ===== *)
theory Memory
  imports Policy Tracker
begin

text \<open>
  The memory service (\<open>core/memory/service.py\<close>): notes with a visibility, their links to tickets,
  promotion into the shared collection and the human decision on it.  Only rows whose visibility
  is \<open>team\<close> reach the event sink; audit rows of other entries carry no content.  \<open>lo\<close> stands for
  \<open>str.lower\<close>.  Operations are sessions of \<open>Service\<close>, with its errors.
\<close>

section \<open>Vocabularies\<close>

definition MEMORY_TYPES :: "pystr list" where
  "MEMORY_TYPES = map lit [''note'', ''decision'', ''constraint'', ''learning'', ''reference'']"
definition MEMORY_SOURCES :: "pystr list" where "MEMORY_SOURCES = map lit [''manual'', ''agent'', ''import'']"
definition MEMORY_SPACES :: "pystr list" where
  "MEMORY_SPACES = map lit [''workspace'', ''project'', ''ticket'', ''codebase'', ''decision'', ''release'', ''agent_run'']"
definition CONFIDENCE_LEVELS :: "pystr list" where "CONFIDENCE_LEVELS = map lit [''low'', ''medium'', ''high'']"
definition REVIEW_STATUSES :: "pystr list" where
  "REVIEW_STATUSES = map lit [''draft'', ''proposed'', ''approved'', ''stale'', ''rejected'']"
definition WRITABLE_REVIEW_STATUSES :: "pystr list" where "WRITABLE_REVIEW_STATUSES = map lit [''draft'', ''stale'']"
definition MEMORY_VISIBILITIES :: "pystr list" where "MEMORY_VISIBILITIES = map lit [''local'', ''team'']"
definition DOMAIN_VISIBILITIES :: "pystr list" where
  "DOMAIN_VISIBILITIES = map lit [''private_local'', ''agent_run_private'', ''personal_synced'', ''proposal_context'',
     ''shared_project'', ''shared_workspace'']"
definition PROVENANCE_KEYS :: "pystr list" where
  "PROVENANCE_KEYS = map lit [''origin'', ''actor_id'', ''captured_at'', ''detail'']"
definition REASON_MAX :: nat where "REASON_MAX = 500"
definition MEMORY_PATCHABLE :: "pystr list" where
  "MEMORY_PATCHABLE = map lit [''title'', ''body'', ''type'', ''source'', ''space'', ''linked_entities'', ''provenance'',
     ''confidence'', ''review_status'', ''expires_at'']"
definition PROMOTABLE_FIELDS :: "pystr list" where
  "PROMOTABLE_FIELDS = map lit [''title'', ''body'', ''type'', ''space'', ''confidence'', ''linked_entities'', ''expires_at'']"

definition domain_visibility :: "pystr \<Rightarrow> pystr \<Rightarrow> pystr \<Rightarrow> pystr" where
  "domain_visibility vis st sp =
     (if vis = lit ''local'' then
        if sp = lit ''agent_run'' \<and> st = lit ''draft'' then lit ''agent_run_private'' else lit ''private_local''
      else if st = lit ''proposed'' then lit ''proposal_context''
      else if st = lit ''approved'' then
        if sp = lit ''workspace'' then lit ''shared_workspace'' else lit ''shared_project''
      else lit ''personal_synced'')"

section \<open>Field checks\<close>

text \<open>The full match of \<open>_ENTITY_REF\<close>.\<close>

definition ref_collection_char :: "nat \<Rightarrow> bool" where
  "ref_collection_char c \<longleftrightarrow> 97 \<le> c \<and> c \<le> 122 \<or> c = 95"

definition ref_id_char :: "nat \<Rightarrow> bool" where
  "ref_id_char c \<longleftrightarrow> 65 \<le> c \<and> c \<le> 90 \<or> 97 \<le> c \<and> c \<le> 122 \<or> 48 \<le> c \<and> c \<le> 57 \<or> c = 95 \<or> c = 45"

definition is_entity_ref :: "pystr \<Rightarrow> bool" where
  "is_entity_ref s \<longleftrightarrow>
     (let c = takeWhile (\<lambda>x. x \<noteq> 47) s; i = tl (dropWhile (\<lambda>x. x \<noteq> 47) s) in
      47 \<in> set s \<and> list_all ref_collection_char c \<and> 1 \<le> length c \<and> length c \<le> 32 \<and>
      list_all ref_id_char i \<and> 1 \<le> length i \<and> length i \<le> 64)"

fun clean_refs :: "pyval list \<Rightarrow> pystr list \<Rightarrow> service_error + pystr list" where
  "clean_refs [] acc = Inr acc"
| "clean_refs (PStr raw # xs) acc =
     (let r = strip raw in
      if is_entity_ref r then clean_refs xs (if r \<in> set acc then acc else acc @ [r]) else Inl ValidationError)"
| "clean_refs (_ # xs) acc = Inl ValidationError"

definition refs_field :: "object \<Rightarrow> service_error + object" where
  "refs_field ch =
     when_given ch ''linked_entities'' (\<lambda>x. case x of
         Js (PList xs) \<Rightarrow> rbind (clean_refs xs []) (\<lambda>rs. Inr (dset (lit ''linked_entities'') (Js (PList (map PStr rs))) ch))
       | _ \<Rightarrow> Inl ValidationError)"

definition is_text :: "pyval \<Rightarrow> bool" where
  "is_text x \<longleftrightarrow> (case x of PStr _ \<Rightarrow> True | _ \<Rightarrow> False)"

definition provenance_field :: "object \<Rightarrow> service_error + object" where
  "provenance_field ch =
     when_given ch ''provenance'' (\<lambda>x. case x of
         Js (PDict kvs) \<Rightarrow>
           rbind (ensure (list_all (\<lambda>(k, _). k \<in> PStr ` set PROVENANCE_KEYS) kvs)) (\<lambda>_.
           rbind (ensure (list_all (\<lambda>(_, v). is_text v) kvs)) (\<lambda>_. Inr ch))
       | _ \<Rightarrow> Inl ValidationError)"

definition validated_fields :: "service \<Rightarrow> object \<Rightarrow> service_error + object" where
  "validated_fields sv flds =
     rbind (strip_field sv ''title'' (Some TITLE_MAX) flds) (\<lambda>out.
     rbind (when_given out ''body'' (\<lambda>x. rbind (ensure (length (str_of sv x) \<le> BODY_MAX)) (\<lambda>_. Inr out))) (\<lambda>out.
     rbind (vocab_field ''type'' MEMORY_TYPES out) (\<lambda>out.
     rbind (vocab_field ''source'' MEMORY_SOURCES out) (\<lambda>out.
     rbind (vocab_field ''space'' MEMORY_SPACES out) (\<lambda>out.
     rbind (vocab_field ''confidence'' CONFIDENCE_LEVELS out) (\<lambda>out.
     rbind (vocab_field ''review_status'' REVIEW_STATUSES out) (\<lambda>out.
     rbind (refs_field out) (\<lambda>out.
     rbind (provenance_field out) (\<lambda>out. Inr (utc_field ''expires_at'' out))))))))))"

section \<open>The emit seam\<close>

definition is_team :: "object \<Rightarrow> bool" where
  "is_team ob \<longleftrightarrow> attr ob ''visibility'' = Js (PStr (lit ''team''))"

text \<open>\<open>_emit_team_only\<close>\<close>

definition emit_team_only :: "service \<Rightarrow> model \<Rightarrow> object \<Rightarrow> pystr \<Rightarrow> payload \<Rightarrow> unit svc" where
  "emit_team_only sv m ob opn pl = (if is_team ob then emit_event sv (m_table m) (object_id ob) opn pl else eret ())"

definition audit_entry_write :: "service \<Rightarrow> string \<Rightarrow> object \<Rightarrow> payload option \<Rightarrow> bool \<Rightarrow> int \<Rightarrow> unit svc" where
  "audit_entry_write sv action ob before after_none ts =
     write_audit sv action (ref_to (m_table MemoryEntry) (object_id ob)) before
       (if \<not> after_none \<and> is_team ob then Some (snapshot sv ob) else None) ts"

section \<open>Entries\<close>

definition get_entry :: "pystr \<Rightarrow> object svc" where
  "get_entry i = get_entity MemoryEntry i"

definition set_defaults :: "(pystr \<times> pyval) list \<Rightarrow> pyval \<Rightarrow> pyval" where
  "set_defaults ds p =
     (case p of
        PDict kvs \<Rightarrow> PDict (foldl (\<lambda>kvs (k, v). if map_of kvs (PStr k) = None then kvs @ [(PStr k, v)] else kvs) kvs ds)
      | _ \<Rightarrow> p)"

text \<open>The write shared by create and promote: flush, audit, emit, commit.\<close>

definition write_entry ::
    "service \<Rightarrow> string \<Rightarrow> object \<Rightarrow> (object \<Rightarrow> unit svc) \<Rightarrow> int \<Rightarrow> object svc" where
  "write_entry sv action flds extra ts =
     ebind (flush_new sv MemoryEntry flds) (\<lambda>ob.
     eseq (audit_entry_write sv action ob None False ts)
     (eseq (extra ob)
     (eseq (emit_team_only sv MemoryEntry ob op_patch (snapshot sv ob))
     (eseq commit (eret (load (to_row ob)))))))"

definition create_entry ::
    "service \<Rightarrow> pystr \<Rightarrow> pystr \<Rightarrow> pystr \<Rightarrow> pystr \<Rightarrow> pystr \<Rightarrow> pystr \<Rightarrow> pystr \<Rightarrow> pystr list option \<Rightarrow> payload option \<Rightarrow>
     moment option \<Rightarrow> object svc" where
  "create_entry sv title body t source space vis confidence refs provenance expires =
     eseq (require (vis \<in> set MEMORY_VISIBILITIES))
     (ebind (lift (validated_fields sv
       [(lit ''title'', Js (PStr title)), (lit ''body'', Js (PStr body)), (lit ''type'', Js (PStr t)),
        (lit ''source'', Js (PStr source)), (lit ''space'', Js (PStr space)), (lit ''confidence'', Js (PStr confidence)),
        (lit ''linked_entities'', Js (PList (map PStr (case refs of None \<Rightarrow> [] | Some xs \<Rightarrow> xs)))),
        (lit ''provenance'', Js (pdict (case provenance of None \<Rightarrow> [] | Some p \<Rightarrow> p))),
        (lit ''expires_at'', opt_moment expires)])) (\<lambda>flds.
     ebind (now sv) (\<lambda>ts.
     let prov = (case attr flds ''provenance'' of Js p \<Rightarrow> set_defaults
           [(lit ''origin'', PStr (text_value (attr flds ''source''))), (lit ''actor_id'', PStr (sv_actor sv)),
            (lit ''captured_at'', PStr (sv_iso sv ts))] p | _ \<Rightarrow> PNone) in
     write_entry sv ''memory.create''
       ([(lit ''created_by'', Js (PStr (sv_actor sv))), (lit ''visibility'', Js (PStr vis))] @ stamps ts @
        dset (lit ''provenance'') (Js prov) flds) (\<lambda>_. eret ()) ts)))"

text \<open>The write shared by update and promotion in place.\<close>

definition set_entry ::
    "service \<Rightarrow> string \<Rightarrow> object \<Rightarrow> payload option \<Rightarrow> object \<Rightarrow> int \<Rightarrow> object svc" where
  "set_entry sv action ob before changes ts =
     (let ob = dset (lit ''updated_at'') (At (Naive ts)) (dupdate ob changes); after = snapshot sv ob in
      eseq (flush_set MemoryEntry ob)
      (eseq (audit_entry_write sv action ob before False ts)
      (eseq (emit_team_only sv MemoryEntry ob op_patch (patch_payload after changes))
      (eseq commit (eret (load (to_row ob)))))))"

definition update_entry :: "service \<Rightarrow> pystr \<Rightarrow> object \<Rightarrow> object svc" where
  "update_entry sv i ch =
     ebind (get_entry i) (\<lambda>ob.
     eseq (require (dget ch (lit ''visibility'') = None))
     (ebind (lift (rbind (known_fields MEMORY_PATCHABLE ch) (\<lambda>_.
       rbind (validated_fields sv ch) (\<lambda>ch.
       vocab_field ''review_status'' WRITABLE_REVIEW_STATUSES ch)))) (\<lambda>ch.
     ebind (now sv) (\<lambda>ts. set_entry sv ''memory.update'' ob (if is_team ob then Some (snapshot sv ob) else None) ch ts))))"

section \<open>Promotion\<close>

definition promote_team_in_place :: "service \<Rightarrow> object \<Rightarrow> int \<Rightarrow> object svc" where
  "promote_team_in_place sv ob ts =
     set_entry sv ''memory.promote'' ob (Some (snapshot sv ob)) [(lit ''review_status'', Js (PStr (lit ''proposed'')))] ts"

definition promote_local_copy :: "service \<Rightarrow> object \<Rightarrow> int \<Rightarrow> object svc" where
  "promote_local_copy sv source ts =
     write_entry sv ''memory.promote''
       ([(lit ''created_by'', Js (PStr (sv_actor sv))), (lit ''source'', attr source ''source''),
         (lit ''visibility'', Js (PStr (lit ''team''))), (lit ''review_status'', Js (PStr (lit ''proposed''))),
         (lit ''provenance'', Js (pdict [(lit ''origin'', PStr (text_value (attr source ''source''))),
           (lit ''actor_id'', PStr (sv_actor sv)), (lit ''captured_at'', PStr (sv_iso sv ts)),
           (lit ''detail'', PStr (lit ''promoted from a local entry''))]))] @ stamps ts @
        filter (\<lambda>(f, _). f \<in> set PROMOTABLE_FIELDS) source)
       (\<lambda>_. audit_entry_write sv ''memory.promote'' source None True ts) ts"

definition promote :: "service \<Rightarrow> pystr \<Rightarrow> object svc" where
  "promote sv i =
     ebind (get_entry i) (\<lambda>ob.
     ebind (now sv) (\<lambda>ts.
     if attr ob ''visibility'' = Js (PStr (lit ''local'')) then promote_local_copy sv ob ts
     else
       eseq (require (in_vocab WRITABLE_REVIEW_STATUSES (attr ob ''review_status'')))
       (promote_team_in_place sv ob ts)))"

text \<open>\<open>_decide\<close>: the conditional update that only a proposed row passes.\<close>

definition decide_entry :: "service \<Rightarrow> pystr \<Rightarrow> string \<Rightarrow> string \<Rightarrow> object svc" where
  "decide_entry sv i st action =
     ebind (get_entry i) (\<lambda>ob.
     ebind (now sv) (\<lambda>ts.
     ebind (look rp_tables) (\<lambda>tabs.
     case get_row tabs MemoryEntry (object_id ob) of
       None \<Rightarrow> eseq rollback (eraise ConflictError)
     | Some r \<Rightarrow>
         if cell_of r (lit ''review_status'') \<noteq> Cell (PStr (lit ''proposed'')) then eseq rollback (eraise ConflictError)
         else
           let ob' = load (dset (lit ''updated_at'') (Time ts) (dset (lit ''review_status'') (Cell (PStr (lit st))) r));
               after = snapshot sv ob' in
           eseq (on_tables (row_update MemoryEntry (object_id ob) (to_row ob')))
           (eseq (audit_entry_write sv action ob' (Some (snapshot sv ob)) False ts)
           (eseq (emit_team_only sv MemoryEntry ob' op_patch
                   (patch_payload after [(lit ''review_status'', Js PNone)]))
           (eseq commit (eret ob')))))))"

definition approve_entry :: "service \<Rightarrow> pystr \<Rightarrow> object svc" where
  "approve_entry sv i = decide_entry sv i ''approved'' ''memory.approve''"

definition reject_entry :: "service \<Rightarrow> pystr \<Rightarrow> object svc" where
  "reject_entry sv i = decide_entry sv i ''rejected'' ''memory.reject''"

section \<open>Reading\<close>

definition contains_text :: "pystr \<Rightarrow> pystr \<Rightarrow> bool" where
  "contains_text needle s \<longleftrightarrow> list_ex (\<lambda>k. take (length needle) (drop k s) = needle) [0..<Suc (length s)]"

definition list_entries ::
    "(pystr \<Rightarrow> pystr) \<Rightarrow> tables \<Rightarrow> int \<Rightarrow> pystr option \<Rightarrow> pystr option \<Rightarrow> pystr option \<Rightarrow> pystr option \<Rightarrow> bool \<Rightarrow> object list" where
  "list_entries lo ts instant space t st q include_expired =
     newest_first (filter (\<lambda>ob. text_is ''space'' space ob \<and> text_is ''type'' t ob \<and> text_is ''review_status'' st ob \<and>
       (include_expired \<or> \<not> expired instant ob) \<and>
       (case q of None \<Rightarrow> True
        | Some q \<Rightarrow> strip q = [] \<or> contains_text (lo (strip q)) (lo (text_attr ob ''title'')) \<or>
            contains_text (lo (strip q)) (lo (text_attr ob ''body'')))) (all_rows ts MemoryEntry))"

record search_result =
  sr_included :: "object list"
  sr_excluded :: "(object \<times> pystr) list"

definition search_entries ::
    "(pystr \<Rightarrow> pystr) \<Rightarrow> tables \<Rightarrow> int \<Rightarrow> memory_policy option \<Rightarrow> pystr option \<Rightarrow> pystr option \<Rightarrow> pystr option \<Rightarrow> bool \<Rightarrow>
     search_result" where
  "search_entries lo ts instant policy space t q include_expired =
     (let rows = list_entries lo ts instant space t None q include_expired in
      case policy of
        None \<Rightarrow> \<lparr>sr_included = rows, sr_excluded = []\<rparr>
      | Some p \<Rightarrow>
          let res = filter_entries rows p instant;
              kept = map object_id (fr_included res);
              reasons = map (\<lambda>(ob, why). (object_id ob, why)) (fr_excluded res) in
          \<lparr>sr_included = filter (\<lambda>ob. object_id ob \<in> set kept) rows,
           sr_excluded = List.map_filter (\<lambda>ob. map_option (\<lambda>why. (ob, why)) (dget (List.rev reasons) (object_id ob))) rows\<rparr>)"

section \<open>Deleting and linking\<close>

definition links_of :: "tables \<Rightarrow> pystr \<Rightarrow> object list" where
  "links_of ts i = sort_key object_id (filter (text_is ''memory_id'' (Some i)) (all_rows ts MemoryLink))"

definition links_for_entry :: "pystr \<Rightarrow> object list svc" where
  "links_for_entry i = ebind (get_entry i) (\<lambda>_. ebind (look rp_tables) (\<lambda>ts. eret (links_of ts i)))"

definition delete_link :: "service \<Rightarrow> object \<Rightarrow> unit svc" where
  "delete_link sv ob =
     eseq (emit_team_only sv MemoryLink ob op_tombstone []) (on_tables (row_delete MemoryLink (object_id ob)))"

definition delete_entry :: "service \<Rightarrow> pystr \<Rightarrow> unit svc" where
  "delete_entry sv i =
     ebind (get_entry i) (\<lambda>ob.
     ebind (links_for_entry i) (\<lambda>links.
     ebind (now sv) (\<lambda>ts.
     eseq (efor (delete_link sv) links)
     (eseq (audit_entry_write sv ''memory.delete'' ob (if is_team ob then Some (snapshot sv ob) else None) True ts)
     (eseq (emit_team_only sv MemoryEntry ob op_tombstone [])
     (eseq (on_tables (row_delete MemoryEntry (object_id ob))) commit))))))"

definition link :: "service \<Rightarrow> pystr \<Rightarrow> pystr \<Rightarrow> pystr \<Rightarrow> object svc" where
  "link sv i ticket reason =
     ebind (get_entry i) (\<lambda>ob.
     ebind (get_ticket ticket) (\<lambda>_.
     let reason = strip reason in
     eseq (require (reason \<noteq> []))
     (eseq (require (length reason \<le> REASON_MAX))
     (ebind (look rp_tables) (\<lambda>tabs.
     eseq (require (list_all (\<lambda>l. \<not> text_is ''ticket_id'' (Some ticket) l) (links_of tabs i)))
     (ebind (now sv) (\<lambda>ts.
     ebind (flush_new sv MemoryLink
       ([(lit ''ticket_id'', Js (PStr ticket)), (lit ''memory_id'', Js (PStr i)), (lit ''reason'', Js (PStr reason)),
         (lit ''created_by'', Js (PStr (sv_actor sv))), (lit ''visibility'', attr ob ''visibility'')] @ stamps ts)) (\<lambda>lob.
     eseq (if is_team ob then write_audit sv ''memory.link'' (ref_to (m_table Ticket) ticket) None (Some (snapshot sv lob)) ts
           else write_audit sv ''memory.link'' (ref_to (m_table MemoryEntry) i) None None ts)
     (eseq (emit_team_only sv MemoryLink lob op_patch (snapshot sv lob))
     (eseq commit (eret (load (to_row lob)))))))))))))"

definition linked_memory :: "pystr \<Rightarrow> int \<Rightarrow> bool \<Rightarrow> (object \<times> object) list svc" where
  "linked_memory ticket instant include_expired =
     ebind (get_ticket ticket) (\<lambda>_.
     ebind (look rp_tables) (\<lambda>ts. eret (List.map_filter (\<lambda>l.
       case get_row ts MemoryEntry (text_attr l ''memory_id'') of
         None \<Rightarrow> None
       | Some r \<Rightarrow> if \<not> include_expired \<and> expired instant (load r) then None else Some (l, load r))
       (sort_key object_id (filter (text_is ''ticket_id'' (Some ticket)) (all_rows ts MemoryLink))))))"

end
