(* ===== verification/Privacy.thy ===== *)
theory Privacy
  imports Memory Structure
begin

text \<open>
  The privacy promise of \<open>memory/service.py\<close>: of a local entry, or of a link to one, no event ever
  enters the log and no audit row carries content, whatever requests the memory service answers, and
  no request shares it.  The promise is an invariant of every operation, on the branches that fail as
  well; the rules below drive one proof per operation.
\<close>

section \<open>The invariant\<close>

definition withheld :: "row \<Rightarrow> bool" where
  "withheld r \<longleftrightarrow> cell_of r (lit ''visibility'') = Cell (PStr (lit ''local'')) \<and>
     cell_of r (lit ''review_status'') \<noteq> Cell (PStr (lit ''proposed''))"

definition concerns :: "model \<Rightarrow> pystr \<Rightarrow> 'a event_scheme \<Rightarrow> bool" where
  "concerns m i e \<longleftrightarrow> collection e = m_table m \<and> entity_id e = i"

definition NOTES :: "model list" where
  "NOTES = [MemoryEntry, MemoryLink]"

definition kept_private :: "model \<Rightarrow> pystr \<Rightarrow> log \<Rightarrow> replica \<Rightarrow> bool" where
  "kept_private m i l db \<longleftrightarrow>
     (\<forall>n \<in> set NOTES. \<forall>(j, r) \<in> set (rp_tables db (m_table n)). id_of r = Some j) \<and>
     (\<forall>(j, r) \<in> set (rp_tables db (m_table m)). j = i \<longrightarrow> withheld r) \<and>
     filter (concerns m i) (rp_log db) = l \<and>
     (\<forall>a \<in> set (rp_trail db). ar_object a = Some (ref_to (m_table m) i) \<longrightarrow> ar_before a = None \<and> ar_after a = None)"

text \<open>The identifiers still to come are not the entry's.\<close>

definition secret :: "service \<Rightarrow> model \<Rightarrow> pystr \<Rightarrow> log \<Rightarrow> session \<Rightarrow> bool" where
  "secret sv m i l s \<longleftrightarrow> (\<forall>n \<ge> ss_fresh s. env_id (sv_env sv n) \<noteq> i) \<and>
     kept_private m i l (ss_db s) \<and> kept_private m i l (ss_stored s)"

lemma model_ok_NOTES: "model_ok MemoryEntry" "model_ok MemoryLink"
  by code_simp+

section \<open>Rules\<close>

lemma ebind_eret: "ebind (eret x) k = k x" and ebind_eraise: "ebind (eraise e) k = eraise e"
  by (rule ext; simp add: ebind_def eret_def eraise_def)+

lemma elift_simps: "elift f (Inr x) = eret x" "elift f (Inl e) = eraise (f e)"
  by (rule ext; simp add: elift_def eret_def eraise_def)+

lemma ebind_assoc: "ebind (ebind m f) k = ebind m (\<lambda>x. ebind (f x) k)"
  by (rule ext) (auto simp: ebind_def split: prod.splits sum.splits)


lemma keeps_secret_prims [keeps_intros]:
  "keeps (secret sv m i l) (fresh_env sv)" "keeps (secret sv m i l) (now sv)" "keeps (secret sv m i l) (look f)"
  "keeps (secret sv m i l) (require b)" "keeps (secret sv m i l) (lift x)" "keeps (secret sv m i l) commit"
  "keeps (secret sv m i l) rollback" "keeps (secret sv m i l) (get_entity n j)"
proof -
  show a: "keeps (secret sv m i l) (fresh_env sv)" by (auto intro!: keepsI simp: fresh_env_def secret_def)
  show b: "keeps (secret sv m i l) (look f)" for f :: "replica \<Rightarrow> 'z" by (auto intro!: keepsI simp: look_def eget_def)
  show "keeps (secret sv m i l) (now sv)" unfolding now_def by (intro keeps_intros a)
  show "keeps (secret sv m i l) (require b)" unfolding require_def by (intro keeps_intros)
  show "keeps (secret sv m i l) (lift x)" unfolding lift_def by (intro keeps_intros)
  show "keeps (secret sv m i l) commit" "keeps (secret sv m i l) rollback"
    by (auto intro!: keepsI simp: commit_def rollback_def emod_def secret_def)
  show "keeps (secret sv m i l) (get_entity n j)" unfolding get_entity_def by (intro keeps_intros b)
qed

lemma keeps_secret_db:
  assumes "\<And>d. kept_private m i l d \<Longrightarrow> kept_private m i l (f d)"
  shows "keeps (secret sv m i l) (mod_db f)"
  using assms by (auto intro!: keepsI simp: mod_db_def emod_def secret_def)

text \<open>What an operation knows of what it read.\<close>

lemma keeps_look:
  assumes "\<And>d. kept_private m i l d \<Longrightarrow> keeps (secret sv m i l) (k (f d))"
  shows "keeps (secret sv m i l) (ebind (look f) k)"
proof (rule keepsI)
  fix s y s' assume s: "secret sv m i l s" and run: "ebind (look f) k s = (y, s')"
  then have "k (f (ss_db s)) s = (y, s')" "kept_private m i l (ss_db s)"
    by (simp_all add: ebind_def look_def eget_def secret_def)
  with keepsD [OF assms] s show "secret sv m i l s'" by blast
qed

lemma keeps_get_note:
  assumes "n \<in> set NOTES" "\<And>r. id_of r = Some j \<Longrightarrow> (m = n \<and> j = i \<longrightarrow> withheld r) \<Longrightarrow> keeps (secret sv m i l) (k (load r))"
  shows "keeps (secret sv m i l) (ebind (get_entity n j) k)"
  unfolding get_entity_def ebind_assoc
proof (rule keeps_look)
  fix d assume d: "kept_private m i l d"
  show "keeps (secret sv m i l) (ebind (case get_row (rp_tables d) n j of None \<Rightarrow> eraise (NotFoundError (m_table n) j) | Some r \<Rightarrow> eret (load r)) k)"
  proof (cases "get_row (rp_tables d) n j")
    case (Some r)
    then have "(j, r) \<in> set (rp_tables d (m_table n))" by (auto simp: get_row_def dest: map_of_SomeD)
    with d assms(1) have "id_of r = Some j" "m = n \<and> j = i \<longrightarrow> withheld r" by (auto simp: kept_private_def)
    with Some assms(2) [of r] show ?thesis by (simp add: ebind_eret)
  qed (simp add: ebind_eraise keeps_eraise)
qed

lemma keeps_write_audit:
  assumes "ref = ref_to (m_table m) i \<Longrightarrow> before = None \<and> after = None"
  shows "keeps (secret sv m i l) (write_audit sv action ref before after ts)"
  unfolding write_audit_def
proof (rule keeps_ebind [OF keeps_secret_prims(1)], rule keeps_look)
  fix v d assume d: "kept_private m i l d"
  show "keeps (secret sv m i l) (ebind (elift TrailError (audit_write (sv_H sv) (v\<lparr>env_now := ts\<rparr>) (sv_actor sv)
      (lit action) (sv_source sv) (Some ref) before after (rp_trail d))) (\<lambda>(_, t'). mod_db (\<lambda>d. d\<lparr>rp_trail := t'\<rparr>)))"
  proof (cases "audit_write (sv_H sv) (v\<lparr>env_now := ts\<rparr>) (sv_actor sv) (lit action) (sv_source sv) (Some ref) before after (rp_trail d)")
    case (Inr p)
    obtain r t' where p: "p = (r, t')" by force
    note w = audit_write_Inr [OF Inr [unfolded p]]
    have "\<forall>a \<in> set t'. ar_object a = Some (ref_to (m_table m) i) \<longrightarrow> ar_before a = None \<and> ar_after a = None"
      using d w(1,6-8) assms by (auto simp: kept_private_def)
    then have "keeps (secret sv m i l) (mod_db (\<lambda>d. d\<lparr>rp_trail := t'\<rparr>))"
      by (intro keeps_secret_db) (simp add: kept_private_def)
    with Inr p show ?thesis by (simp add: elift_simps ebind_eret)
  qed (simp add: elift_simps ebind_eraise keeps_eraise)
qed

lemma keeps_emit_team:
  assumes "n = m \<Longrightarrow> object_id ob = i \<Longrightarrow> \<not> is_team ob" "n \<in> set NOTES" "m \<in> set NOTES"
  shows "keeps (secret sv m i l) (emit_team_only sv n ob opn pl)"
proof (cases "sv_sink sv")
  case (Some k)
  show ?thesis unfolding emit_team_only_def emit_event_def Some option.case
  proof (rule keeps_if, rule keeps_ebind [OF keeps_secret_prims(1)], rule keeps_look)
    fix v d assume team: "is_team ob"
    let ?e = "\<lparr>de_collection = m_table n, de_entity_id = object_id ob, de_op = opn, de_payload = pl,
      de_base_rev = None, de_committed_rev = None\<rparr>"
    show "keeps (secret sv m i l) (ebind (elift LogError (emit (sv_ed sv) (env_id v) k ?e (rp_log d))) (\<lambda>l'. mod_db (\<lambda>d. d\<lparr>rp_log := l'\<rparr>)))"
      if d: "kept_private m i l d"
    proof (cases "emit (sv_ed sv) (env_id v) k ?e (rp_log d)")
      case (Inr l')
      then obtain ev where ev: "emit_signed (sv_ed sv) k (emit_envelope (env_id v) k ?e (rp_log d)) = Inr ev"
        "l' = rp_log d @ [make_row ev None None]" by (rule emit_row)
      have "\<not> concerns m i (make_row ev None None)"
        using emit_signed_envelope [OF ev(1)] assms team by (auto simp: concerns_def NOTES_def MemoryEntry_def MemoryLink_def)
      then have "keeps (secret sv m i l) (mod_db (\<lambda>d. d\<lparr>rp_log := l'\<rparr>))"
        using d ev(2) by (intro keeps_secret_db) (auto simp: kept_private_def)
      with Inr show ?thesis by (simp add: elift_simps ebind_eret)
    qed (simp add: elift_simps ebind_eraise keeps_eraise)
  qed (rule keeps_eret)
qed (simp add: emit_team_only_def emit_event_def keeps_intros)

text \<open>Inserting, updating and deleting a note.\<close>

lemma keeps_on_tables:
  assumes "\<And>d ts. kept_private m i l d \<Longrightarrow> f (rp_tables d) = Inr ts \<Longrightarrow> kept_private m i l (d\<lparr>rp_tables := ts\<rparr>)"
  shows "keeps (secret sv m i l) (on_tables f)"
proof (rule keepsI)
  fix s y s' assume s: "secret sv m i l s" and run: "on_tables f s = (y, s')"
  then show "secret sv m i l s'"
    using assms [of "ss_db s"] by (cases y) (auto simp: on_tables_Inr on_tables_Inl secret_def)
qed

lemma dset_members: "(j, r) \<in> set (dset i x d) \<Longrightarrow> j = i \<and> r = x \<or> (j, r) \<in> set d"
  by (induction d) (auto split: if_splits)

lemma kept_put_row:
  assumes "kept_private m i l d" "n \<in> set NOTES" "m \<in> set NOTES" "id_of r = Some j" "n = m \<Longrightarrow> j = i \<Longrightarrow> withheld r"
  shows "kept_private m i l (d\<lparr>rp_tables := put_row n j r (rp_tables d)\<rparr>)"
proof -
  have tabs: "m_table MemoryEntry \<noteq> m_table MemoryLink" by (simp add: MemoryEntry_def MemoryLink_def)
  have "id_of x = Some k" if "p \<in> set NOTES" "(k, x) \<in> set (put_row n j r (rp_tables d) (m_table p))" for p k x
    using that assms(1,2,4) by (auto simp: kept_private_def put_row_def dest!: dset_members split: if_splits)
  moreover have "withheld x" if "(i, x) \<in> set (put_row n j r (rp_tables d) (m_table m))" for x
    using that assms tabs by (auto simp: kept_private_def put_row_def NOTES_def dest!: dset_members split: if_splits)
  ultimately show ?thesis using assms(1) by (auto simp: kept_private_def)
qed

lemma kept_delete:
  assumes "kept_private m i l d"
  shows "kept_private m i l (d\<lparr>rp_tables := (rp_tables d)(c := AList.delete j (rp_tables d c))\<rparr>)"
  using assms unfolding kept_private_def by (auto simp: AList.delete_eq)

lemma keeps_delete [keeps_intros]: "keeps (secret sv m i l) (on_tables (row_delete n j))"
  by (rule keeps_on_tables) (auto simp: row_delete_def kept_delete split: if_splits)

lemma keeps_update:
  assumes "n \<in> set NOTES" "m \<in> set NOTES" "id_of r = Some j" "n = m \<Longrightarrow> j = i \<Longrightarrow> withheld r"
  shows "keeps (secret sv m i l) (on_tables (row_update n j r))"
proof (rule keeps_on_tables)
  fix d ts assume d: "kept_private m i l d" and run: "row_update n j r (rp_tables d) = Inr ts"
  from run assms(3) have "ts = put_row n j r (rp_tables d)" by (simp add: row_update_def rbind_Inr_iff)
  with kept_put_row [OF d assms] show "kept_private m i l (d\<lparr>rp_tables := ts\<rparr>)" by simp
qed

lemma keeps_flush_new:
  assumes "n \<in> set NOTES" "m \<in> set NOTES" "dget flds (lit ''id'') = None" "\<And>ob. object_id ob \<noteq> i \<Longrightarrow> keeps (secret sv m i l) (k ob)"
  shows "keeps (secret sv m i l) (ebind (flush_new sv n flds) k)"
proof (rule keepsI)
  fix s y s' assume s: "secret sv m i l s" and run: "ebind (flush_new sv n flds) k s = (y, s')"
  define v where "v = sv_env sv (ss_fresh s)"
  define ob where "ob = new_object v n flds"
  have id: "id_of (to_row ob) = Some (env_id v)"
    unfolding ob_def by (rule id_of_new_object [OF _ assms(3)]) (use assms(1) in \<open>auto simp: NOTES_def model_ok_NOTES\<close>)
  have new: "env_id v \<noteq> i" using s by (simp add: secret_def v_def)
  have s1: "secret sv m i l (s\<lparr>ss_fresh := Suc (ss_fresh s)\<rparr>)" using s by (simp add: secret_def)
  have ins: "keeps (secret sv m i l) (on_tables (row_insert n (to_row ob)))"
  proof (rule keeps_on_tables)
    fix d ts assume d: "kept_private m i l d" and ins: "row_insert n (to_row ob) (rp_tables d) = Inr ts"
    from ins have "ts = put_row n (env_id v) (to_row ob) (rp_tables d)" by (simp add: row_insert_def id rbind_Inr_iff split: if_splits)
    with kept_put_row [OF d assms(1,2) id] new show "kept_private m i l (d\<lparr>rp_tables := ts\<rparr>)" by simp
  qed
  have "keeps (secret sv m i l) (eseq (on_tables (row_insert n (to_row ob))) (k ob))"
    by (intro keeps_eseq ins assms(4)) (use object_id_id_of [OF id] new in simp)
  moreover have "ebind (flush_new sv n flds) k s = eseq (on_tables (row_insert n (to_row ob))) (k ob) (s\<lparr>ss_fresh := Suc (ss_fresh s)\<rparr>)"
    unfolding flush_new_def Let_def eseq_def ebind_assoc ebind_eret
    by (simp only: ebind_def fresh_env_def v_def ob_def prod.case sum.case)
  ultimately show "secret sv m i l s'" using keepsD s1 run by (metis)
qed

lemma keeps_lift:
  assumes "\<And>y. x = Inr y \<Longrightarrow> keeps P (k y)"
  shows "keeps P (ebind (lift x) k)"
  using assms by (cases x) (auto simp: lift_def elift_simps ebind_eret ebind_eraise keeps_intros)

section \<open>The operations\<close>

lemma ref_to_inject [simp]: "ref_to c i = ref_to c j \<longleftrightarrow> i = j"
  by (simp add: ref_to_def)

lemma ref_to_notes [simp]:
  "ref_to (m_table MemoryEntry) i \<noteq> ref_to (m_table MemoryLink) j" "ref_to (m_table Ticket) i \<noteq> ref_to (m_table MemoryEntry) j"
  "ref_to (m_table Ticket) i \<noteq> ref_to (m_table MemoryLink) j"
  by (simp_all add: ref_to_def MemoryEntry_def MemoryLink_def Ticket_def lit_def)

lemma note_models [simp]: "MemoryEntry \<in> set NOTES" "MemoryLink \<in> set NOTES" "MemoryEntry \<noteq> MemoryLink"
  by (simp_all add: NOTES_def MemoryEntry_def MemoryLink_def)

lemma note_cases: "m \<in> set NOTES \<Longrightarrow> m = MemoryEntry \<or> m = MemoryLink"
  by (simp add: NOTES_def)

lemma withheld_load: "withheld r \<Longrightarrow> \<not> is_team (load r)"
  by (simp add: withheld_def is_team_def attr_load)

lemma object_id_load: "id_of r = Some j \<Longrightarrow> object_id (load r) = j"
  using object_id_id_of [of "load r" j] by simp

lemma keeps_audit_entry:
  assumes "m \<in> set NOTES" "m = MemoryEntry \<Longrightarrow> object_id ob = i \<Longrightarrow> before = None \<and> (after_none \<or> \<not> is_team ob)"
  shows "keeps (secret sv m i l) (audit_entry_write sv action ob before after_none ts)"
  unfolding audit_entry_write_def
  by (rule keeps_write_audit) (use assms note_cases [OF assms(1)] in auto)

lemma keeps_write_entry:
  assumes "m \<in> set NOTES" "dget flds (lit ''id'') = None" "\<And>ob. keeps (secret sv m i l) (extra ob)"
  shows "keeps (secret sv m i l) (write_entry sv action flds extra ts)"
  unfolding write_entry_def
  by (intro keeps_flush_new keeps_eseq keeps_audit_entry keeps_emit_team keeps_secret_prims keeps_eret assms) (use assms in auto)

lemma slot_cell [simp]: "loaded c = Js y \<longleftrightarrow> c = Cell y" "stored x = Cell y \<longleftrightarrow> x = Js y"
  by (cases c; simp) (cases x; simp)

lemma cell_of_same: "dget ob f = dget (load r) f \<Longrightarrow> cell_of (to_row ob) f = cell_of r f"
  by (cases "dget r f") (simp_all add: cell_of_def dget_views)

lemma dget_dupdate_cases: "dget (dupdate d e) f = Some x \<Longrightarrow> (f, x) \<in> set e \<or> dget d f = Some x"
proof (induction e arbitrary: d)
  case (Cons p e)
  then show ?case by (cases p) (fastforce simp: dupdate_Cons split: if_splits)
qed simp

lemma keeps_set_entry:
  assumes m: "m \<in> set NOTES" and r: "id_of r = Some j" "m = MemoryEntry \<and> j = i \<longrightarrow> withheld r"
    and ch: "lit ''id'' \<notin> fst ` set ch" "lit ''visibility'' \<notin> fst ` set ch"
    and hid: "m = MemoryEntry \<Longrightarrow> j = i \<Longrightarrow> before = None \<and> (lit ''review_status'', Js (PStr (lit ''proposed''))) \<notin> set ch"
  shows "keeps (secret sv m i l) (set_entry sv action (load r) before ch ts)"
proof -
  define ob where "ob = dset (lit ''updated_at'') (At (Naive ts)) (dupdate (load r) ch)"
  have same: "dget ob f = dget (load r) f" if "f \<notin> fst ` set ch" "f \<noteq> lit ''updated_at''" for f
    using that by (simp add: ob_def dget_dupdate_other)
  have id: "id_of (to_row ob) = Some j"
    using r(1) cell_of_same [OF same [OF ch(1)]] by (simp add: id_of_def)
  have vis: "cell_of (to_row ob) (lit ''visibility'') = cell_of r (lit ''visibility'')" "attr ob ''visibility'' = attr (load r) ''visibility''"
    using same [OF ch(2)] cell_of_same [OF same [OF ch(2)]] by (simp_all add: attr_def)
  have hidden: "withheld (to_row ob) \<and> \<not> is_team ob \<and> before = None" if "m = MemoryEntry" "j = i"
  proof -
    have w: "withheld r" using r(2) that by simp
    have "dget ob (lit ''review_status'') \<noteq> Some (Js (PStr (lit ''proposed'')))"
      using hid [OF that] w dget_dupdate_cases [of "load r" ch "lit ''review_status''"]
      by (auto simp: ob_def withheld_def dget_views cell_of_def split: option.splits)
    then have "cell_of (to_row ob) (lit ''review_status'') \<noteq> Cell (PStr (lit ''proposed''))"
      by (auto simp: cell_of_def dget_views split: option.splits)
    with w withheld_load [OF w] hid [OF that] vis show ?thesis by (simp add: withheld_def is_team_def)
  qed
  have "object_id ob = j" using object_id_id_of [OF id] .
  with id hidden m show ?thesis
    unfolding set_entry_def Let_def ob_def [symmetric] flush_set_def
    by (intro keeps_eseq keeps_update keeps_audit_entry keeps_emit_team keeps_secret_prims keeps_eret) auto
qed

lemma vocab_value: "vocab_field f vs ch = Inr ch' \<Longrightarrow> ch' = ch \<and> (\<forall>x. dget ch (lit f) = Some x \<longrightarrow> in_vocab vs x)"
  by (auto simp: vocab_field_def when_given_def rbind_Inr_iff split: option.splits)

lemma same_keys_chain:
  "rbind x f = Inr z \<Longrightarrow> (\<And>c. x = Inr c \<Longrightarrow> same_keys a c) \<Longrightarrow> (\<And>c. same_keys a c \<Longrightarrow> f c = Inr z \<Longrightarrow> same_keys a z) \<Longrightarrow> same_keys a z"
  by (auto simp: rbind_Inr_iff)

lemma memory_field_keys:
  assumes "validated_fields sv ch = Inr ch'"
  shows "same_keys ch ch'"
proof -
  have refs: "same_keys c c'" if "refs_field c = Inr c'" for c c'
    using that by (auto simp: refs_field_def when_given_def rbind_Inr_iff same_keys_dset
        split: option.splits slot.splits pyval.splits)
  have prov: "c' = c" if "provenance_field c = Inr c'" for c c'
    using that by (auto simp: provenance_field_def when_given_def rbind_Inr_iff split: option.splits slot.splits pyval.splits)
  have body: "c' = c" if "when_given c ''body'' (\<lambda>x. rbind (ensure (length (str_of sv x) \<le> BODY_MAX)) (\<lambda>_. Inr c)) = Inr c'" for c c'
    using that by (auto simp: when_given_def rbind_Inr_iff split: option.splits)
  have same: "same_keys c c'"
    if "refs_field c = Inr c' \<or> provenance_field c = Inr c' \<or> vocab_field f vs c = Inr c' \<or> strip_field sv f n c = Inr c' \<or>
      when_given c ''body'' (\<lambda>x. rbind (ensure (length (str_of sv x) \<le> BODY_MAX)) (\<lambda>_. Inr c)) = Inr c'" for c c' f n vs
    using that by (elim disjE) (auto dest!: prov body intro: refs field_keys(1,2))
  from assms show ?thesis
    unfolding validated_fields_def
    by (elim same_keys_chain) (rule same, blast | rule same_keys_trans, assumption, rule same, blast
      | simp, erule same_keys_trans, drule sym, simp add: field_keys(5))+
qed

lemma create_entry_private:
  assumes "m \<in> set NOTES"
  shows "keeps (secret sv m i l) (create_entry sv title body t source space vis confidence refs provenance expires)"
  unfolding create_entry_def
proof (intro keeps_eseq keeps_secret_prims, rule keeps_lift, rule keeps_ebind [OF keeps_secret_prims(2)])
  fix flds ts
  assume v: "validated_fields sv [(lit ''title'', Js (PStr title)), (lit ''body'', Js (PStr body)), (lit ''type'', Js (PStr t)),
        (lit ''source'', Js (PStr source)), (lit ''space'', Js (PStr space)), (lit ''confidence'', Js (PStr confidence)),
        (lit ''linked_entities'', Js (PList (map PStr (case refs of None \<Rightarrow> [] | Some xs \<Rightarrow> xs)))),
        (lit ''provenance'', Js (pdict (case provenance of None \<Rightarrow> [] | Some p \<Rightarrow> p))),
        (lit ''expires_at'', opt_moment expires)] = Inr flds"
  have "dget flds (lit ''id'') = None"
    using memory_field_keys [OF v] by (simp add: same_keys_def map_of_eq_None_iff lit_def)
  then show "keeps (secret sv m i l) (let prov = (case attr flds ''provenance'' of Js p \<Rightarrow> set_defaults
           [(lit ''origin'', PStr (text_value (attr flds ''source''))), (lit ''actor_id'', PStr (sv_actor sv)),
            (lit ''captured_at'', PStr (sv_iso sv ts))] p | _ \<Rightarrow> PNone) in
     write_entry sv ''memory.create''
       ([(lit ''created_by'', Js (PStr (sv_actor sv))), (lit ''visibility'', Js (PStr vis))] @ stamps ts @
        dset (lit ''provenance'') (Js prov) flds) (\<lambda>_. eret ()) ts)"
    unfolding Let_def by (intro keeps_write_entry assms keeps_eret) (simp add: stamps_def lit_def map_add_def)
qed

lemma update_entry_private:
  assumes "m \<in> set NOTES" "dict_ok ch"
  shows "keeps (secret sv m i l) (update_entry sv j ch)"
  unfolding update_entry_def get_entry_def
proof (rule keeps_get_note [OF note_models(1)], intro keeps_eseq keeps_secret_prims, rule keeps_lift, rule keeps_ebind [OF keeps_secret_prims(2)])
  fix r ch' ts
  assume r: "id_of r = Some j" "m = MemoryEntry \<and> j = i \<longrightarrow> withheld r"
    and v: "rbind (known_fields MEMORY_PATCHABLE ch) (\<lambda>_. rbind (validated_fields sv ch)
      (\<lambda>ch. vocab_field ''review_status'' WRITABLE_REVIEW_STATUSES ch)) = Inr ch'"
  then have keys: "known_fields MEMORY_PATCHABLE ch = Inr ()" "same_keys ch ch'"
    and st: "\<And>x. dget ch' (lit ''review_status'') = Some x \<Longrightarrow> in_vocab WRITABLE_REVIEW_STATUSES x"
    by (auto simp: rbind_Inr_iff dest!: vocab_value memory_field_keys)
  have sub: "fst ` set ch' \<subseteq> set MEMORY_PATCHABLE" by (rule known_keys [OF keys])
  have "lit ''id'' \<notin> set MEMORY_PATCHABLE" "lit ''visibility'' \<notin> set MEMORY_PATCHABLE"
    by (simp_all add: MEMORY_PATCHABLE_def lit_def)
  with sub have "lit ''id'' \<notin> fst ` set ch'" "lit ''visibility'' \<notin> fst ` set ch'" by blast+
  moreover have "(lit ''review_status'', Js (PStr (lit ''proposed''))) \<notin> set ch'"
  proof
    assume "(lit ''review_status'', Js (PStr (lit ''proposed''))) \<in> set ch'"
    then have "dget ch' (lit ''review_status'') = Some (Js (PStr (lit ''proposed'')))"
      using keys(2) assms(2) by (auto simp: same_keys_def dict_ok_def intro: map_of_is_SomeI)
    from st [OF this] show False by (simp add: in_vocab_def WRITABLE_REVIEW_STATUSES_def lit_def)
  qed
  moreover have "m = MemoryEntry \<Longrightarrow> j = i \<Longrightarrow> \<not> is_team (load r)" using r(2) withheld_load by blast
  ultimately show "keeps (secret sv m i l)
      (set_entry sv ''memory.update'' (load r) (if is_team (load r) then Some (snapshot sv (load r)) else None) ch' ts)"
    by (intro keeps_set_entry [OF assms(1) r]) auto
qed

lemma promote_private:
  assumes "m \<in> set NOTES"
  shows "keeps (secret sv m i l) (promote sv j)"
  unfolding promote_def get_entry_def
proof (rule keeps_get_note [OF note_models(1)], rule keeps_ebind [OF keeps_secret_prims(2)], rule keeps_if)
  fix r ts assume r: "id_of r = Some j"
  show "keeps (secret sv m i l) (promote_local_copy sv (load r) ts)" if "attr (load r) ''visibility'' = Js (PStr (lit ''local''))"
  proof -
    have "\<not> is_team (load r)" using that by (simp add: is_team_def lit_def)
    moreover have "dget (filter (\<lambda>(f, _). f \<in> set PROMOTABLE_FIELDS) (load r)) (lit ''id'') = None"
      by (auto simp: map_of_eq_None_iff PROMOTABLE_FIELDS_def lit_def)
    ultimately show ?thesis unfolding promote_local_copy_def
      by (intro keeps_write_entry keeps_audit_entry assms) (simp_all add: stamps_def lit_def map_add_def)
  qed
next
  fix r ts assume r: "id_of r = Some j" "m = MemoryEntry \<and> j = i \<longrightarrow> withheld r"
    and team: "attr (load r) ''visibility'' \<noteq> Js (PStr (lit ''local''))"
  have "\<not> (m = MemoryEntry \<and> j = i)" using r(2) team by (auto simp: withheld_def attr_load)
  then show "keeps (secret sv m i l) (eseq (require (in_vocab WRITABLE_REVIEW_STATUSES (attr (load r) ''review_status'')))
      (promote_team_in_place sv (load r) ts))"
    unfolding promote_team_in_place_def
    by (intro keeps_eseq keeps_secret_prims keeps_set_entry [OF assms r]) (auto simp: lit_def)
qed

lemma decide_entry_private:
  assumes m: "m \<in> set NOTES"
  shows "keeps (secret sv m i l) (decide_entry sv j st action)"
  unfolding decide_entry_def get_entry_def
proof (rule keeps_get_note [OF note_models(1)], rule keeps_ebind [OF keeps_secret_prims(2)], rule keeps_look)
  fix r0 ts d
  assume r0: "id_of r0 = Some j" and d: "kept_private m i l d"
  note ob = object_id_load [OF r0]
  have refused: "keeps (secret sv m i l) (eseq rollback (eraise ConflictError))" for ob :: object
    by (intro keeps_eseq keeps_secret_prims keeps_eraise)
  show "keeps (secret sv m i l) (case get_row (rp_tables d) MemoryEntry (object_id (load r0)) of
       None \<Rightarrow> eseq rollback (eraise ConflictError)
     | Some r \<Rightarrow>
         if cell_of r (lit ''review_status'') \<noteq> Cell (PStr (lit ''proposed'')) then eseq rollback (eraise ConflictError)
         else
           let ob' = load (dset (lit ''updated_at'') (Time ts) (dset (lit ''review_status'') (Cell (PStr (lit st))) r));
               after = snapshot sv ob' in
           eseq (on_tables (row_update MemoryEntry (object_id (load r0)) (to_row ob')))
           (eseq (audit_entry_write sv action ob' (Some (snapshot sv (load r0))) False ts)
           (eseq (emit_team_only sv MemoryEntry ob' op_patch
                   (patch_payload after [(lit ''review_status'', Js PNone)]))
           (eseq commit (eret ob')))))"
  proof (cases "get_row (rp_tables d) MemoryEntry j")
    case (Some r)
    show ?thesis
    proof (cases "cell_of r (lit ''review_status'') = Cell (PStr (lit ''proposed''))")
      case True
      define r' where "r' = dset (lit ''updated_at'') (Time ts) (dset (lit ''review_status'') (Cell (PStr (lit st))) r)"
      have mem: "(j, r) \<in> set (rp_tables d (m_table MemoryEntry))" using Some by (auto simp: get_row_def dest: map_of_SomeD)
      with d have "id_of r = Some j" by (auto simp: kept_private_def NOTES_def)
      then have id: "id_of r' = Some j" by (simp add: r'_def id_of_def cell_of_def lit_def)
      have other: "\<not> (m = MemoryEntry \<and> j = i)" using d mem True by (auto simp: kept_private_def withheld_def)
      note parts = object_id_load [OF id]
      have "keeps (secret sv m i l) (eseq (on_tables (row_update MemoryEntry j r'))
         (eseq (audit_entry_write sv action (load r') (Some (snapshot sv (load r0))) False ts)
         (eseq (emit_team_only sv MemoryEntry (load r') op_patch (patch_payload (snapshot sv (load r')) [(lit ''review_status'', Js PNone)]))
         (eseq commit (eret (load r'))))))"
        by (intro keeps_eseq keeps_update keeps_audit_entry keeps_emit_team keeps_secret_prims keeps_eret)
          (use id parts other m in auto)
      with Some True show ?thesis by (simp add: Let_def ob r'_def)
    qed (simp add: Some ob refused)
  qed (simp add: ob refused)
qed

lemma links_members: "ob \<in> set (links_of ts j) \<Longrightarrow> \<exists>k r. (k, r) \<in> set (ts (m_table MemoryLink)) \<and> ob = load r"
  by (auto simp: links_of_def all_rows_def) blast

lemma delete_entry_private:
  assumes "m \<in> set NOTES"
  shows "keeps (secret sv m i l) (delete_entry sv j)"
  unfolding delete_entry_def get_entry_def links_for_entry_def ebind_assoc ebind_eret
proof (rule keeps_get_note [OF note_models(1)], rule keeps_ebind [OF keeps_secret_prims(8)], rule keeps_look,
    rule keeps_ebind [OF keeps_secret_prims(2)])
  fix r d ts assume r: "id_of r = Some j" "m = MemoryEntry \<and> j = i \<longrightarrow> withheld r" and d: "kept_private m i l d"
  have link: "m = MemoryLink \<Longrightarrow> object_id ob = i \<Longrightarrow> \<not> is_team ob" if mem: "ob \<in> set (links_of (rp_tables d) j)" for ob
  proof -
    assume m: "m = MemoryLink" and i: "object_id ob = i"
    obtain k x where x: "(k, x) \<in> set (rp_tables d (m_table MemoryLink))" "ob = load x" using links_members [OF mem] by blast
    with d have "id_of x = Some k" by (auto simp: kept_private_def)
    with i x(2) object_id_load have "k = i" by metis
    with d x m have "withheld x" by (auto simp: kept_private_def)
    with withheld_load x(2) show "\<not> is_team ob" by simp
  qed
  have "keeps (secret sv m i l) (delete_link sv ob)" if "ob \<in> set (links_of (rp_tables d) j)" for ob
    unfolding delete_link_def using link [OF that] assms by (intro keeps_eseq keeps_emit_team keeps_delete) auto
  moreover have "m = MemoryEntry \<Longrightarrow> object_id (load r) = i \<Longrightarrow> \<not> is_team (load r)"
    using r object_id_load withheld_load by blast
  ultimately show "keeps (secret sv m i l) (eseq (efor (delete_link sv) (links_of (rp_tables d) j))
     (eseq (audit_entry_write sv ''memory.delete'' (load r) (if is_team (load r) then Some (snapshot sv (load r)) else None) True ts)
     (eseq (emit_team_only sv MemoryEntry (load r) op_tombstone [])
     (eseq (on_tables (row_delete MemoryEntry (object_id (load r)))) commit))))"
    using assms by (intro keeps_eseq keeps_efor keeps_audit_entry keeps_emit_team keeps_delete keeps_secret_prims) auto
qed

lemma link_private:
  assumes "m \<in> set NOTES"
  shows "keeps (secret sv m i l) (link sv j ticket reason)"
  unfolding link_def get_entry_def get_ticket_def Let_def
proof (rule keeps_get_note [OF note_models(1)], rule keeps_ebind [OF keeps_secret_prims(8)],
    intro keeps_eseq keeps_secret_prims, rule keeps_look, intro keeps_eseq keeps_secret_prims,
    rule keeps_ebind [OF keeps_secret_prims(2)], rule keeps_flush_new)
  fix r d ts ob assume "object_id ob \<noteq> i"
  then show "keeps (secret sv m i l) (eseq (if is_team (load r)
        then write_audit sv ''memory.link'' (ref_to (m_table Ticket) ticket) None (Some (snapshot sv ob)) ts
        else write_audit sv ''memory.link'' (ref_to (m_table MemoryEntry) j) None None ts)
     (eseq (emit_team_only sv MemoryLink ob op_patch (snapshot sv ob)) (eseq commit (eret (load (to_row ob))))))"
    using assms note_cases [OF assms]
    by (intro keeps_eseq keeps_if keeps_write_audit keeps_emit_team keeps_secret_prims keeps_eret) auto
qed (use assms in \<open>auto simp: stamps_def lit_def\<close>)

section \<open>Requests\<close>

inductive memory_op :: "service \<Rightarrow> unit svc \<Rightarrow> bool" for sv where
  "memory_op sv (ignore (create_entry sv title body t source space vis confidence refs provenance expires))"
| "dict_ok ch \<Longrightarrow> memory_op sv (ignore (update_entry sv j ch))"
| "memory_op sv (ignore (promote sv j))"
| "memory_op sv (ignore (approve_entry sv j))"
| "memory_op sv (ignore (reject_entry sv j))"
| "memory_op sv (delete_entry sv j)"
| "memory_op sv (ignore (link sv j ticket reason))"

lemma memory_op_private: "memory_op sv p \<Longrightarrow> m \<in> set NOTES \<Longrightarrow> keeps (secret sv m i l) p"
  by (induction rule: memory_op.induct)
    (simp_all add: ignore_def keeps_ebind keeps_eret create_entry_private update_entry_private promote_private
      approve_entry_def reject_entry_def decide_entry_private delete_entry_private link_private)

text \<open>Requests one after the other; whatever a request left uncommitted is gone.\<close>

inductive memory_runs :: "service \<Rightarrow> session \<Rightarrow> session \<Rightarrow> bool" for sv where
  memory_refl: "memory_runs sv s s"
| memory_step: "memory_runs sv s t \<Longrightarrow> memory_op sv p \<Longrightarrow> memory_runs sv s (snd (request p t))"

lemma memory_runs_private: "memory_runs sv s t \<Longrightarrow> m \<in> set NOTES \<Longrightarrow> secret sv m i l s \<Longrightarrow> secret sv m i l t"
proof (induction rule: memory_runs.induct)
  case (memory_step s t p)
  obtain r u where u: "p t = (r, u)" by force
  from keepsD [OF memory_op_private [OF memory_step.hyps(2) memory_step.prems(1)] u memory_step.IH [OF memory_step.prems]]
  show ?case by (simp add: request_def u secret_def)
qed

section \<open>The agents' read path\<close>

text \<open>Entries are told apart by their identifiers.\<close>

definition entries_keyed :: "tables \<Rightarrow> bool" where
  "entries_keyed ts \<longleftrightarrow> dict_ok (ts (m_table MemoryEntry)) \<and> (\<forall>(j, r) \<in> set (ts (m_table MemoryEntry)). id_of r = Some j)"

lemma entry_ids_inj: "entries_keyed ts \<Longrightarrow> inj_on object_id (set (all_rows ts MemoryEntry))"
proof (rule inj_onI)
  fix x y assume ts: "entries_keyed ts" and mem: "x \<in> set (all_rows ts MemoryEntry)" "y \<in> set (all_rows ts MemoryEntry)"
    and eq: "object_id x = object_id y"
  then obtain i j r q where rows: "(i, r) \<in> set (ts (m_table MemoryEntry))" "(j, q) \<in> set (ts (m_table MemoryEntry))"
    "x = load r" "y = load q" unfolding all_rows_def by (simp, elim imageE) (simp add: prod.split_sel, metis prod.collapse snd_conv)
  with ts have "id_of r = Some i" "id_of q = Some j" by (auto simp: entries_keyed_def)
  with eq rows(3,4) have "i = j" by (simp add: object_id_load)
  moreover have "dget (ts (m_table MemoryEntry)) i = Some r" "dget (ts (m_table MemoryEntry)) j = Some q"
    using ts rows(1,2) by (simp_all add: entries_keyed_def dict_ok_def map_of_is_SomeI)
  ultimately have "r = q" by simp
  with rows(3,4) show "x = y" by simp
qed

lemma lookup_by_id:
  assumes "inj_on g A" "set xs \<subseteq> A" "x \<in> A"
  shows "dget (List.rev (map (\<lambda>x. (g x, f x)) xs)) (g x) = (if x \<in> set xs then Some (f x) else None)"
proof (cases "dget (List.rev (map (\<lambda>x. (g x, f x)) xs)) (g x)")
  case None
  then have "g x \<notin> g ` set xs" by (simp add: map_of_eq_None_iff image_image)
  with None show ?thesis by auto
next
  case (Some v)
  then obtain y where "y \<in> set xs" "g y = g x" "v = f y" by (auto dest!: map_of_SomeD)
  with assms Some show ?thesis by (metis inj_onD subsetD)
qed

lemma search_partitions:
  fixes lo :: "pystr \<Rightarrow> pystr" and instant :: int and space t q :: "pystr option" and include_expired :: bool
    and ts :: tables and p :: memory_policy
  assumes "entries_keyed ts"
  defines "rows \<equiv> list_entries lo ts instant space t None q include_expired"
    and "res \<equiv> search_entries lo ts instant (Some p) space t q include_expired"
  shows "sr_included res = filter (\<lambda>ob. pd_included (decide p ob instant)) rows"
    and "sr_excluded res = map (\<lambda>ob. (ob, pd_reason (decide p ob instant))) (filter (\<lambda>ob. \<not> pd_included (decide p ob instant)) rows)"
proof -
  have sub: "set rows \<subseteq> set (all_rows ts MemoryEntry)" by (auto simp: rows_def list_entries_def newest_first_def)
  have inj: "inj_on object_id (set rows)" using entry_ids_inj [OF assms(1)] sub by (rule inj_on_subset)
  have "object_id ob \<in> object_id ` {x \<in> set rows. P x} \<longleftrightarrow> P ob" if "ob \<in> set rows" for ob P
    using inj that by (auto dest: inj_onD)
  then show "sr_included res = filter (\<lambda>ob. pd_included (decide p ob instant)) rows"
    by (simp add: res_def search_entries_def rows_def [symmetric] Let_def filter_entries_result cong: filter_cong)
  let ?bad = "filter (\<lambda>ob. \<not> pd_included (decide p ob instant)) rows"
  have "dget (List.rev (map (\<lambda>ob. (object_id ob, pd_reason (decide p ob instant))) ?bad)) (object_id ob) =
      (if pd_included (decide p ob instant) then None else Some (pd_reason (decide p ob instant)))" if "ob \<in> set rows" for ob
    using lookup_by_id [OF inj, of ?bad ob] that by auto
  then have "List.map_filter (\<lambda>ob. map_option (\<lambda>why. (ob, why)) (dget (List.rev (map (\<lambda>ob. (object_id ob, pd_reason (decide p ob instant))) ?bad)) (object_id ob))) xs =
      map (\<lambda>ob. (ob, pd_reason (decide p ob instant))) (filter (\<lambda>ob. \<not> pd_included (decide p ob instant)) xs)" if "set xs \<subseteq> set rows" for xs
    using that by (induction xs) (auto simp: List.map_filter_simps)
  from this [of rows] show "sr_excluded res = map (\<lambda>ob. (ob, pd_reason (decide p ob instant))) ?bad"
    by (simp add: res_def search_entries_def rows_def [symmetric] Let_def filter_entries_result comp_def)
qed

end
