(* ===== verification/Spec2Isabelle.thy ===== *)
theory Spec2Isabelle
  imports Convergence Proposals Privacy "HOL-Library.Code_Target_Numeral"
begin

text \<open>
kantaq: a local-first tracker for people and agents.  Every member has a replica, an SQLite database with the
  collection tables, an append-only event log, sync cursors and an audit trail.  Domain services validate a request,
  write rows, an audit entry and an event, and commit.  The sync engine pushes the log's pending events to a backend,
  pulls the committed ones and folds them into the tables.  Events are canonical bytes, signed with Ed25519 and
  authorised by capability grants.  This library models those parts of the Python code under \<open>src/packages\<close> and
  \<open>src/adapters/backend-postgres\<close> and proves what makes them correct.

  The modules and their theories:
  \<^item> \<open>packages/protocol\<close> (\<open>entities.py\<close>, \<open>canonical.py\<close>, \<open>signing.py\<close>, \<open>grants.py\<close>, \<open>hashing.py\<close>, \<open>merkle.py\<close>):
    \<open>Entities\<close>, \<open>Json\<close> (Python values, UTF-8, \<open>json.loads\<close>), \<open>Canonical\<close>, \<open>EventCodec\<close>, \<open>Signing\<close>, \<open>Grants\<close>,
    \<open>Sha256\<close>, \<open>Merkle\<close>.
  \<^item> \<open>packages/db\<close> (\<open>ids.py\<close>, \<open>meta.py\<close>, \<open>models.py\<close>): \<open>Ids\<close>, \<open>Meta\<close>, \<open>Schema\<close>; \<open>Store\<close> is one replica's database.
  \<^item> \<open>packages/sync_engine\<close> (\<open>log.py\<close>, \<open>apply.py\<close>, \<open>merge.py\<close>, \<open>verify.py\<close>, \<open>events.py\<close>, \<open>engine.py\<close>): \<open>EventLog\<close>,
    \<open>Fold\<close>, \<open>Apply\<close>, \<open>Merge\<close>, \<open>Verify\<close>, \<open>Port\<close>, \<open>Engine\<close> (handshake, push, pull, ack), \<open>Outbox\<close> (drain, bounce,
    retry, resolve).
  \<^item> \<open>adapters/backend-postgres\<close> (\<open>schema.py\<close>, \<open>commit.py\<close>, \<open>backend.py\<close>): \<open>Backend\<close>.
  \<^item> \<open>packages/core\<close>: \<open>Trail\<close> (\<open>audit.py\<close>), \<open>Relations\<close> and \<open>Graph\<close> (\<open>graph.py\<close> and the relation helpers),
    \<open>Lifecycle\<close> (\<open>lifecycle.py\<close>), \<open>Service\<close> (what the services share), \<open>Tracker\<close> (\<open>tracker/service.py\<close>), \<open>Proposals\<close>
    (\<open>proposals.py\<close>), \<open>Policy\<close> (\<open>memory_policy.py\<close>), \<open>Memory\<close> (\<open>memory/service.py\<close>).
  Definitions carry the source's names; a theory's opening text says where they differ.  Stateful code is a
  computation of \<open>Effects\<close>: a state goes in, an error or a value and the state it left come out, so an exception keeps
  the effects before it.  A service's session has an uncommitted view (\<open>ss_db\<close>) and the committed database
  (\<open>ss_stored\<close>); \<open>request\<close> is the end of a request, which discards what was not committed.

  What the lemmas show:
  \<^item> Protocol: \<open>Json\<close>, \<open>Canonical\<close>, \<open>EventCodec\<close>, \<open>Grants\<close>: decoding inverts encoding and every value has one
    spelling; \<open>Merkle\<close>: inclusion proofs are complete and sound, the chain is tamper evident; \<open>Ids\<close>: order and bounds.
  \<^item> Folding and merging: \<open>Fold\<close>, \<open>Apply\<close>, \<open>Merge\<close>: deletes stick, the fold does not depend on the order of delivery,
    and the merge decision does not depend on the replica.
  \<^item> Backend and engine: \<open>Backend\<close> commits all or nothing and meets the contract \<open>backend_port\<close> of \<open>Port\<close>.  Against any
    backend of that contract, \<open>Steps\<close>, \<open>Synced\<close>, \<open>Agreement\<close>, \<open>Delivery\<close>, \<open>Inbox\<close> and \<open>Outcome\<close> prove, for every operation
    however it ends, that logs only grow, commit orders are the backend's, a pull delivers everything above the cursor
    and a flush ends.  \<open>Team\<close> and \<open>Convergence\<close> lift this to many replicas: the abstract state is the committed history,
    and a replica that flushed and pulled shows its fold.
  \<^item> Services: \<open>Writes\<close> and \<open>Tracking\<close>: a request that fails leaves nothing, the tables stay typed; \<open>Faithful\<close>: every
    tracked row is the fold of its events; \<open>Structure\<close>: relationships stay acyclic and parent links a forest;
    \<open>Proposals\<close>: a decision is final, and where its tag is lost; \<open>Privacy\<close>: local notes never reach the log, and the
    agents' search returns what the policy admits.

  The interfaces are locales: \<open>digest_fn\<close> (interpreted on SHA-256), \<open>backend_port\<close> (interpreted on the self-hosted
  backend), \<open>progress\<close> and \<open>engine_steps\<close> (interpreted on the relations every operation keeps).

  Bounds and fuel: the JSON parser has the source's depth and size bounds.  The drain loop has fuel one more than the
  number of pending rows, since each round but the last takes a row out of the outbox (\<open>flush_is_bounded_and_drains\<close>
  shows it never runs out); the retry loop is bounded by the attempts of the backoff; pagination ends by the revisions
  left.  The walks back along the parents of a graph search have fuel the size of the parent dictionary, which no
  chain of distinct nodes exceeds.  Searches and the ancestor walk are recursions with a measure.

  Parameters: Ed25519 and the HTTP transport are third-party code (\<open>ed25519_ok\<close> states sizes and that an honest signature
  verifies); the digest of the audit chain, the clock, the identifiers, \<open>fromisoformat\<close>, the serialisers of datetimes,
  \<open>str()\<close> of other values and \<open>str.lower\<close> are arguments.  Hypotheses on them are named where a theorem uses them:
  \<open>codec_ok\<close> (serialising and reading a datetime gives its wall clock), fresh identifiers, \<open>authored_once\<close>.

  Not modelled: the column affinities of SQLite (a value of a wrong type is an error of the flush here) and non-string
  keys of \<open>session.get\<close>; texts of messages; telemetry rows.  HTTP and MCP front ends, the Supabase adapter, the command
  line, export and import and the migrations are transport and I/O around the modelled parts; member and token
  administration, retention, notifications, metrics, skills, context packs, evaluations and recommendations are reports
  or prompts on top of them, and nothing modelled depends on them.
\<close>

section \<open>Example inputs\<close>

text \<open>Concrete values on which the properties with hypotheses are shown to apply.  \<open>ed_example\<close> is a
  signature scheme that satisfies \<open>ed25519_ok\<close>, nothing more: it is not Ed25519.\<close>

definition ed_example :: ed25519 where
  "ed_example = \<lparr>ed_public = (\<lambda>s. s), ed_sign = (\<lambda>s m. s @ s), ed_verify = (\<lambda>pk s m. s = pk @ pk)\<rparr>"

definition key_example :: pystr where
  "key_example = concat (replicate 32 (lit ''0a''))"

definition event_example :: event where
  "event_example = \<lparr>event_id = lit ''e1'', collection = lit ''tickets'', entity_id = lit ''t1'',
     actor_id = lit ''a1'', actor_seq = 1, op = op_patch, base_rev = None, policy_ref = Some (lit ''g1''),
     payload = [(lit ''b'', PInt 2), (lit ''a'', PStr (lit ''x''))], sig = None\<rparr>"

definition grant_example :: grant where
  "grant_example = \<lparr>grant_id = lit ''g1'', subject = lit ''a1'', issuer = lit ''d1'', resource = lit ''w1'',
     verbs = [lit ''tickets.write''], issued_at = 10, expires_at = 20, revokes = None, grant_sig = None\<rparr>"

lemma ed_example_ok: "ed25519_ok ed_example"
  by (auto simp: ed25519_ok_def ed_example_def is_bytes_def)

lemma examples_defined:
  "case encode_canonical event_example of Inl _ \<Rightarrow> False | Inr _ \<Rightarrow> True"
  "case sign ed_example event_example key_example of Inl _ \<Rightarrow> False | Inr _ \<Rightarrow> True"
  "case encode_canonical_grant grant_example of Inl _ \<Rightarrow> False | Inr _ \<Rightarrow> True"
  "case sign_grant ed_example grant_example key_example of Inl _ \<Rightarrow> False | Inr _ \<Rightarrow> True"
  "case public_key_of ed_example key_example of Inl _ \<Rightarrow> False | Inr _ \<Rightarrow> True"
  by code_simp+

lemma payload_example: "payload_ok (payload event_example)"
  by (simp add: payload_ok_def event_example_def dict_ok_def)

lemma defined_Inr: "(case r of Inl _ \<Rightarrow> False | Inr _ \<Rightarrow> True) \<Longrightarrow> \<exists>x. r = Inr x"
  by (cases r) simp_all

section \<open>The canonical codec\<close>

text \<open>C9: An event that encodes decodes from its bytes to the same event (its payload in canonical key
  order, which Python's dictionary equality does not see).\<close>

theorem event_round_trip:
  assumes "encode_canonical e = Inr b" "payload_ok (payload e)"
  shows "decode fl b = Inr (normal_event e)"
  using assms by (rule decode_encode_canonical)

theorem event_round_trip_witness:
  "\<exists>b. encode_canonical event_example = Inr b \<and> decode (\<lambda>_. 0) b = Inr (normal_event event_example)"
  using defined_Inr [OF examples_defined(1)] payload_example event_round_trip by blast

text \<open>Every event has one spelling: bytes the decoder accepts are exactly what the encoder writes for the
  decoded event, so two byte strings that decode to the same event are equal.\<close>

theorem event_unique_spelling:
  assumes "decode fl b = Inr e" "decode fl c = Inr e"
  shows "encode_canonical e = Inr b \<and> b = c"
  using decode_canonical [OF assms(1)] decode_canonical [OF assms(2)] by simp

theorem event_unique_spelling_witness:
  "\<exists>b e. decode (\<lambda>_. 0) b = Inr e \<and> encode_canonical e = Inr b"
proof -
  obtain b where "encode_canonical event_example = Inr b" using defined_Inr [OF examples_defined(1)] by blast
  from decode_encode_canonical [OF this payload_example]
  have "decode (\<lambda>_. 0) b = Inr (normal_event event_example)" by simp
  with event_unique_spelling [OF this this] show ?thesis by blast
qed

text \<open>C29: What a signature covers determines the event: equal signing bytes mean equal events, up to payload
  key order and the signature field itself.\<close>

theorem signing_bytes_determine_event:
  assumes "signing_bytes e = Inr b" "signing_bytes e' = Inr b"
    and "payload_ok (payload e)" "payload_ok (payload e')"
  shows "normal_event e\<lparr>sig := None\<rparr> = normal_event e'\<lparr>sig := None\<rparr>"
  using assms by (rule signing_bytes_inj)

theorem signing_bytes_determine_event_witness:
  "\<exists>b. signing_bytes event_example = Inr b \<and>
     normal_event event_example\<lparr>sig := None\<rparr> =
     normal_event (event_example\<lparr>payload := [(lit ''a'', PStr (lit ''x'')), (lit ''b'', PInt 2)]\<rparr>)\<lparr>sig := None\<rparr>"
proof -
  let ?e = "event_example\<lparr>payload := [(lit ''a'', PStr (lit ''x'')), (lit ''b'', PInt 2)]\<rparr>"
  have "case signing_bytes event_example of Inl _ \<Rightarrow> False | Inr b \<Rightarrow> signing_bytes ?e = Inr b" by code_simp
  then obtain b where b: "signing_bytes event_example = Inr b" "signing_bytes ?e = Inr b"
    by (auto split: sum.splits)
  have "payload_ok (payload ?e)" by (simp add: payload_ok_def dict_ok_def)
  from signing_bytes_determine_event [OF b payload_example this] b(1) show ?thesis by blast
qed

section \<open>Signatures and grants\<close>

text \<open>A signed event verifies under the public key of the device that signed it.\<close>

theorem signed_event_verifies:
  assumes "ed25519_ok ed" "sign ed e k = Inr e'" "public_key_of ed k = Inr pk"
  shows "verify ed e' pk = Inr True"
  using assms by (rule verify_sign)

theorem signed_event_verifies_witness:
  "\<exists>e' pk. sign ed_example event_example key_example = Inr e' \<and> public_key_of ed_example key_example = Inr pk \<and>
     verify ed_example e' pk = Inr True"
  using defined_Inr [OF examples_defined(2)] defined_Inr [OF examples_defined(5)]
    signed_event_verifies [OF ed_example_ok] by blast

text \<open>No byte string is both an event's and a grant's signing message, so a signature of one can never be
  replayed as a signature of the other.\<close>

theorem event_grant_separation:
  "\<not> (signing_bytes e = Inr m \<and> grant_signing_bytes g = Inr m)"
  by (auto simp: signing_bytes_def grant_signing_bytes_def rbind_Inr_iff domains_differ)

text \<open>C38: A grant that encodes decodes from its bytes to the very same grant.\<close>

theorem grant_round_trip:
  assumes "encode_canonical_grant g = Inr b"
  shows "decode_grant fl b = Inr g"
  using assms by (rule decode_encode_canonical_grant)

theorem grant_round_trip_witness:
  "\<exists>b. encode_canonical_grant grant_example = Inr b \<and> decode_grant (\<lambda>_. 0) b = Inr grant_example"
  using defined_Inr [OF examples_defined(3)] grant_round_trip by blast

text \<open>C35: Offline verification says ok exactly for a well-formed grant whose issuer is a known root that signed
  it, that is not revoked and whose half-open window contains the present.\<close>

theorem grant_ok_exactly:
  "verify_grant ed g roots t revoked = Inr GrantOk \<longleftrightarrow>
   validate_grant g = Inr () \<and> grant_authentic ed g roots \<and> grant_id g \<notin> set revoked \<and>
   issued_at g \<le> t \<and> t < expires_at g"
  by (rule verify_grant_ok_iff)

section \<open>Digests\<close>

text \<open>The Merkle proof of every leaf of a range verifies against the range's root.\<close>

theorem merkle_proof_complete:
  assumes "0 \<le> i" "i < int (length leaves)"
  shows "\<exists>proof rt. merkle_inclusion_proof sha256_hexdigest leaves i = Inr proof \<and>
    merkle_root sha256_hexdigest leaves = Inr rt \<and>
    verify_inclusion_proof sha256_hexdigest (leaves ! nat i) i (int (length leaves)) proof rt = Inr True"
  using assms by (rule sha.inclusion_complete)

theorem merkle_proof_complete_witness:
  "\<exists>proof rt. merkle_inclusion_proof sha256_hexdigest [[1], [2], [3]] 2 = Inr proof \<and>
    merkle_root sha256_hexdigest [[1], [2], [3]] = Inr rt \<and>
    verify_inclusion_proof sha256_hexdigest [3] 2 3 proof rt = Inr True"
  using merkle_proof_complete [of 2 "[[1], [2], [3]]"] by simp

text \<open>C28: Two proofs accepted for the same index, size and root prove the same leaf by the same path, unless
  two of the messages they hash are an explicit SHA-256 collision.\<close>

theorem merkle_proof_sound:
  assumes "verify_inclusion_proof sha256_hexdigest leaf i n proof rt = Inr True"
    and "verify_inclusion_proof sha256_hexdigest leaf' i n proof' rt = Inr True"
  shows "(leaf = leaf' \<and> proof = proof') \<or>
    (\<exists>x \<in> set (proof_messages sha256_hexdigest leaf i n proof).
     \<exists>y \<in> set (proof_messages sha256_hexdigest leaf' i n proof'). x \<noteq> y \<and> sha256_hexdigest x = sha256_hexdigest y)"
  using assms by (rule sha.inclusion_sound)

theorem merkle_proof_sound_witness:
  "verify_inclusion_proof sha256_hexdigest [7] 0 1 [] (merkle_leaf_hash sha256_hexdigest [7]) = Inr True"
proof -
  have v: "verify_inclusion_proof sha256_hexdigest [7] 0 1 [] (merkle_leaf_hash sha256_hexdigest [7]) = Inr True"
    by (simp add: verify_inclusion_proof_def)
  from merkle_proof_sound [OF v v] v show ?thesis by blast
qed

text \<open>Links of the audit chain are tamper evident: equal digests mean the same predecessor and the same
  canonical record, or an explicit collision of the two hashed messages.\<close>

theorem chain_tamper_evident:
  assumes "chain_hash sha256_hexdigest p r = Inr h" "chain_hash sha256_hexdigest p' r' = Inr h"
  shows "\<exists>b b'. canonicalize (pdict r) = Inr b \<and> canonicalize (pdict r') = Inr b' \<and>
    ((p = p' \<and> b = b') \<or>
     (chain_message p b \<noteq> chain_message p' b' \<and>
      sha256_hexdigest (chain_message p b) = sha256_hexdigest (chain_message p' b')))"
proof -
  from assms obtain b b' where "canonicalize (pdict r) = Inr b" "canonicalize (pdict r') = Inr b'"
    by (auto simp: chain_hash_Inr)
  with chain_hash_collision [OF assms this] show ?thesis by blast
qed

theorem chain_tamper_evident_witness:
  "\<exists>h. chain_hash sha256_hexdigest None [] = Inr h"
proof -
  have "case canonicalize (pdict []) of Inl _ \<Rightarrow> False | Inr _ \<Rightarrow> True" by code_simp
  then obtain b where "canonicalize (pdict []) = Inr b" using defined_Inr by blast
  then have h: "chain_hash sha256_hexdigest None [] = Inr (sha256_hexdigest (chain_message None b))"
    by (simp add: chain_hash_Inr)
  from chain_tamper_evident [OF h h] h show ?thesis by blast
qed

section \<open>Identifiers\<close>

text \<open>C40: Consecutive ULIDs sort in the order they are minted and the factory's state stays in range, as long
  as the clock fits 48 bits and a backward clock does not meet an exhausted random part.\<close>

theorem ulid_monotone:
  assumes "ulid_ok s" "0 \<le> last_ms s" "0 \<le> r" "r \<le> RANDOM_MAX"
    and "new_ulid clock ts r s = (u, s')" "last_ms s' \<le> TIMESTAMP_MAX"
    and "(case ts of None \<Rightarrow> clock | Some t \<Rightarrow> t) \<ge> last_ms s \<or> last_random s < RANDOM_MAX"
  shows "ulid_ok s' \<and> is_ulid u \<and> current_ulid s < u \<and> u = current_ulid s'"
  using new_ulid_monotone [OF assms] new_ulid_current [OF assms(5)] render_is_ulid
  by (auto simp: current_ulid_def)

theorem ulid_monotone_witness:
  "\<exists>u s'. new_ulid 5 None 0 \<lparr>last_ms = 5, last_random = 7\<rparr> = (u, s') \<and> is_ulid u \<and>
     current_ulid \<lparr>last_ms = 5, last_random = 7\<rparr> < u"
proof -
  let ?s = "\<lparr>last_ms = 5, last_random = 7\<rparr>"
  let ?s' = "\<lparr>last_ms = 5, last_random = 8\<rparr>"
  have m: "new_ulid 5 None 0 ?s = (render_ulid 5 8, ?s')"
    by (simp add: new_ulid_def RANDOM_MAX_def)
  have "ulid_ok ?s" "0 \<le> RANDOM_MAX" "last_ms ?s' \<le> TIMESTAMP_MAX" "7 < RANDOM_MAX"
    by (simp_all add: ulid_ok_def RANDOM_MAX_def TIMESTAMP_MAX_def)
  then have "is_ulid (render_ulid 5 8) \<and> current_ulid ?s < render_ulid 5 8"
    using ulid_monotone [OF _ _ _ _ m] by auto
  with m show ?thesis by blast
qed

text \<open>The timestamp is recoverable from a ULID.\<close>

theorem ulid_timestamp_round_trip:
  assumes "0 \<le> ms" "ms \<le> TIMESTAMP_MAX"
  shows "ulid_timestamp_ms (render_ulid ms r) = Inr (nat ms)"
  using assms by (rule ulid_timestamp_render)

theorem ulid_timestamp_round_trip_witness: "ulid_timestamp_ms (render_ulid 1700000000000 3) = Inr 1700000000000"
  using ulid_timestamp_round_trip [of 1700000000000 3] by (simp add: TIMESTAMP_MAX_def)

section \<open>Folding\<close>

text \<open>C26: Sticky deletes: after a committed tombstone no later event that neither saw the delete nor is an
  explicit revive brings the entity back.\<close>

theorem deletes_are_sticky:
  assumes "de_entity_id d = eid" "de_op d = op_tombstone" "de_committed_rev d = Some t"
    and "\<forall>e \<in> set later. de_entity_id e = eid \<longrightarrow> sticky t e"
  shows "fold_entity eid (earlier @ d # later) = None"
  using assms by (rule fold_entity_sticky)

definition delete_example :: domain_event where
  "delete_example = \<lparr>de_collection = lit ''tickets'', de_entity_id = lit ''t1'', de_op = op_tombstone,
     de_payload = [], de_base_rev = Some 1, de_committed_rev = Some 2\<rparr>"

definition stale_example :: domain_event where
  "stale_example = \<lparr>de_collection = lit ''tickets'', de_entity_id = lit ''t1'', de_op = op_patch,
     de_payload = [(lit ''a'', PInt 1)], de_base_rev = Some 1, de_committed_rev = Some 3\<rparr>"

theorem deletes_are_sticky_witness: "fold_entity (lit ''t1'') ([] @ delete_example # [stale_example]) = None"
  by (rule deletes_are_sticky [where t = 2])
    (simp_all add: delete_example_def stale_example_def sticky_def saw_delete_def is_revive_def
      REVIVE_FIELD_def)

text \<open>The backend's fold and the replica's fold agree on every entity, for committed streams of patches
  and deletes in which no patch is based on a revision older than a delete before it.\<close>

theorem backend_and_replica_folds_agree:
  assumes "\<forall>ce \<in> set ces. plain_event (snd ce)" "respects_deletes ces"
  shows "\<exists>final. fold_events (map snd ces) = Inr final \<and>
    (\<forall>eid. dget final eid = fold_entity eid (map domain_of ces))"
  using assms by (rule folds_agree)

theorem backend_and_replica_folds_agree_witness:
  "\<exists>final. fold_events [event_example, event_example\<lparr>op := op_tombstone, payload := []\<rparr>] = Inr final \<and>
    (\<forall>eid. dget final eid = fold_entity eid (map domain_of
       [(1, event_example), (2, event_example\<lparr>op := op_tombstone, payload := []\<rparr>)]))"
  using backend_and_replica_folds_agree
    [of "[(1, event_example), (2, event_example\<lparr>op := op_tombstone, payload := []\<rparr>)]"]
  by (simp add: plain_event_def event_example_def dict_ok_def REVIVE_FIELD_def)

section \<open>The event log\<close>

text \<open>C27: An emit keeps the log's primary key, dedup floor and state column consistent and every actor's
  sequence numbers gapless, and it fails as a duplicate only when the fresh id is already taken.\<close>

theorem emit_keeps_log:
  assumes "log_ok l" "gapless l a"
  shows "case emit ed i k d l of
      Inr l' \<Rightarrow> log_ok l' \<and> gapless l' a \<and> length l' = Suc (length l)
    | Inl DuplicateEventError \<Rightarrow> i \<in> event_id ` set l
    | Inl _ \<Rightarrow> True"
proof (cases "emit ed i k d l")
  case (Inl x)
  then show ?thesis using emit_no_duplicate [of ed i k d l] by (cases x) auto
next
  case (Inr l')
  with assms show ?thesis by (auto simp: emit_log_ok emit_gapless elim: emit_row)
qed

definition domain_example :: domain_event where
  "domain_example = \<lparr>de_collection = lit ''tickets'', de_entity_id = lit ''t1'', de_op = op_patch,
     de_payload = [(lit ''a'', PInt 1)], de_base_rev = None, de_committed_rev = None\<rparr>"

theorem emit_keeps_log_witness:
  "\<exists>l'. emit ed_example (lit ''e1'') \<lparr>sink_actor = lit ''a1'', sink_signer = None\<rparr> domain_example [] = Inr l' \<and>
     log_ok l' \<and> gapless l' (lit ''a1'')"
proof -
  have "case emit ed_example (lit ''e1'') \<lparr>sink_actor = lit ''a1'', sink_signer = None\<rparr> domain_example [] of
      Inl _ \<Rightarrow> False | Inr _ \<Rightarrow> True" by code_simp
  moreover have "log_ok []" "gapless [] (lit ''a1'')" by (auto simp: log_ok_def gapless_def intro!: exI [of _ 0])
  ultimately show ?thesis
    using emit_keeps_log [of "[]" "lit ''a1''" "lit ''e1''" ed_example "\<lparr>sink_actor = lit ''a1'', sink_signer = None\<rparr>"
        domain_example] by (auto split: sum.splits)
qed

text \<open>C37: What an emit with a signer stores verifies under the device's public key, and what the sink refuses is
  refused before anything is written: authoritative collections always, append-only ones unless appended to.\<close>

theorem emit_signed_and_guarded:
  assumes "ed25519_ok ed" "emit ed i k d l = Inr l'" "sink_signer k = Some s"
    "public_key_of ed (signer_key s) = Inr pk"
  shows "verify ed (row_to_event (last l')) pk = Inr True \<and> butlast l' = l \<and>
    (\<forall>m. dget COLLECTION_META (de_collection d) = Some m \<longrightarrow>
       cm_merge m \<noteq> AuthoritativeTx \<and> (cm_merge m = AppendOnly \<longrightarrow> de_op d = op_append))"
  using emit_verifies [OF assms] assms(2) by (auto simp: emit_Inr insert_event_Inr)

theorem emit_signed_and_guarded_witness:
  "\<exists>l' pk. public_key_of ed_example key_example = Inr pk \<and>
     emit ed_example (lit ''e1'') \<lparr>sink_actor = lit ''a1'', sink_signer = Some
       \<lparr>signer_key = key_example, signer_policy = lit ''g1''\<rparr>\<rparr> domain_example [] = Inr l' \<and>
     verify ed_example (row_to_event (last l')) pk = Inr True"
proof -
  let ?k = "\<lparr>sink_actor = lit ''a1'', sink_signer = Some \<lparr>signer_key = key_example, signer_policy = lit ''g1''\<rparr>\<rparr>"
  have "case emit ed_example (lit ''e1'') ?k domain_example [] of Inl _ \<Rightarrow> False | Inr _ \<Rightarrow> True" by code_simp
  with defined_Inr obtain l' where l': "emit ed_example (lit ''e1'') ?k domain_example [] = Inr l'" by blast
  obtain pk where pk: "public_key_of ed_example key_example = Inr pk"
    using defined_Inr [OF examples_defined(5)] by blast
  from emit_signed_and_guarded [OF ed_example_ok l'] pk l' show ?thesis by simp
qed

section \<open>Merging\<close>

text \<open>C25: The merge decision is the same on every replica that holds the same committed events, in whatever
  order it holds them.\<close>

theorem merge_decision_replica_independent:
  assumes "mset p = mset p'" "distinct (map revision p)"
  shows "detect_merge D p inc = detect_merge D p' inc"
  using assms by (rule detect_merge_perm)

definition committed_example :: "int \<Rightarrow> committed_event" where
  "committed_example n = \<lparr>revision = n, cevent = event_example\<rparr>"

theorem merge_decision_replica_independent_witness:
  "detect_merge sha256 [committed_example 1, committed_example 2] (committed_example 3) =
   detect_merge sha256 [committed_example 2, committed_example 1] (committed_example 3)"
  by (rule merge_decision_replica_independent) (simp_all add: committed_example_def add_mset_commute)

text \<open>A write that saw the committed head never conflicts: every field applies.\<close>

theorem caught_up_write_applies:
  assumes "head_of p \<le> base_of inc" "op (cevent inc) \<noteq> op_tombstone"
  shows "\<exists>m. detect_merge D p inc = Inr m \<and> mo_verdict m = entity_verdict.EApply \<and> mo_conflicts m = [] \<and>
    list_all (\<lambda>d. fd_verdict d = FApply) (mo_decisions m)"
  using assms by (rule detect_merge_caught_up)

theorem caught_up_write_applies_witness:
  "\<exists>m. detect_merge sha256 [] (committed_example 1) = Inr m \<and> mo_verdict m = entity_verdict.EApply \<and> mo_conflicts m = []"
proof -
  have "head_of [] \<le> base_of (committed_example 1)" "op (cevent (committed_example 1)) \<noteq> op_tombstone"
    by (simp_all add: head_of_def max_of_def base_of_def committed_example_def event_example_def)
  from caught_up_write_applies [OF this] show ?thesis by blast
qed

text \<open>The material a conflict id hashes determines the entity, the field and the two revisions, so ids of
  different conflicts differ up to a digest collision; the order of the revisions does not matter.\<close>

theorem conflict_id_material:
  assumes "31 \<notin> set e" "31 \<notin> set e'" "31 \<notin> set f" "31 \<notin> set f'"
  shows "conflict_material e f [a, b] = conflict_material e' f' [a', b'] \<longleftrightarrow>
    e = e' \<and> f = f' \<and> {#a, b#} = {#a', b'#}"
proof
  assume "e = e' \<and> f = f' \<and> {#a, b#} = {#a', b'#}"
  moreover from this have "sort [a, b] = sort [a', b']" by (intro sort_cong) simp
  ultimately show "conflict_material e f [a, b] = conflict_material e' f' [a', b']"
    unfolding conflict_material_def by (simp only:)
qed (use assms conflict_material_inj in blast)

theorem conflict_id_material_witness:
  "conflict_material (lit ''t1'') (lit ''title'') [3, 5] = conflict_material (lit ''t1'') (lit ''title'') [5, 3] \<and>
   conflict_material (lit ''t1'') (lit ''title'') [3, 5] \<noteq> conflict_material (lit ''t1'') (lit ''title'') [3, 6]"
  by (subst (1 2) conflict_id_material) (simp_all add: lit_def)

section \<open>Applying\<close>

text \<open>C4: Replicas converge: two logs with the same rows fold every entity to the same state, whatever the
  order of arrival.\<close>

theorem replicas_converge:
  assumes "keyed l" "revs_distinct l" "mset l = mset l'"
  shows "folded_state l c e = folded_state l' c e"
  using assms by (rule folded_state_perm)

theorem replicas_converge_witness:
  "folded_state [make_row event_example (Some 1) None,
      make_row (event_example\<lparr>event_id := lit ''e2'', actor_seq := 2\<rparr>) (Some 2) None] (lit ''tickets'') (lit ''t1'') =
   folded_state [make_row (event_example\<lparr>event_id := lit ''e2'', actor_seq := 2\<rparr>) (Some 2) None,
      make_row event_example (Some 1) None] (lit ''tickets'') (lit ''t1'')"
  by (rule replicas_converge)
    (simp_all add: keyed_def revs_distinct_def event_example_def dedup_key_def List.map_filter_def add_mset_commute)

text \<open>A resolved conflict never reopens: whatever events follow the first resolution, the folded record is
  resolved with that resolution's author, choice and time.\<close>

theorem resolution_is_sticky:
  assumes "\<forall>r \<in> set before. dget (payload r) (lit ''status'') \<noteq> Some RESOLVED"
    and "dget (payload r) (lit ''status'') = Some RESOLVED"
  shows "dget (conflict_state (before @ r # later)) (lit ''status'') = Some RESOLVED \<and>
    (\<forall>k \<in> {lit ''resolved_by'', lit ''resolved_choice'', lit ''resolved_at''}. \<forall>x.
       dget (payload r) k = Some x \<longrightarrow> dget (conflict_state (before @ r # later)) k = Some x)"
  using conflict_state_resolved [OF assms] by blast

theorem resolution_is_sticky_witness:
  "dget (conflict_state ([] @ make_row (event_example\<lparr>payload := [(lit ''status'', RESOLVED)]\<rparr>) (Some 1) None #
      [make_row (event_example\<lparr>payload := [(lit ''status'', PStr (lit ''open''))]\<rparr>) (Some 2) None])) (lit ''status'') =
   Some RESOLVED"
proof -
  let ?r = "make_row (event_example\<lparr>payload := [(lit ''status'', RESOLVED)]\<rparr>) (Some 1) None"
  have "dget (payload ?r) (lit ''status'') = Some RESOLVED" by simp
  from resolution_is_sticky [OF _ this, of "[]"] show ?thesis by simp
qed

section \<open>Verified ingestion\<close>



section \<open>The backend\<close>

text \<open>C23: The backend's log stays well formed through every commit and an error leaves it as it was.\<close>

theorem commit_keeps_log:
  assumes "pg_ok s" "commit_events_raw D v ws cas batch s = (res, s')"
  shows "pg_ok s' \<and> (\<forall>x. res = Inl x \<longrightarrow> pg_rows s' = pg_rows s)"
  using commit_events_raw_ok [OF assms] commit_events_raw_atomic assms(2) by blast

theorem commit_keeps_log_witness:
  "pg_ok (snd (commit_events_raw sha256 (\<lambda>_. accept NoReason) (lit ''w1'') False [event_example] (pg_init [lit ''w1''])))"
proof (cases "commit_events_raw sha256 (\<lambda>_. accept NoReason) (lit ''w1'') False [event_example] (pg_init [lit ''w1''])")
  case (Pair res s')
  from commit_keeps_log [OF pg_init_ok this] Pair show ?thesis by simp
qed

text \<open>C10: A commit answers every event of the batch in order with the revision of the row that holds it; all
  of them verified, only they were appended, and a compare-and-swap that succeeds contended with nothing.\<close>

theorem commit_answers:
  assumes "commit_events_raw D v ws cas batch s = (Inr rs, s')"
  shows "(\<forall>e \<in> set batch. v_ok (v e)) \<and> extends s ws batch s' \<and>
    list_all2 (\<lambda>e r. cw_event_id r = event_id e \<and> holds_at s' e (cw_revision r) \<and>
       (cas \<longrightarrow> cw_conflicts r = [])) batch rs"
  using commit_events_raw_Inr [OF assms] by blast

theorem commit_answers_witness:
  "\<exists>rs s'. commit_events_raw sha256 (\<lambda>_. accept NoReason) (lit ''w1'') True [event_example] (pg_init [lit ''w1'']) =
     (Inr rs, s') \<and> extends (pg_init [lit ''w1'']) (lit ''w1'') [event_example] s'"
proof -
  have "case fst (commit_events_raw sha256 (\<lambda>_. accept NoReason) (lit ''w1'') True [event_example]
      (pg_init [lit ''w1''])) of Inl _ \<Rightarrow> False | Inr _ \<Rightarrow> True" by code_simp
  with defined_Inr obtain rs s' where c: "commit_events_raw sha256 (\<lambda>_. accept NoReason) (lit ''w1'') True
      [event_example] (pg_init [lit ''w1'']) = (Inr rs, s')" by (metis prod.collapse)
  from commit_answers [OF c] c show ?thesis by blast
qed

text \<open>Re-committing events the log holds is idempotent: nothing is appended and every answer is a
  duplicate that names the first commit's revision.\<close>

theorem recommit_idempotent:
  assumes "commit_loop D ws cas es s = (Inr rs, s')" "pg_ok s" "\<forall>e \<in> set es. \<exists>n. holds_at s e n"
  shows "pg_rows s' = pg_rows s \<and>
    list_all2 (\<lambda>e r. cw_status r = Duplicate \<and> holds_at s e (cw_revision r)) es rs"
  using assms by (rule commit_loop_again)

definition pg_example :: pg where
  "pg_example = \<lparr>pg_rows = [\<lparr>sr_revision = 1, sr_event = event_example, sr_workspace = lit ''w1''\<rparr>],
     pg_next = 2, pg_acks = [], pg_workspaces = [lit ''w1'']\<rparr>"

lemma pg_example_ok: "pg_ok pg_example"
  by (simp add: pg_ok_def pg_example_def)

theorem recommit_idempotent_witness:
  "\<exists>rs s'. commit_loop sha256 (lit ''w1'') False [event_example] pg_example = (Inr rs, s') \<and>
     pg_rows s' = pg_rows pg_example"
proof -
  have "case fst (commit_loop sha256 (lit ''w1'') False [event_example] pg_example) of Inl _ \<Rightarrow> False | Inr _ \<Rightarrow> True"
    by code_simp
  with defined_Inr obtain rs s' where c: "commit_loop sha256 (lit ''w1'') False [event_example] pg_example = (Inr rs, s')"
    by (metis prod.collapse)
  have "\<forall>e \<in> set [event_example]. \<exists>n. holds_at pg_example e n" by (simp add: holds_at_def pg_example_def)
  from recommit_idempotent [OF c pg_example_ok this] c show ?thesis by blast
qed

text \<open>C34: The paginated pull terminates and returns exactly the workspace's committed events above the cursor,
  in commit order, whatever the page size.\<close>

theorem pull_is_history_suffix:
  assumes "pg_ok s" "0 < n"
  shows "Backend.pull n ws c since s =
    filter (\<lambda>ce. since < revision ce \<and> (case c of None \<Rightarrow> True | Some k \<Rightarrow> collection (cevent ce) = k)) (history ws s)"
  using assms by (rule pull_history)

theorem pull_is_history_suffix_witness:
  "Backend.pull 1 (lit ''w1'') None 0 pg_example = [\<lparr>revision = 1, cevent = event_example\<rparr>]"
  using pull_is_history_suffix [OF pg_example_ok, of 1 "lit ''w1''" None 0]
  by (simp add: history_def pg_example_def to_committed_def)



section \<open>The engine\<close>

text \<open>A backend of the workspace \<open>w1\<close> that refuses one event, and a replica of it.\<close>

definition verifier_example :: "event \<Rightarrow> verdict" where
  "verifier_example e = (if event_id e = lit ''e3'' then refuse VUnsigned NoSignature else accept NoReason)"

definition port_example :: "pg port" where
  "port_example = pg_port (\<lambda>_. []) verifier_example (lit ''w1'') (Suc 9) (\<lambda>_. [])"

definition config_example :: "pg config" where
  "config_example = \<lparr>cf_port = port_example, cf_actor = lit ''a1'', cf_workspace = Some (lit ''w1''),
     cf_signer = None, cf_bound = False, cf_notify = False,
     cf_ed = ed_example, cf_H = (\<lambda>_. replicate 64 48), cf_D = (\<lambda>_. []), cf_dt = (\<lambda>_. None),
     cf_env = (\<lambda>i. \<lparr>env_now = 0, env_id = replicate (Suc i) 48\<rparr>)\<rparr>"

definition engine_of :: "log \<Rightarrow> pg \<Rightarrow> pg engine" where
  "engine_of l b = \<lparr>en_db = \<lparr>rp_log = l, rp_tables = (\<lambda>_. []), rp_cursors = [], rp_trail = []\<rparr>,
     en_session = None, en_fresh = 0, en_notified = [], en_slept = [], en_backend = b\<rparr>"

definition backend_of :: "event list \<Rightarrow> pg" where
  "backend_of es = \<lparr>pg_rows = map (\<lambda>(i, e). \<lparr>sr_revision = int i + 1, sr_event = e, sr_workspace = lit ''w1''\<rparr>) (enumerate 0 es),
     pg_next = int (length es) + 1, pg_acks = [], pg_workspaces = [lit ''w1'']\<rparr>"

definition deletion_example :: event where
  "deletion_example = event_example\<lparr>op := op_tombstone\<rparr>"

definition team_example :: "pg team" where
  "team_example = \<lparr>tm_backend = backend_of [deletion_example],
     tm_sites = [(config_example, engine_of [] (backend_of [])), (config_example, engine_of [] (backend_of []))]\<rparr>"

lemma backend_example_ok: "single_workspace (lit ''w1'') (backend_of [])" "single_workspace (lit ''w1'') (backend_of [e])"
  by (simp_all add: single_workspace_def pg_ok_def backend_of_def)

lemma team_example_start: "team_start port_example (single_workspace (lit ''w1'')) team_example"
  by (auto simp: team_start_def team_example_def backend_example_ok config_ok_def config_example_def joined_def engine_of_def
      inj_on_def dest: arg_cong [where f = length])

text \<open>C1: Eventual consistency: in every reachable state of a team of replicas around one backend, a replica that
  drains its outbox and pulls shows, for every entity, the fold of the backend's committed history.  The one
  condition is that no two different events share author and sequence number.\<close>

theorem replicas_show_committed_history:
  assumes "team_start (pg_port D vf ws (Suc n) prose) (single_workspace ws) t0" "team_step\<^sup>*\<^sup>* t0 t"
    and "(cf, s) \<in> set (tm_sites t)"
    and "flush_outbox cf bo policy (with_backend (tm_backend t) s) = (Inr r, s1)" "fl_drained r" "fl_withheld r = 0"
    and "Engine.pull cf None s1 = (Inr q, s2)"
    and "authored_once (history ws (en_backend s2)) (rp_log (en_db s2))"
  shows "folded_state (rp_log (en_db s2)) c e = history_state (history ws (en_backend s2)) c e"
proof -
  have "team_ok (pg_port D vf ws (Suc n) prose) (history ws) (single_workspace ws) t"
    using pg.team_reach_ok [OF assms(2)] pg.team_start_ok [OF assms(1)] by blast
  with assms(3) have "cf_port cf = pg_port D vf ws (Suc n) prose"
    "site_ok (history ws) (single_workspace ws) cf (with_backend (tm_backend t) s)"
    by (auto simp: team_ok_def config_ok_def)
  from pg.round_state [OF this(2,1) assms(4-8)] show ?thesis .
qed

lemma round_example:
  "case flush_outbox config_example default_backoff PROPOSAL_POLICY_AUTO_REBASE
      (with_backend (backend_of [deletion_example]) (engine_of [] (backend_of []))) of
     (Inl _, _) \<Rightarrow> False
   | (Inr r, s) \<Rightarrow> fl_drained r \<and> fl_withheld r = 0 \<and>
      (case Engine.pull config_example None s of (Inl _, _) \<Rightarrow> False
       | (Inr q, u) \<Rightarrow> rp_log (en_db u) = [make_row deletion_example (Some 1) None] \<and>
           pg_rows (en_backend u) = pg_rows (backend_of [deletion_example]))"
  by code_simp

theorem replicas_show_committed_history_witness:
  "\<exists>r s1 q s2. flush_outbox config_example default_backoff PROPOSAL_POLICY_AUTO_REBASE
      (with_backend (tm_backend team_example) (engine_of [] (backend_of []))) = (Inr r, s1) \<and>
    Engine.pull config_example None s1 = (Inr q, s2) \<and>
    folded_state (rp_log (en_db s2)) (lit ''tickets'') (lit ''t1'') =
      history_state (history (lit ''w1'') (en_backend s2)) (lit ''tickets'') (lit ''t1'')"
proof -
  obtain r s1 q s2 where run: "flush_outbox config_example default_backoff PROPOSAL_POLICY_AUTO_REBASE
      (with_backend (tm_backend team_example) (engine_of [] (backend_of []))) = (Inr r, s1)" "fl_drained r" "fl_withheld r = 0"
    "Engine.pull config_example None s1 = (Inr q, s2)" "rp_log (en_db s2) = [make_row deletion_example (Some 1) None]"
    "pg_rows (en_backend s2) = pg_rows (backend_of [deletion_example])"
    using round_example by (fastforce simp: team_example_def split: prod.splits sum.splits)
  have once: "authored_once (history (lit ''w1'') (en_backend s2)) (rp_log (en_db s2))"
    by (simp add: authored_once_def history_def run(5,6) backend_of_def)
  have "(config_example, engine_of [] (backend_of [])) \<in> set (tm_sites team_example)" by (simp add: team_example_def)
  from replicas_show_committed_history [OF team_example_start [unfolded port_example_def] rtranclp.rtrancl_refl this run(1-4) once] run
  show ?thesis by blast
qed

text \<open>C8: In every reachable state of the team, each replica's log has its keys and states in order, and any two
  replicas that recorded a commit order for the same author and sequence number recorded the same one.\<close>

theorem reachable_replicas_agree:
  assumes "team_start (pg_port D vf ws (Suc n) prose) (single_workspace ws) t0" "team_step\<^sup>*\<^sup>* t0 t"
    and "(cf, s) \<in> set (tm_sites t)" "(cf', s') \<in> set (tm_sites t)"
    and "x \<in> set (rp_log (en_db s))" "y \<in> set (rp_log (en_db s'))" "dedup_key x = dedup_key y"
    and "committed_rev x = Some k" "committed_rev y = Some m"
  shows "k = m \<and> log_ok (rp_log (en_db s)) \<and> log_ok (rp_log (en_db s'))"
proof -
  have "team_ok (pg_port D vf ws (Suc n) prose) (history ws) (single_workspace ws) t"
    using pg.team_reach_ok [OF assms(2)] pg.team_start_ok [OF assms(1)] by blast
  with assms(3,4) have "site_ok (history ws) (single_workspace ws) cf (with_backend (tm_backend t) s)"
    "site_ok (history ws) (single_workspace ws) cf' (with_backend (tm_backend t) s')"
    by (auto simp: team_ok_def)
  with pg.synced_agree [of ws "with_backend (tm_backend t) s" "with_backend (tm_backend t) s'" x y k m] assms(5-9)
  show ?thesis by (simp add: site_ok_def)
qed

lemma pull_example:
  "case Engine.pull config_example None (with_backend (backend_of [deletion_example]) (engine_of [] (backend_of []))) of
     (Inl _, _) \<Rightarrow> False
   | (Inr q, u) \<Rightarrow> rp_log (en_db u) = [make_row deletion_example (Some 1) None] \<and>
       en_backend u = backend_of [deletion_example]"
  by code_simp

theorem reachable_replicas_agree_witness:
  "\<exists>t s s'. team_step\<^sup>*\<^sup>* team_example t \<and> tm_sites t = [(config_example, s), (config_example, s')] \<and>
     rp_log (en_db s) \<noteq> [] \<and> rp_log (en_db s') \<noteq> [] \<and> log_ok (rp_log (en_db s'))"
proof -
  let ?s = "engine_of [] (backend_of [])" and ?b = "backend_of [deletion_example]"
  obtain q u where run: "Engine.pull config_example None (with_backend ?b ?s) = (Inr q, u)"
    "rp_log (en_db u) = [make_row deletion_example (Some 1) None]" "en_backend u = ?b"
    using pull_example by (auto split: prod.splits sum.splits)
  have step: "site_step config_example (with_backend ?b ?s) u" by (rule site_step.pulls [OF run(1)]) simp_all
  let ?t1 = "\<lparr>tm_backend = ?b, tm_sites = [(config_example, u), (config_example, ?s)]\<rparr>"
  let ?t2 = "\<lparr>tm_backend = ?b, tm_sites = [(config_example, u), (config_example, u)]\<rparr>"
  have "team_step team_example ?t1"
    using team_step.site [of 0 team_example config_example ?s u] step run(3) by (simp add: team_example_def)
  moreover have "team_step ?t1 ?t2"
    using team_step.site [of 1 ?t1 config_example ?s u] step run(3) by simp
  ultimately have reach: "team_step\<^sup>*\<^sup>* team_example ?t2" by auto
  have row: "make_row deletion_example (Some 1) None \<in> set (rp_log (en_db u))" by (simp add: run(2))
  have rev: "committed_rev (make_row deletion_example (Some 1) None) = Some 1" by simp
  have site: "(config_example, u) \<in> set (tm_sites ?t2)" by simp
  from reachable_replicas_agree [OF team_example_start [unfolded port_example_def] reach site site row row refl rev rev]
  have "log_ok (rp_log (en_db u))" by blast
  with reach run(2) show ?thesis by (intro exI [of _ ?t2] exI [of _ u]) simp
qed

text \<open>C14: No operation of the engine, however it ends, loses or rewrites history: the log is append-only, an
  event and its commit order never change once set, a row that left the outbox never returns, and cursors and the
  audit trail only move forward.\<close>

theorem operations_only_append:
  assumes "keyed (rp_log (en_db s))"
    and "s' \<in> {snd (Engine.push cf s), snd (Engine.pull cf c s), snd (ack cf k c s), snd (flush_outbox cf bo policy s),
      snd (resolve_conflict cf cid choice val by' stamp s)}"
  shows "log_grows (rp_log (en_db s)) (rp_log (en_db s')) \<and> cursors_grow (rp_cursors (en_db s)) (rp_cursors (en_db s')) \<and>
    (\<exists>new. rp_trail (en_db s') = rp_trail (en_db s) @ new)"
proof -
  note m = grow.steps_push grow.steps_pull grow.steps_ack grow.steps_flush_outbox grow.steps_resolve
  have "engine_grows s s'" using assms(2) by (auto intro: m [unfolded moves_def, rule_format])
  with assms(1) show ?thesis by (simp add: engine_grows_def db_grows_def)
qed

theorem operations_only_append_witness:
  "log_grows [make_row event_example None None]
     (rp_log (en_db (snd (Engine.pull config_example None (engine_of [make_row event_example None None] (backend_of []))))))"
proof -
  have "keyed (rp_log (en_db (engine_of [make_row event_example None None] (backend_of []))))"
    by (simp add: keyed_def engine_of_def)
  from operations_only_append [OF this, of _ config_example None] show ?thesis by (simp add: engine_of_def)
qed

text \<open>C17: Pulling is idempotent: a second pull from the state the first one left receives nothing and changes
  neither the log, the tables, the cursors nor the trail.\<close>

theorem pull_is_idempotent:
  assumes "synced (history ws) (single_workspace ws) s" "cf_port cf = pg_port D vf ws (Suc n) prose"
    and "Engine.pull cf c s = (Inr r, s')" "Engine.pull cf c s' = (Inr r', s'')"
  shows "pl_received r' = 0 \<and> pl_cursor r' = pl_cursor r \<and> en_db s'' = en_db s'"
proof -
  from assms(3) obtain p t where t: "negotiate_session cf s = (Inr p, t)"
    unfolding Engine.pull_def ebind_Inr [of "negotiate_session cf"] by blast
  note n = negotiated_again [OF t]
  have "at_least (history ws) (single_workspace ws) [] {} t"
    using keepsD [OF pg.keeps_negotiate [OF assms(2)] t] assms(1) by (simp add: synced_at_least)
  from pg.pull_twice [OF assms(2) this n(1) assms(3) [unfolded n(2)] assms(4)] show ?thesis by simp
qed

lemma pull_twice_example:
  "case Engine.pull config_example None (engine_of [] (backend_of [deletion_example])) of
     (Inl _, _) \<Rightarrow> False
   | (Inr q, u) \<Rightarrow> pl_received q = 1 \<and>
       (case Engine.pull config_example None u of (Inl _, _) \<Rightarrow> False | (Inr r, w) \<Rightarrow> True)"
  by code_simp

theorem pull_is_idempotent_witness:
  "\<exists>r s' r' s''. Engine.pull config_example None (engine_of [] (backend_of [deletion_example])) = (Inr r, s') \<and>
     pl_received r = 1 \<and> Engine.pull config_example None s' = (Inr r', s'') \<and> pl_received r' = 0 \<and> en_db s'' = en_db s'"
proof -
  let ?s = "engine_of [] (backend_of [deletion_example])"
  obtain r s' r' s'' where run: "Engine.pull config_example None ?s = (Inr r, s')" "pl_received r = 1"
    "Engine.pull config_example None s' = (Inr r', s'')"
    using pull_twice_example by (auto split: prod.splits sum.splits)
  have "synced (history (lit ''w1'')) (single_workspace (lit ''w1'')) ?s"
    by (simp add: synced_def engine_of_def backend_example_ok log_keys_def keyed_def commits_held_def)
  moreover have "cf_port config_example = pg_port (\<lambda>_. []) verifier_example (lit ''w1'') (Suc 9) (\<lambda>_. [])"
    by (simp add: config_example_def port_example_def)
  ultimately show ?thesis using pull_is_idempotent [OF _ _ run(1,3)] run by blast
qed



text \<open>C32: A peer whose sync version is more than one away is refused: pull, push and flush all fail, and the
  replica's log, tables and cursors are as they were; only the rejection is audited.\<close>

theorem version_skew_refused:
  assumes "en_session s = None" "pt_session_init (cf_port cf) = Some init"
    and "init SYNC_VERSION EXPECTED_SCHEMA_VERSION (en_backend s) = (Inr peer, b)"
    and "SYNC_VERSION_SKEW < \<bar>si_sync_version peer - SYNC_VERSION\<bar>" "policy \<in> set PROPOSAL_STALE_POLICIES"
  shows "\<exists>e s'. Engine.pull cf c s = (Inl e, s') \<and> Engine.push cf s = (Inl e, s') \<and>
    flush_outbox cf bo policy s = (Inl e, s') \<and> same_data s s' \<and> en_backend s' = b \<and>
    (e = EVersion peer \<and> (\<exists>row. rp_trail (en_db s') = rp_trail (en_db s) @ [row] \<and>
       ar_action row = lit ''sync.version_rejected'') \<or> (\<exists>x. e = EAudit x))"
proof -
  from negotiate_refused [OF assms(1-4)] obtain e s' where "negotiate_session cf s = (Inl e, s')" "same_data s s'"
    "en_backend s' = b" "e = EVersion peer \<and> (\<exists>row. rp_trail (en_db s') = rp_trail (en_db s) @ [row] \<and>
       ar_action row = lit ''sync.version_rejected'') \<or> (\<exists>x. e = EAudit x)" by blast
  with operations_refused [OF this(1)] assms(5) show ?thesis by blast
qed

definition config_ahead :: "pg config" where
  "config_ahead = config_example\<lparr>cf_port := port_example\<lparr>pt_session_init :=
     Some (\<lambda>_ _ b. (Inr \<lparr>si_sync_version = 3, si_schema_version = 18\<rparr>, b))\<rparr>\<rparr>"

theorem version_skew_refused_witness:
  "\<exists>e s'. Engine.pull config_ahead None (engine_of [] (backend_of [])) = (Inl e, s') \<and>
     same_data (engine_of [] (backend_of [])) s'"
proof -
  let ?p = "\<lparr>si_sync_version = 3, si_schema_version = 18\<rparr>"
  have "en_session (engine_of [] (backend_of [])) = None" by (simp add: engine_of_def)
  moreover have "pt_session_init (cf_port config_ahead) = Some (\<lambda>_ _ b. (Inr ?p, b))" by (simp add: config_ahead_def)
  moreover have "SYNC_VERSION_SKEW < \<bar>si_sync_version ?p - SYNC_VERSION\<bar>"
    by (simp add: SYNC_VERSION_SKEW_def SYNC_VERSION_def)
  moreover have "PROPOSAL_POLICY_AUTO_REBASE \<in> set PROPOSAL_STALE_POLICIES" by (simp add: PROPOSAL_STALE_POLICIES_def)
  ultimately show ?thesis
    using version_skew_refused [of "engine_of [] (backend_of [])" config_ahead "\<lambda>_ _ b. (Inr ?p, b)" ?p
        "en_backend (engine_of [] (backend_of []))" PROPOSAL_POLICY_AUTO_REBASE None default_backoff] by blast
qed

text \<open>C19: A stale proposal's write never lands: when the compare-and-swap is refused, all that is committed is the
  flip of the proposal to \<open>rebase_required\<close>.\<close>

theorem stale_proposal_write_never_lands:
  assumes "single_workspace ws (en_backend s)" "cf_port cf = pg_port D vf ws (Suc n) prose"
    and "pt_commit (cf_port cf) True [row_to_event row] (en_backend s) = (Inl (PortRebase e cs), b)"
    and "commit_proposal_write cf row pid policy s = (Inr k, s')"
  shows "k = 1 \<and> (\<exists>new. history ws (en_backend s') = history ws (en_backend s) @ new \<and> (\<forall>ce \<in> set new.
    collection (cevent ce) = lit ''agent_proposals'' \<and> entity_id (cevent ce) = pid \<and> payload (cevent ce) = rebase_flip))"
  using pg.stale_proposal_never_lands [OF assms(4,2,1) assms(3) [unfolded assms(2)]] by simp

definition contender_example :: event where
  "contender_example = event_example\<lparr>event_id := lit ''e2'', actor_id := lit ''a2'',
     payload := [(lit ''title'', PStr (lit ''x''))]\<rparr>"

definition stale_write :: event where
  "stale_write = event_example\<lparr>payload := [(lit ''title'', PStr (lit ''y''))]\<rparr>"

definition stale_row :: log_row where
  "stale_row = make_row stale_write None (Some (lit ''p1''))"

definition tables_example :: tables where
  "tables_example =
     (let v = \<lparr>env_now = 0, env_id = lit ''i''\<rparr> in (\<lambda>_. [])
      (lit ''workspaces'' := [(lit ''w1'', [])], lit ''projects'' := [(lit ''j1'', [])],
       lit ''tickets'' := [(lit ''t1'', new_row v Ticket [(lit ''id'', Cell (PStr (lit ''t1''))),
         (lit ''project_id'', Cell (PStr (lit ''j1''))), (lit ''title'', Cell (PStr (lit ''x'')))])],
       lit ''agent_proposals'' := [(lit ''p1'', new_row v AgentProposal [(lit ''id'', Cell (PStr (lit ''p1''))),
         (lit ''ticket_id'', Cell (PStr (lit ''t1''))), (lit ''proposer_id'', Cell (PStr (lit ''a3''))),
         (lit ''diff'', Cell (PDict []))])],
       lit ''conflict_records'' := [(lit ''c1'', [(lit ''status'', Cell (PStr (lit ''open''))),
         (lit ''collection'', Cell (PStr (lit ''tickets''))), (lit ''entity_id'', Cell (PStr (lit ''t1''))),
         (lit ''field'', Cell (PStr (lit ''title''))), (lit ''head_rev'', Cell (PInt 0)),
         (lit ''candidate_values'', Cell (PDict [(PStr (lit ''keep_a''), PStr (lit ''z''))]))])]))"

definition engine_with_tables :: "log \<Rightarrow> pg \<Rightarrow> pg engine" where
  "engine_with_tables l b = (engine_of l b)\<lparr>en_db := (en_db (engine_of l b))\<lparr>rp_tables := tables_example\<rparr>\<rparr>"

definition proposal_engine :: "pg engine" where
  "proposal_engine = engine_with_tables [make_row contender_example (Some 1) None, stale_row] (backend_of [contender_example])"

lemma stale_example_runs:
  "case pt_commit port_example True [row_to_event stale_row] (en_backend proposal_engine) of
     (Inl (PortRebase _ _), _) \<Rightarrow> True | _ \<Rightarrow> False"
  "case commit_proposal_write config_example stale_row (lit ''p1'') PROPOSAL_POLICY_AUTO_REBASE proposal_engine of
     (Inl _, _) \<Rightarrow> False | (Inr k, s) \<Rightarrow> length (pg_rows (en_backend s)) = 2"
  by code_simp+

theorem stale_proposal_write_never_lands_witness:
  "\<exists>s'. commit_proposal_write config_example stale_row (lit ''p1'') PROPOSAL_POLICY_AUTO_REBASE proposal_engine = (Inr 1, s') \<and>
     (\<exists>new. history (lit ''w1'') (en_backend s') = history (lit ''w1'') (en_backend proposal_engine) @ new \<and>
       (\<forall>ce \<in> set new. payload (cevent ce) = rebase_flip))"
proof -
  obtain e cs b where c: "pt_commit port_example True [row_to_event stale_row] (en_backend proposal_engine) =
      (Inl (PortRebase e cs), b)"
    using stale_example_runs(1) by (auto split: prod.splits sum.splits port_error.splits)
  obtain k s' where w: "commit_proposal_write config_example stale_row (lit ''p1'') PROPOSAL_POLICY_AUTO_REBASE proposal_engine =
      (Inr k, s')"
    using stale_example_runs(2) by (auto split: prod.splits sum.splits)
  have b: "single_workspace (lit ''w1'') (en_backend proposal_engine)"
    by (simp add: proposal_engine_def engine_with_tables_def engine_of_def backend_example_ok)
  have p: "cf_port config_example = pg_port (\<lambda>_. []) verifier_example (lit ''w1'') (Suc 9) (\<lambda>_. [])"
    "cf_port config_example = port_example"
    by (simp_all add: config_example_def port_example_def)
  from stale_proposal_write_never_lands [OF b p(1) _ w, unfolded p(2), OF c] w show ?thesis by blast
qed








text \<open>C15: A flush that is rolled back after the backend committed an event it minted (a conflict record, a proposal's
  flip) forgets that event here but not, at the backend, its sequence number.  The next local event of the author
  reuses the number, and the backend acknowledges it with the forgotten event's commit order without ever storing it.\<close>

theorem rolled_back_commit_shadows_next_write:
  assumes "flush_attempt cf policy j s = (Inl x, s')" "single_workspace ws (en_backend s')"
    and "ce \<in> set (history ws (en_backend s'))"
    and "dedup_key (cevent ce) = (sink_actor k, next_actor_seq (rp_log (en_db s)) (sink_actor k))"
    and "emit ed' i k d (rp_log (en_db s')) = Inr l" "event_id (cevent ce) \<noteq> i"
    and "pt_commit (pg_port D vf ws n prose) cas [row_to_event (last l)] (en_backend s') = (Inr rs, b)"
  shows "en_db s' = en_db s \<and> history ws b = history ws (en_backend s') \<and>
    row_to_event (last l) \<notin> cevent ` set (history ws b) \<and> map cr_revision rs = [revision ce]"
proof -
  let ?e = "row_to_event (last l)" and ?h = "history ws (en_backend s')"
  have db: "en_db s' = en_db s" by (rule flush_attempt_rolls_back [OF assms(1)])
  from emit_last [OF assms(5)] assms(4) db have e: "event_id ?e = i" "dedup_key ?e = dedup_key (cevent ce)" by simp_all
  have ok: "sorted_wrt (<) (map revision ?h)" "distinct (map (dedup_key \<circ> cevent) ?h)"
    using pg_hist_ok [OF assms(2)] by simp_all
  have "held_at ?h ?e (revision ce)" using assms(3) e by (auto simp: held_at_def)
  then have "\<forall>f \<in> set [?e]. \<exists>m. held_at ?h f m" by auto
  note known = pg_commit_known [OF assms(2,7) this]
  have "?e \<noteq> cevent y" if y: "y \<in> set ?h" for y
  proof
    assume "?e = cevent y"
    with e y assms(3) ok(2) have "y = ce" by (auto simp: distinct_map inj_on_def)
    with \<open>?e = cevent y\<close> e(1) assms(6) show False by simp
  qed
  moreover from known(2) obtain r where "rs = [r]" "held_at ?h ?e (cr_revision r)" by (auto simp: list_all2_Cons1)
  moreover from this(2) have "cr_revision r = revision ce"
    using pg.held_unique [OF assms(2)] \<open>held_at ?h ?e (revision ce)\<close> by blast
  ultimately show ?thesis using db known(1) by auto
qed

definition orphan_engine :: "pg engine" where
  "orphan_engine = engine_with_tables
     [make_row contender_example (Some 1) None, stale_row,
      make_row (event_example\<lparr>event_id := lit ''e3'', actor_seq := 2\<rparr>) None (Some (lit ''p2''))]
     (backend_of [contender_example])"

definition sink_example :: sink where
  "sink_example = \<lparr>sink_actor = lit ''a1'', sink_signer = None\<rparr>"

definition lost_example :: domain_event where
  "lost_example = \<lparr>de_collection = lit ''tickets'', de_entity_id = lit ''t1'', de_op = op_patch,
     de_payload = [(lit ''title'', PStr (lit ''z''))], de_base_rev = None, de_committed_rev = None\<rparr>"

definition rolled_back :: "pg engine" where
  "rolled_back = snd (flush_attempt config_example PROPOSAL_POLICY_AUTO_REBASE 1 orphan_engine)"

definition next_write :: event where
  "next_write = (case emit ed_example (lit ''e4'') sink_example lost_example (rp_log (en_db orphan_engine)) of
     Inl _ \<Rightarrow> event_example | Inr l \<Rightarrow> row_to_event (last l))"

lemma orphan_example1:
  "case fst (flush_attempt config_example PROPOSAL_POLICY_AUTO_REBASE 1 orphan_engine) of Inl _ \<Rightarrow> True | Inr _ \<Rightarrow> False"
  by code_simp

lemma orphan_example2:
  "map (\<lambda>ce. (actor_id (cevent ce), actor_seq (cevent ce), event_id (cevent ce))) (history (lit ''w1'') (en_backend rolled_back)) =
     [(lit ''a2'', 1, lit ''e2''), (lit ''a1'', 3, lit ''00'')]"
  by code_simp

lemma orphan_example3:
  "case emit ed_example (lit ''e4'') sink_example lost_example (rp_log (en_db orphan_engine)) of Inl _ \<Rightarrow> False | Inr _ \<Rightarrow> True"
  by code_simp

lemma orphan_example4:
  "case fst (pt_commit port_example False [next_write] (en_backend rolled_back)) of Inl _ \<Rightarrow> False | Inr _ \<Rightarrow> True"
  by code_simp

lemma orphan_example5:
  "next_actor_seq (rp_log (en_db orphan_engine)) (lit ''a1'') = 3"
  by code_simp

lemma fst_Inr: "fst p = Inr x \<Longrightarrow> \<exists>s. p = (Inr x, s)"
  by (cases p) simp

theorem rolled_back_commit_shadows_next_write_witness:
  "\<exists>x s' l rs b. flush_attempt config_example PROPOSAL_POLICY_AUTO_REBASE 1 orphan_engine = (Inl x, s') \<and>
     emit ed_example (lit ''e4'') sink_example lost_example (rp_log (en_db s')) = Inr l \<and>
     pt_commit port_example False [row_to_event (last l)] (en_backend s') = (Inr rs, b) \<and>
     row_to_event (last l) \<notin> cevent ` set (history (lit ''w1'') b)"
proof -
  obtain x s' where flush: "flush_attempt config_example PROPOSAL_POLICY_AUTO_REBASE 1 orphan_engine = (Inl x, s')"
    using orphan_example1
    by (cases "flush_attempt config_example PROPOSAL_POLICY_AUTO_REBASE 1 orphan_engine") (auto split: sum.splits)
  then have s': "rolled_back = s'" by (simp add: rolled_back_def)
  have db: "en_db s' = en_db orphan_engine" by (rule flush_attempt_rolls_back [OF flush])
  obtain l where emit: "emit ed_example (lit ''e4'') sink_example lost_example (rp_log (en_db s')) = Inr l"
    using defined_Inr [OF orphan_example3] by (auto simp: db)
  then have e: "next_write = row_to_event (last l)" by (simp add: next_write_def db)
  from defined_Inr [OF orphan_example4] obtain rs
    where "fst (pt_commit port_example False [row_to_event (last l)] (en_backend s')) = Inr rs" by (auto simp: s' e)
  from fst_Inr [OF this] obtain b
    where c: "pt_commit port_example False [row_to_event (last l)] (en_backend s') = (Inr rs, b)" ..
  from orphan_example2 [unfolded s'] obtain y ce where h: "history (lit ''w1'') (en_backend s') = [y, ce]"
    and ce': "actor_id (cevent ce) = lit ''a1''" "actor_seq (cevent ce) = 3" "event_id (cevent ce) = lit ''00''"
    by (auto simp: map_eq_Cons_conv)
  then have ce: "ce \<in> set (history (lit ''w1'') (en_backend s'))" "actor_id (cevent ce) = lit ''a1''"
    "actor_seq (cevent ce) = 3" "event_id (cevent ce) = lit ''00''" by simp_all
  have port: "cf_port config_example = pg_port (\<lambda>_. []) verifier_example (lit ''w1'') (Suc 9) (\<lambda>_. [])"
    by (simp add: config_example_def port_example_def)
  have "single_workspace (lit ''w1'') (en_backend orphan_engine)"
    by (simp add: orphan_engine_def engine_with_tables_def engine_of_def backend_example_ok)
  moreover have "log_inv (history (lit ''w1'') (en_backend orphan_engine)) (rp_log (en_db orphan_engine))"
    by (simp add: orphan_engine_def engine_with_tables_def engine_of_def log_inv_def log_keys_def stale_row_def
        keyed_def coherent_def commits_held_def held_at_def history_def backend_of_def contender_example_def stale_write_def
        event_example_def dedup_key_def lit_def)
  ultimately have start: "at_least (history (lit ''w1'')) (single_workspace (lit ''w1'')) [] {} orphan_engine"
    by (simp add: at_least_def)
  have "keeps (at_least (history (lit ''w1'')) (single_workspace (lit ''w1'')) [] {})
      (flush_attempt config_example PROPOSAL_POLICY_AUTO_REBASE 1)"
    by (rule pg.keeps_flush_attempt [OF port])
  then have "at_least (history (lit ''w1'')) (single_workspace (lit ''w1'')) [] {} s'"
    using flush start by (rule keepsD)
  then have ok: "single_workspace (lit ''w1'') (en_backend s')" by (simp add: at_least_def)
  have key: "dedup_key (cevent ce) = (sink_actor sink_example, next_actor_seq (rp_log (en_db orphan_engine)) (sink_actor sink_example))"
    using ce orphan_example5 by (simp add: dedup_key_def sink_example_def)
  have "event_id (cevent ce) \<noteq> lit ''e4''" using ce(4) by (simp add: lit_def)
  note lost = rolled_back_commit_shadows_next_write [OF flush ok ce(1) key emit this c [unfolded port_example_def]]
  show ?thesis using flush emit c lost [THEN conjunct2, THEN conjunct2, THEN conjunct1] by (intro exI conjI)
qed

section \<open>The audit trail\<close>



text \<open>C33: Summarising expired rows keeps the trail verified end to end, changes nothing but the two detail columns
  of the named rows and the links after them, and refuses rows no anchor reaches.\<close>

theorem summarize_keeps_chain:
  assumes "summarize_rows H ids anchors t = Inr (n, t')" "distinct (map ar_id t)"
    and "\<exists>q. verify_chain H None None None t = Inr q \<and> cv_ok q"
  shows "(\<exists>q. verify_chain H None None None t' = Inr q \<and> cv_ok q) \<and>
    list_all2 (\<lambda>r s. s = (blank_row ids r)\<lparr>ar_hash := ar_hash s\<rparr>) t t' \<and>
    (ids = [] \<or> range_is_anchored (Max (set ids)) anchors)"
  using summarize_rows_linked [OF assms(1) _ assms(2)] summarize_rows_content [OF assms(1)] assms(1,3)
  by (auto simp: verify_chain_ok summarize_rows_def Let_def split: if_splits)

definition trail_example :: trail where
  "trail_example = (case audit_write (\<lambda>b. map id b) \<lparr>env_now = 0, env_id = lit ''i1''\<rparr> (lit ''a1'') (lit ''x.y'') (lit ''app'')
     None None (Some []) [] of Inl _ \<Rightarrow> [] | Inr (r, t) \<Rightarrow> t)"

definition anchor_example :: anchor_row where
  "anchor_example = \<lparr>an_id = lit ''n1'', an_actor = lit ''a1'', an_start = lit ''i1'', an_end = lit ''i1'', an_root = [],
     an_size = 1, an_tip = [], an_pin = None, an_created = 0\<rparr>"

theorem summarize_keeps_chain_witness:
  "\<exists>n t'. summarize_rows (\<lambda>b. map id b) [lit ''i1''] [anchor_example] trail_example = Inr (n, t') \<and>
     (\<exists>q. verify_chain (\<lambda>b. map id b) None None None t' = Inr q \<and> cv_ok q)"
proof -
  let ?H = "\<lambda>b. map id b"
  have "case summarize_rows ?H [lit ''i1''] [anchor_example] trail_example of Inl _ \<Rightarrow> False | Inr _ \<Rightarrow> True" by code_simp
  with defined_Inr obtain n t' where w: "summarize_rows ?H [lit ''i1''] [anchor_example] trail_example = Inr (n, t')" by fast
  have "case verify_chain ?H None None None trail_example of Inl _ \<Rightarrow> False | Inr q \<Rightarrow> cv_ok q" by code_simp
  then have "\<exists>q. verify_chain ?H None None None trail_example = Inr q \<and> cv_ok q" by (auto split: sum.splits)
  moreover have "distinct (map ar_id trail_example)" by code_simp
  ultimately show ?thesis using summarize_keeps_chain [OF w] w by blast
qed







section \<open>The services\<close>

text \<open>A service of actor \<open>a1\<close>; \<open>spell\<close> writes a wall clock as one character that \<open>unspell\<close> reads back.\<close>

definition spell :: "moment \<Rightarrow> pystr" where
  "spell mo = [200 + 2 * nat \<bar>wall mo\<bar> + (if wall mo < 0 then 1 else 0)]"


definition service_example :: service where
  "service_example = \<lparr>sv_actor = lit ''a1'', sv_source = lit ''app'',
     sv_sink = Some \<lparr>sink_actor = lit ''a1'', sink_signer = None\<rparr>, sv_ed = ed_example, sv_H = (\<lambda>_. replicate 64 48),
     sv_env = (\<lambda>i. \<lparr>env_now = 7, env_id = replicate (Suc i) 48\<rparr>), sv_dj = spell, sv_iso = (\<lambda>_. []), sv_str = (\<lambda>_. [])\<rparr>"

definition stored_row :: "model \<Rightarrow> string \<Rightarrow> (string \<times> string) list \<Rightarrow> pystr \<times> row" where
  "stored_row m i flds = (lit i, to_row (new_object \<lparr>env_now = 1, env_id = lit i\<rparr> m (map (\<lambda>(f, x). (lit f, Js (PStr (lit x)))) flds)))"

text \<open>A database with a workspace; then one with a project, two tickets, a proposal and a private note as well.\<close>

definition db_of :: "(pystr \<times> (pystr \<times> row) list) list \<Rightarrow> replica" where
  "db_of d = \<lparr>rp_log = [], rp_tables = (\<lambda>t. case dget d t of None \<Rightarrow> [] | Some x \<Rightarrow> x), rp_cursors = [], rp_trail = []\<rparr>"

definition session_of :: "replica \<Rightarrow> session" where
  "session_of db = \<lparr>ss_db = db, ss_stored = db, ss_fresh = 0\<rparr>"

definition new_db :: replica where
  "new_db = db_of [(m_table Workspace, [stored_row Workspace ''w1'' [(''name'', ''W'')]])]"

definition used_db :: replica where
  "used_db = db_of
     [(m_table Workspace, [stored_row Workspace ''w1'' [(''name'', ''W'')]]),
      (m_table Project, [stored_row Project ''p1'' [(''workspace_id'', ''w1''), (''name'', ''P'')]]),
      (m_table Ticket, [stored_row Ticket ''t1'' [(''project_id'', ''p1''), (''title'', ''one'')],
        stored_row Ticket ''t2'' [(''project_id'', ''p1''), (''title'', ''two'')]]),
      (m_table AgentProposal, [(lit ''q1'', to_row (new_object \<lparr>env_now = 1, env_id = lit ''q1''\<rparr> AgentProposal
        [(lit ''ticket_id'', Js (PStr (lit ''t1''))), (lit ''proposer_id'', Js (PStr (lit ''a2''))),
         (lit ''diff'', Js (PDict [(PStr (lit ''changes''), PDict [(PStr (lit ''title''), PStr (lit ''three''))])]))]))]),
      (m_table MemoryEntry, [stored_row MemoryEntry ''m1'' [(''title'', ''mine''), (''visibility'', ''local''), (''created_by'', ''a1'')]])]"












text \<open>C11: A tracker request that fails, wherever it fails, leaves the database as it was: no row, no audit entry and
  no event of it remains.\<close>

theorem tracker_requests_all_or_nothing:
  assumes "tracker_op sv m" "rested s" "request m s = (Inl e, t)"
  shows "ss_db t = ss_db s \<and> ss_stored t = ss_stored s"
  using request_outcome [OF assms] assms(2) by (simp add: rested_def)

text \<open>Here the row was flushed before the audit entry was refused.\<close>

definition refused_request :: "unit svc" where
  "refused_request = ignore (create_project (service_example\<lparr>sv_source := lit ''web''\<rparr>) (lit ''w1'') (lit ''P'') [] [] None None (lit ''active''))"

lemma refused_request_result: "fst (request refused_request (session_of new_db)) = Inl (TrailError AuditWriteError)"
  by code_simp

theorem tracker_requests_all_or_nothing_witness:
  "ss_db (snd (request refused_request (session_of new_db))) = new_db"
proof -
  have "request refused_request (session_of new_db) = (Inl (TrailError AuditWriteError), snd (request refused_request (session_of new_db)))"
    using refused_request_result by (metis prod.collapse)
  moreover have "tracker_op (service_example\<lparr>sv_source := lit ''web''\<rparr>) refused_request"
    unfolding refused_request_def by (rule tracker_op.intros)
  ultimately show ?thesis
    using tracker_requests_all_or_nothing [of _ refused_request "session_of new_db"] by (simp add: rested_def session_of_def)
qed

text \<open>C6: The relationship graph stays sound: after any sequence of tracker requests each family of relationships
  is acyclic, no fact is stored twice, also not as its inverse or with its ends swapped, and every type is a known one.\<close>

theorem relations_stay_acyclic:
  assumes "tracker_runs sv s t" "rested s" "relations_ok (rp_tables (ss_db s))"
  shows "acyclic (arcs (rp_tables (ss_stored t)) f) \<and> distinct (map row_key (relation_rows (rp_tables (ss_stored t)))) \<and>
    (\<forall>r \<in> set (relation_rows (rp_tables (ss_stored t))). text_of r ''type'' \<in> set RELATIONSHIP_TYPES)"
proof -
  have "relations_ok (rp_tables (ss_db t))"
    by (rule runs_keep_tables [where R = relations_ok, OF assms]) (rule tracker_op_relations)
  moreover have "rested t" by (rule runs_invariant [where I = "\<lambda>_. True", THEN conjunct1, OF assms(1,2)]) simp_all
  ultimately show ?thesis by (simp add: relations_ok_def rested_def)
qed

definition block_request :: "string \<Rightarrow> string \<Rightarrow> unit svc" where
  "block_request a b = ignore (add_relation service_example (lit a) (lit b) (lit ''blocking''))"

lemma block_request_runs: "tracker_runs sv s t \<Longrightarrow> sv = service_example \<Longrightarrow> tracker_runs sv s (snd (request (block_request a b) t))"
  unfolding block_request_def by (blast intro: runs_step tracker_op.intros)

lemma block_request_result:
  "case request (block_request ''t1'' ''t2'') (session_of used_db) of (r, t) \<Rightarrow> r = Inr () \<and>
     map (\<lambda>r. (text_of r ''from_id'', text_of r ''to_id'')) (relation_rows (rp_tables (ss_stored t))) = [(lit ''t1'', lit ''t2'')] \<and>
     fst (request (block_request ''t2'' ''t1'') t) = Inl ValidationError"
  by code_simp

theorem relations_stay_acyclic_witness:
  "\<exists>t. tracker_runs service_example (session_of used_db) t \<and> (lit ''t1'', lit ''t2'') \<in> arcs (rp_tables (ss_stored t)) Blocks \<and>
     acyclic (arcs (rp_tables (ss_stored t)) Blocks)"
proof -
  let ?t = "snd (request (block_request ''t1'' ''t2'') (session_of used_db))"
  have run: "tracker_runs service_example (session_of used_db) ?t" by (intro block_request_runs runs_refl refl)
  have "relation_rows (rp_tables used_db) = []" by code_simp
  then have "relations_ok (rp_tables (ss_db (session_of used_db)))"
    by (simp add: relations_ok_def arcs_def session_of_def acyclic_def)
  from relations_stay_acyclic [OF run _ this, of Blocks] have "acyclic (arcs (rp_tables (ss_stored ?t)) Blocks)"
    by (simp add: rested_def session_of_def)
  moreover have "(lit ''t1'', lit ''t2'') \<in> arcs (rp_tables (ss_stored ?t)) Blocks"
  proof -
    have "list_ex (\<lambda>r. row_arc r = Some (Blocks, lit ''t1'', lit ''t2'')) (relation_rows (rp_tables (ss_stored ?t)))" by code_simp
    then show ?thesis by (auto simp: arcs_def list_ex_iff)
  qed
  ultimately show ?thesis using run by blast
qed

text \<open>C13: Parent links stay a forest: after any sequence of tracker requests no ticket is its own ancestor, and a
  ticket's parent exists and is in the ticket's project.\<close>

theorem parents_stay_forest:
  assumes "tracker_runs sv s t" "rested s" "parents_ok (rp_tables (ss_db s))"
  shows "acyclic (parent_links (rp_tables (ss_stored t))) \<and>
    (\<forall>(i, p) \<in> parent_links (rp_tables (ss_stored t)). \<exists>r q. get_row (rp_tables (ss_stored t)) Ticket i = Some r \<and>
      get_row (rp_tables (ss_stored t)) Ticket p = Some q \<and> project_of q = project_of r)"
proof -
  have "parents_ok (rp_tables (ss_db t))"
    by (rule runs_keep_tables [where R = parents_ok, OF assms]) (rule tracker_op_parents)
  moreover have "rested t" by (rule runs_invariant [where I = "\<lambda>_. True", THEN conjunct1, OF assms(1,2)]) simp_all
  ultimately show ?thesis unfolding parents_ok_def rested_def parent_links_def by fastforce
qed

definition parent_request :: "string \<Rightarrow> string \<Rightarrow> unit svc" where
  "parent_request i p = ignore (update_ticket service_example (lit i) [(lit ''parent_id'', Js (PStr (lit p)))])"

lemma parent_request_result:
  "case request (parent_request ''t1'' ''t2'') (session_of used_db) of (r, t) \<Rightarrow> r = Inr () \<and>
     list_all (\<lambda>(i, r). parent_of r = (if i = lit ''t1'' then Some (lit ''t2'') else None)) (rp_tables (ss_stored t) (m_table Ticket)) \<and>
     map fst (rp_tables (ss_stored t) (m_table Ticket)) = [lit ''t1'', lit ''t2''] \<and>
     fst (request (parent_request ''t2'' ''t1'') t) = Inl ValidationError"
  by code_simp

lemma used_db_parents: "parents_ok (rp_tables used_db)"
proof -
  have l: "list_all (\<lambda>(i, r). parent_of r = None \<and> id_of r = Some i) (rp_tables used_db (m_table Ticket))" by code_simp
  then have *: "parent_of r = None \<and> id_of r = Some i" if "get_row (rp_tables used_db) Ticket i = Some r" for i r
    using that by (auto simp: get_row_def list_all_iff dest!: map_of_SomeD)
  then have "parent_links (rp_tables used_db) = {}" by (fastforce simp: parent_links_def)
  with * show ?thesis by (fastforce simp: parents_ok_def acyclic_def)
qed

theorem parents_stay_forest_witness:
  "\<exists>t. tracker_runs service_example (session_of used_db) t \<and> (lit ''t1'', lit ''t2'') \<in> parent_links (rp_tables (ss_stored t)) \<and>
     acyclic (parent_links (rp_tables (ss_stored t)))"
proof -
  let ?t = "snd (request (parent_request ''t1'' ''t2'') (session_of used_db))"
  have run: "tracker_runs service_example (session_of used_db) ?t"
    unfolding parent_request_def by (intro runs_step runs_refl tracker_op.intros) (simp add: dict_ok_def)
  have "acyclic (parent_links (rp_tables (ss_stored ?t)))"
    using parents_stay_forest [OF run] used_db_parents by (simp add: rested_def session_of_def)
  moreover have "(case get_row (rp_tables (ss_stored ?t)) Ticket (lit ''t1'') of None \<Rightarrow> False | Some r \<Rightarrow> parent_of r = Some (lit ''t2''))"
    by code_simp
  then have "(lit ''t1'', lit ''t2'') \<in> parent_links (rp_tables (ss_stored ?t))" by (auto simp: parent_links_def split: option.splits)
  ultimately show ?thesis using run by blast
qed

text \<open>C22: The dependency query answers truthfully: it reports a cycle exactly when one is reachable from the source,
  and then a real one; otherwise it finds a path exactly when one exists, and the path it reports is a shortest one.\<close>

theorem dependency_path_exact:
  shows "case pr_cycle (dependency_path_find ts a b) of
     Some c \<Rightarrow> is_cycle (blocks_adjacency ts) c \<and> set c \<subseteq> (arcs ts Blocks)\<^sup>* `` {a} \<and> \<not> pr_found (dependency_path_find ts a b)
   | None \<Rightarrow> {x. (a, x) \<in> (arcs ts Blocks)\<^sup>* \<and> (x, x) \<in> (arcs ts Blocks)\<^sup>+} = {} \<and>
       pr_found (dependency_path_find ts a b) = ((a, b) \<in> (arcs ts Blocks)\<^sup>*) \<and>
       (if pr_found (dependency_path_find ts a b) then shortest (blocks_adjacency ts) a b (pr_path (dependency_path_find ts a b)) else True)"
proof -
  note result = dependency_path_find_result [OF refl, of ts a b]
  show ?thesis
  proof (cases "pr_cycle (dependency_path_find ts a b)")
    case None
    with result(1) have "{x. (a, x) \<in> (arcs ts Blocks)\<^sup>* \<and> (x, x) \<in> (arcs ts Blocks)\<^sup>+} = {}" by blast
    with None result(3,4) show ?thesis by simp
  next
    case (Some c)
    with result(2) show ?thesis by simp
  qed
qed





text \<open>C16: A decision is final: a proposal that is no longer pending can be neither approved nor rejected, a
  compare-and-swap that lost its race writes nothing, and a refused decision leaves the database as it was.\<close>

theorem decisions_are_final:
  assumes "get_row (rp_tables (ss_db s)) AgentProposal i = Some r" "rested s"
    and "cell_of r (lit ''status'') \<noteq> Cell (PStr (lit ''pending''))"
  shows "fst (request (approve_proposal sv fi signer i) s) = Inl ProposalConflictError \<and>
    fst (request (reject_proposal sv signer i reason) s) = Inl ProposalConflictError \<and>
    flip_status sv (dset (lit ''id'') (Js (PStr i)) pob) status ts reason s = (Inl ProposalConflictError, s) \<and>
    ss_db (snd (request (approve_proposal sv fi signer i) s)) = ss_db s \<and>
    ss_db (snd (request (reject_proposal sv signer i reason) s)) = ss_db s"
proof -
  have "object_id (dset (lit ''id'') (Js (PStr i)) pob) = i" by (simp add: object_id_def attr_def text_value_def)
  from not_pending_refused(3) [OF assms(1,3) this] not_pending_refused(1,2) [OF assms(1,3)] assms(2)
  show ?thesis by (simp add: request_def rested_def)
qed

definition decided_db :: replica where
  "decided_db = ss_db (snd (request (reject_proposal service_example None (lit ''q1'') []) (session_of used_db)))"

lemma decided_example:
  "case get_row (rp_tables decided_db) AgentProposal (lit ''q1'') of None \<Rightarrow> False
   | Some r \<Rightarrow> cell_of r (lit ''status'') = Cell (PStr (lit ''rejected''))"
  by code_simp

theorem decisions_are_final_witness:
  "fst (request (approve_proposal service_example (\<lambda>_. None) None (lit ''q1'')) (session_of decided_db)) = Inl ProposalConflictError"
proof -
  obtain r where r: "get_row (rp_tables decided_db) AgentProposal (lit ''q1'') = Some r" "cell_of r (lit ''status'') = Cell (PStr (lit ''rejected''))"
    using decided_example by (auto split: option.splits)
  then have "cell_of r (lit ''status'') \<noteq> Cell (PStr (lit ''pending''))" by (simp add: lit_def)
  with decisions_are_final [of "session_of decided_db" "lit ''q1''" r] r(1) show ?thesis by (simp add: rested_def session_of_def)
qed



lemma note_requests_result:
  "case request (ignore (promote service_example (lit ''m1''))) (session_of used_db) of (r, t) \<Rightarrow>
     r = Inr () \<and> length (rp_log (ss_stored t)) = 1 \<and> length (rp_trail (ss_stored t)) = 2"
  by code_simp






end
